(* ===== verification/Prelude.thy ===== *)
theory Prelude
  imports Main "HOL-Library.Word"
begin

text \<open>
  Shared vocabulary of the development: results with JavaScript errors, actions
  over a state that may throw (the closures of the source that share a mutable
  \<open>offset\<close>), the 32-bit integer operators of JavaScript on unbounded integers,
  and byte strings in little and big endian.

  A JavaScript number is an \<open>int\<close> (all numbers of the modelled code are integers
  below \<open>2 ^ 53\<close>, where doubles are exact) or a \<open>nat\<close> where it is a length, an
  offset or the result of an unsigned read. A \<open>Buffer\<close> is a list of bytes.
\<close>

unbundle bit_operations_syntax

named_theorems wire_intros "rules of the writer and reader calculus"
named_theorems byte_simps "rewriting of byte strings and bounds"

subsection \<open>Types\<close>

type_synonym byte = "8 word"
type_synonym buffer = "byte list"

text \<open>
  \<open>ERR_OUT_OF_RANGE\<close> is the \<open>RangeError\<close> of Node's \<open>Buffer\<close> accessors (a value
  that does not fit, or an offset outside the buffer). \<open>TypeError\<close> also stands
  for a failed \<open>typeforce\<close> check and for a property read of \<open>undefined\<close>.
  Messages that the source completes with a value keep their fixed part.
\<close>

datatype error =
    ERR_OUT_OF_RANGE
  | TypeError string
  | Error string

type_synonym 'a result = "error + 'a"

subsection \<open>Results\<close>

fun bindE :: "'a result \<Rightarrow> ('a \<Rightarrow> 'b result) \<Rightarrow> 'b result" where
  "bindE (Inl e) f = Inl e"
| "bindE (Inr x) f = f x"

definition assertE :: "bool \<Rightarrow> error \<Rightarrow> unit result" where
  "assertE b e = (if b then Inr () else Inl e)"

fun mapE :: "('a \<Rightarrow> 'b result) \<Rightarrow> 'a list \<Rightarrow> 'b list result" where
  "mapE f [] = Inr []"
| "mapE f (x # xs) = bindE (f x) (\<lambda>y. bindE (mapE f xs) (\<lambda>ys. Inr (y # ys)))"

text \<open>\<open>Array.prototype.every\<close> and \<open>some\<close> with a predicate that may throw: they stop at
  the first element that decides.\<close>

fun everyE :: "('a \<Rightarrow> bool result) \<Rightarrow> 'a list \<Rightarrow> bool result" where
  "everyE p [] = Inr True"
| "everyE p (x # xs) = bindE (p x) (\<lambda>b. if b then everyE p xs else Inr False)"

lemma bindE_Inr_iff [simp]: "bindE m f = Inr y \<longleftrightarrow> (\<exists>x. m = Inr x \<and> f x = Inr y)"
  by (cases m) auto

lemma bindE_assoc: "bindE (bindE m f) g = bindE m (\<lambda>x. bindE (f x) g)"
  by (cases m) auto

lemma bindE_return [simp]: "bindE m Inr = m"
  by (cases m) auto

lemma bindE_if: "bindE (if b then m else n) f = (if b then bindE m f else bindE n f)"
  by simp

lemma bindE_cong [fundef_cong]:
  "m = m' \<Longrightarrow> (\<And>x. m' = Inr x \<Longrightarrow> f x = g x) \<Longrightarrow> bindE m f = bindE m' g"
  by (cases m') auto

lemma assertE_simps [simp]:
  "assertE True e = Inr ()"
  "assertE False e = Inl e"
  "assertE b e = Inr u \<longleftrightarrow> b"
  by (auto simp: assertE_def)

lemma mapE_Inr: "(\<And>x. x \<in> set xs \<Longrightarrow> f x = Inr (g x)) \<Longrightarrow> mapE f xs = Inr (map g xs)"
  by (induction xs) auto

lemma everyE_Inr: "(\<And>x. x \<in> set xs \<Longrightarrow> p x = Inr (q x)) \<Longrightarrow> everyE p xs = Inr (list_all q xs)"
  by (induction xs) auto

subsection \<open>Actions: state and errors\<close>

type_synonym ('s, 'a) act = "'s \<Rightarrow> ('a \<times> 's) result"

definition retS :: "'a \<Rightarrow> ('s, 'a) act" where
  "retS x = (\<lambda>s. Inr (x, s))"

definition bindS :: "('s, 'a) act \<Rightarrow> ('a \<Rightarrow> ('s, 'b) act) \<Rightarrow> ('s, 'b) act" where
  "bindS m f = (\<lambda>s. case m s of Inl e \<Rightarrow> Inl e | Inr (x, s') \<Rightarrow> f x s')"

definition seqS :: "('s, unit) act \<Rightarrow> ('s, 'b) act \<Rightarrow> ('s, 'b) act" where
  "seqS m n = bindS m (\<lambda>_. n)"

definition throwS :: "error \<Rightarrow> ('s, 'a) act" where
  "throwS e = (\<lambda>s. Inl e)"

text \<open>\<open>forEach\<close> and a counted loop that collects its results.\<close>

fun forS :: "('a \<Rightarrow> ('s, unit) act) \<Rightarrow> 'a list \<Rightarrow> ('s, unit) act" where
  "forS f [] = retS ()"
| "forS f (x # xs) = seqS (f x) (forS f xs)"

fun timesS :: "nat \<Rightarrow> ('s, 'a) act \<Rightarrow> ('s, 'a list) act" where
  "timesS 0 m = retS []"
| "timesS (Suc n) m = bindS m (\<lambda>x. bindS (timesS n m) (\<lambda>xs. retS (x # xs)))"

lemma bindS_Inr_iff:
  "bindS m f s = Inr y \<longleftrightarrow> (\<exists>x s'. m s = Inr (x, s') \<and> f x s' = Inr y)"
  by (auto simp: bindS_def split: sum.splits)

lemma bindS_assoc: "bindS (bindS m f) g = bindS m (\<lambda>x. bindS (f x) g)"
  by (rule ext) (auto simp: bindS_def split: sum.splits)

lemma retS_apply [simp]: "retS x s = Inr (x, s)"
  by (simp add: retS_def)

lemma throwS_apply [simp]: "throwS e s = Inl e"
  by (simp add: throwS_def)

lemma bindS_Inr [simp]: "m s = Inr (x, s') \<Longrightarrow> bindS m f s = f x s'"
  by (simp add: bindS_def)

lemma bindS_Inl [simp]: "m s = Inl e \<Longrightarrow> bindS m f s = Inl e"
  by (simp add: bindS_def)

lemma seqS_Inr [simp]: "m s = Inr ((), s') \<Longrightarrow> seqS m n s = n s'"
  by (simp add: seqS_def)

lemma seqS_Inl [simp]: "m s = Inl e \<Longrightarrow> seqS m n s = Inl e"
  by (simp add: seqS_def)

lemma timesS_all:
  assumes "timesS n m s = Inr (xs, s')" "\<And>s x s'. m s = Inr (x, s') \<Longrightarrow> P x"
  shows "list_all P xs"
  using assms(1)
proof (induction n arbitrary: s xs s')
  case (Suc n)
  then obtain x t ys where "m s = Inr (x, t)" "timesS n m t = Inr (ys, s')" "xs = x # ys"
    by (auto simp: bindS_Inr_iff)
  then show ?case using assms(2) [of s x t] Suc.IH by simp
qed simp

lemma timesS_length: "timesS n m s = Inr (xs, s') \<Longrightarrow> length xs = n"
  by (induction n arbitrary: s xs s') (auto simp: bindS_Inr_iff)

subsection \<open>The 32-bit operators of JavaScript\<close>

text \<open>
  \<open>&\<close>, \<open>|\<close>, \<open><<\<close>, \<open>>>\<close> and \<open>~\<close> convert their operands with ToInt32 and give a signed
  32-bit result; \<open>>>>\<close> converts with ToUint32.
\<close>

definition toInt32 :: "int \<Rightarrow> int" where
  "toInt32 x = signed_take_bit 31 x"

definition toUint32 :: "int \<Rightarrow> int" where
  "toUint32 x = take_bit 32 x"

definition js_and :: "int \<Rightarrow> int \<Rightarrow> int" where
  "js_and x y = (toInt32 x AND toInt32 y)"

definition js_or :: "int \<Rightarrow> int \<Rightarrow> int" where
  "js_or x y = (toInt32 x OR toInt32 y)"

definition js_not :: "int \<Rightarrow> int" where
  "js_not x = NOT (toInt32 x)"

definition js_shl :: "int \<Rightarrow> nat \<Rightarrow> int" where
  "js_shl x n = toInt32 (push_bit (n mod 32) (toInt32 x))"

definition js_sar :: "int \<Rightarrow> nat \<Rightarrow> int" where
  "js_sar x n = drop_bit (n mod 32) (toInt32 x)"

definition js_shr :: "int \<Rightarrow> nat \<Rightarrow> int" where
  "js_shr x n = drop_bit (n mod 32) (toUint32 x)"

lemmas js_bit_defs = js_and_def js_or_def js_not_def js_shl_def js_sar_def js_shr_def

lemma toInt32_small: "- (2 ^ 31) \<le> x \<Longrightarrow> x < 2 ^ 31 \<Longrightarrow> toInt32 x = x"
  unfolding toInt32_def by (rule signed_take_bit_int_eq_self) auto

lemma toUint32_mod: "toUint32 x = x mod 2 ^ 32"
  by (simp add: toUint32_def take_bit_eq_mod)

lemma toInt32_mod:
  assumes k: "k \<le> 32"
  shows "toInt32 x mod 2 ^ k = x mod 2 ^ k"
proof -
  have "take_bit k (signed_take_bit 31 x) = take_bit k x"
  proof (rule bit_eqI)
    fix n
    consider "n \<le> 31" | "k \<le> n" using k by linarith
    then show "bit (take_bit k (signed_take_bit 31 x)) n = bit (take_bit k x) n"
      by cases (auto simp: bit_take_bit_iff bit_signed_take_bit_iff min_def)
  qed
  then show ?thesis by (simp add: toInt32_def take_bit_eq_mod)
qed

lemma toInt32_bounds: "- (2 ^ 31) \<le> toInt32 x" "toInt32 x < 2 ^ 31"
  unfolding toInt32_def
  by (rule signed_take_bit_int_greater_eq_minus_exp, rule signed_take_bit_int_less_exp)

lemma js_and_mask: "k \<le> 31 \<Longrightarrow> js_and x (2 ^ k - 1) = x mod 2 ^ k"
proof -
  assume k: "k \<le> 31"
  have "(2::int) ^ k \<le> 2 ^ 31" using k by (intro power_increasing) auto
  moreover have "(0::int) < 2 ^ k" by simp
  ultimately have "toInt32 (2 ^ k - 1) = 2 ^ k - 1"
    by (intro toInt32_small) linarith+
  then have "js_and x (2 ^ k - 1) = toInt32 x mod 2 ^ k"
    by (simp add: js_and_def flip: take_bit_eq_mask mask_eq_exp_minus_1 take_bit_eq_mod)
  then show ?thesis using k by (simp add: toInt32_mod)
qed

lemma js_and_255: "js_and x 255 = x mod 256"
  using js_and_mask [of 8 x] by simp

lemma js_and_31: "js_and x 31 = x mod 32"
  using js_and_mask [of 5 x] by simp

lemma js_and_minus_1: "js_and x (-1) = toInt32 x"
  using toInt32_small [of "-1"] by (simp add: js_and_def)

lemma or_push_bit_add:
  assumes "0 \<le> x" "x < 2 ^ k"
  shows "x OR push_bit k y = x + push_bit k (y :: int)"
proof -
  have "x = take_bit k x" using assms by (simp add: take_bit_int_eq_self)
  then have "x AND push_bit k y = 0"
    by (intro bit_eqI) (metis bit_0_eq bit_and_iff bit_push_bit_iff bit_take_bit_iff bot_apply leD bot_bool_def)
  then show ?thesis by (simp add: disjunctive_add_eq_or)
qed

text \<open>A test of one bit, as in \<open>hashType & 0x80\<close>.\<close>

lemma js_and_bit:
  assumes "k < 31"
  shows "js_and x (2 ^ k) \<noteq> 0 \<longleftrightarrow> bit x k"
proof -
  have "(2::int) ^ k < 2 ^ 31" using assms by (intro power_strict_increasing) auto
  then have e: "toInt32 (2 ^ k) = 2 ^ k"
    by (intro toInt32_small) (auto intro: order_trans [of _ 0])
  have "bit (js_and x (2 ^ k)) n \<longleftrightarrow> n = k \<and> bit x k" for n
    using assms unfolding js_and_def e
    by (auto simp: bit_and_iff bit_exp_iff toInt32_def bit_signed_take_bit_iff min_def)
  then show ?thesis by (auto simp: bit_eq_iff)
qed

end
