(* ===== verification/Buffers.thy ===== *)
theory Buffers
  imports Prelude
begin

text \<open>
  Node's \<open>Buffer\<close>: allocation, element access, \<open>slice\<close>, \<open>copy\<close> and the fixed-width
  reads and writes the source calls. A write returns the changed buffer, since the
  source mutates it in place. A read or write outside the buffer, and a value that
  does not fit its width, throw \<open>ERR_OUT_OF_RANGE\<close>.

  \<open>Buffer.allocUnsafe(n)\<close> returns memory with whatever bytes it held before: its
  content is the parameter \<open>junk\<close> of every definition that calls it, so a theorem
  for all \<open>junk\<close> says that no stale byte reaches the result.
\<close>

subsection \<open>Byte strings and numbers\<close>

fun le_bytes :: "nat \<Rightarrow> nat \<Rightarrow> buffer" where
  "le_bytes 0 n = []"
| "le_bytes (Suc k) n = word_of_nat n # le_bytes k (n div 256)"

fun le_nat :: "buffer \<Rightarrow> nat" where
  "le_nat [] = 0"
| "le_nat (b # bs) = unat b + 256 * le_nat bs"

definition be_bytes :: "nat \<Rightarrow> nat \<Rightarrow> buffer" where
  "be_bytes k n = rev (le_bytes k n)"

definition be_nat :: "buffer \<Rightarrow> nat" where
  "be_nat bs = le_nat (rev bs)"

text \<open>Evaluation on a literal width.\<close>

lemma le_bytes_numeral: "le_bytes (numeral k) n = word_of_nat n # le_bytes (pred_numeral k) (n div 256)"
  by (simp only: numeral_eq_Suc le_bytes.simps)

lemma length_le_bytes [simp, byte_simps]: "length (le_bytes k n) = k"
  by (induction k arbitrary: n) auto

lemma length_be_bytes [simp, byte_simps]: "length (be_bytes k n) = k"
  by (simp add: be_bytes_def)

lemma unat_byte_bound [simp]: "unat (b :: byte) < 256"
  using unsigned_less [of b] by simp

lemma unat_word_of_nat_byte: "unat (word_of_nat n :: byte) = n mod 256"
  by (simp add: unat_of_nat)

lemma word_of_nat_unat_byte: "word_of_nat (unat (b :: byte)) = b"
  by simp

lemma le_nat_le_bytes: "le_nat (le_bytes k n) = n mod 256 ^ k"
proof (induction k arbitrary: n)
  case 0
  then show ?case by simp
next
  case (Suc k)
  then show ?case
    by (simp add: unat_word_of_nat_byte mod_mult2_eq)
qed

lemma le_nat_bound: "le_nat bs < 256 ^ length bs"
proof (induction bs)
  case Nil
  then show ?case by simp
next
  case (Cons b bs)
  have "unat b + 256 * le_nat bs < 256 + 256 * le_nat bs" by simp
  also have "\<dots> = 256 * Suc (le_nat bs)" by simp
  also have "\<dots> \<le> 256 * 256 ^ length bs" using Cons by (intro mult_le_mono) auto
  finally show ?case by simp
qed

lemma le_bytes_le_nat: "le_bytes (length bs) (le_nat bs) = bs"
proof (induction bs)
  case Nil
  then show ?case by simp
next
  case (Cons b bs)
  have "word_of_nat (unat b + 256 * le_nat bs) = b"
    by (rule word_unat_eq_iff [THEN iffD2])
      (simp only: unat_word_of_nat_byte mod_mult_self2 mod_less unat_byte_bound)
  moreover have "(unat b + 256 * le_nat bs) div 256 = le_nat bs" by simp
  ultimately show ?case using Cons by simp
qed

lemma le_nat_append: "le_nat (xs @ ys) = le_nat xs + 256 ^ length xs * le_nat ys"
  by (induction xs) (auto simp: algebra_simps)

lemma le_bytes_split: "le_bytes (j + k) n = le_bytes j n @ le_bytes k (n div 256 ^ j)"
  by (induction j arbitrary: n) (auto simp: div_mult2_eq mult.commute)

lemma le_bytes_mod: "le_bytes k (n mod 256 ^ k) = le_bytes k n"
proof (induction k arbitrary: n)
  case 0
  then show ?case by simp
next
  case (Suc k)
  have "word_of_nat (n mod (256 * 256 ^ k)) = (word_of_nat n :: byte)"
    by (rule word_unat_eq_iff [THEN iffD2]) (simp add: unat_word_of_nat_byte mod_mod_cancel)
  moreover have "n mod (256 * 256 ^ k) div 256 = (n div 256) mod 256 ^ k"
    by (simp add: mod_mult2_eq)
  ultimately show ?case using Suc by simp
qed

lemma be_nat_be_bytes: "be_nat (be_bytes k n) = n mod 256 ^ k"
  by (simp add: be_nat_def be_bytes_def le_nat_le_bytes)

subsection \<open>Allocation and element access\<close>

definition allocUnsafe :: "(nat \<Rightarrow> byte) \<Rightarrow> nat \<Rightarrow> buffer" where
  "allocUnsafe junk n = map junk [0..<n]"

lemma length_allocUnsafe [simp, byte_simps]: "length (allocUnsafe junk n) = n"
  by (simp add: allocUnsafe_def)

text \<open>\<open>buffer[i]\<close> is \<open>undefined\<close> outside the buffer.\<close>

definition byte_at :: "buffer \<Rightarrow> nat \<Rightarrow> nat option" where
  "byte_at b i = (if i < length b then Some (unat (b ! i)) else None)"

text \<open>\<open>buffer.slice(i, j)\<close> with \<open>0 \<le> i\<close>, \<open>0 \<le> j\<close>: both ends are clamped to the buffer.\<close>

definition slice :: "buffer \<Rightarrow> nat \<Rightarrow> nat \<Rightarrow> buffer" where
  "slice b i j = take (j - i) (drop i b)"

text \<open>Replacing the bytes from an offset on; the in-place effect of every write.\<close>

definition put :: "buffer \<Rightarrow> nat \<Rightarrow> buffer \<Rightarrow> buffer" where
  "put b off bs = take off b @ bs @ drop (off + length bs) b"

text \<open>\<open>source.copy(target, off)\<close> copies what fits and returns the number of bytes copied.\<close>

definition copy :: "buffer \<Rightarrow> buffer \<Rightarrow> nat \<Rightarrow> buffer \<times> nat" where
  "copy src target off =
     (if off \<ge> length target then (target, 0)
      else let n = min (length src) (length target - off)
           in (put target off (take n src), n))"

lemma length_put [simp, byte_simps]:
  "off + length bs \<le> length b \<Longrightarrow> length (put b off bs) = length b"
  by (simp add: put_def)

lemma put_append [simp, byte_simps]: "put (pre @ b) (length pre) bs = pre @ bs @ drop (length bs) b"
  by (simp add: put_def)

lemma put_Nil [simp]: "off \<le> length b \<Longrightarrow> put b off [] = b"
  by (simp add: put_def)

lemma put_put_adjacent:
  "off + length xs \<le> length b \<Longrightarrow> put (put b off xs) (off + length xs) ys = put b off (xs @ ys)"
  by (cases xs) (auto simp: put_def min_def add_ac)

lemma copy_fits:
  "off + length src \<le> length target \<Longrightarrow> copy src target off = (put target off src, length src)"
  by (cases "src = []") (auto simp: copy_def Let_def min_def)

lemma copy_append:
  "length src \<le> length b \<Longrightarrow> copy src (pre @ b) (length pre) = (pre @ src @ drop (length src) b, length src)"
  by (simp add: copy_fits)

lemma slice_append [simp]:
  "slice (pre @ bs @ suf) (length pre) (length pre + length bs) = bs"
  by (simp add: slice_def)

lemma length_slice: "j \<le> length b \<Longrightarrow> length (slice b i j) = j - i"
  by (auto simp: slice_def min_def)

subsection \<open>Fixed-width reads\<close>

definition readUIntLE :: "nat \<Rightarrow> buffer \<Rightarrow> nat \<Rightarrow> nat result" where
  "readUIntLE k b off =
     (if off + k \<le> length b then Inr (le_nat (take k (drop off b))) else Inl ERR_OUT_OF_RANGE)"

definition readUInt8 :: "buffer \<Rightarrow> nat \<Rightarrow> nat result" where
  "readUInt8 = readUIntLE 1"

definition readUInt16LE :: "buffer \<Rightarrow> nat \<Rightarrow> nat result" where
  "readUInt16LE = readUIntLE 2"

definition readUInt32LE :: "buffer \<Rightarrow> nat \<Rightarrow> nat result" where
  "readUInt32LE = readUIntLE 4"

definition readInt32LE :: "buffer \<Rightarrow> nat \<Rightarrow> int result" where
  "readInt32LE b off =
     bindE (readUIntLE 4 b off) (\<lambda>n. Inr (if n < 2 ^ 31 then int n else int n - 2 ^ 32))"

definition readUInt32BE :: "buffer \<Rightarrow> nat \<Rightarrow> nat result" where
  "readUInt32BE b off =
     (if off + 4 \<le> length b then Inr (be_nat (take 4 (drop off b))) else Inl ERR_OUT_OF_RANGE)"

lemmas read_defs = readUInt8_def readUInt16LE_def readUInt32LE_def

lemma readUIntLE_append:
  "length bs = k \<Longrightarrow> readUIntLE k (pre @ bs @ suf) (length pre) = Inr (le_nat bs)"
  by (simp add: readUIntLE_def)

lemma readUInt8_eq: "readUInt8 b i = (if i < length b then Inr (unat (b ! i)) else Inl ERR_OUT_OF_RANGE)"
  by (auto simp: readUInt8_def readUIntLE_def take_Suc_conv_app_nth)

lemma readUInt8_byte_at: "byte_at b i = Some n \<Longrightarrow> readUInt8 b i = Inr n"
  by (auto simp: readUInt8_eq byte_at_def split: if_splits)

subsection \<open>Fixed-width writes\<close>

definition writeUIntLE :: "nat \<Rightarrow> buffer \<Rightarrow> int \<Rightarrow> nat \<Rightarrow> buffer result" where
  "writeUIntLE k b v off =
     (if v < 0 \<or> v \<ge> 256 ^ k then Inl ERR_OUT_OF_RANGE
      else if off + k \<le> length b then Inr (put b off (le_bytes k (nat v)))
      else Inl ERR_OUT_OF_RANGE)"

definition writeUInt8 :: "buffer \<Rightarrow> int \<Rightarrow> nat \<Rightarrow> buffer result" where
  "writeUInt8 = writeUIntLE 1"

definition writeUInt16LE :: "buffer \<Rightarrow> int \<Rightarrow> nat \<Rightarrow> buffer result" where
  "writeUInt16LE = writeUIntLE 2"

definition writeUInt32LE :: "buffer \<Rightarrow> int \<Rightarrow> nat \<Rightarrow> buffer result" where
  "writeUInt32LE = writeUIntLE 4"

definition writeInt32LE :: "buffer \<Rightarrow> int \<Rightarrow> nat \<Rightarrow> buffer result" where
  "writeInt32LE b v off =
     (if v < - (2 ^ 31) \<or> v \<ge> 2 ^ 31 then Inl ERR_OUT_OF_RANGE
      else if off + 4 \<le> length b then Inr (put b off (le_bytes 4 (nat (v mod 2 ^ 32))))
      else Inl ERR_OUT_OF_RANGE)"

definition writeUInt32BE :: "buffer \<Rightarrow> int \<Rightarrow> nat \<Rightarrow> buffer result" where
  "writeUInt32BE b v off =
     (if v < 0 \<or> v \<ge> 2 ^ 32 then Inl ERR_OUT_OF_RANGE
      else if off + 4 \<le> length b then Inr (put b off (be_bytes 4 (nat v)))
      else Inl ERR_OUT_OF_RANGE)"

lemmas write_defs = writeUInt8_def writeUInt16LE_def writeUInt32LE_def

lemma writeUIntLE_fits:
  "0 \<le> v \<Longrightarrow> v < 256 ^ k \<Longrightarrow> off + k \<le> length b \<Longrightarrow>
     writeUIntLE k b v off = Inr (put b off (le_bytes k (nat v)))"
  by (simp add: writeUIntLE_def)

lemma writeUInt8_fits:
  "0 \<le> v \<Longrightarrow> v < 256 \<Longrightarrow> off < length b \<Longrightarrow> writeUInt8 b v off = Inr (put b off [word_of_nat (nat v)])"
  by (simp add: writeUInt8_def writeUIntLE_def)

lemma writeInt32LE_fits:
  "- (2 ^ 31) \<le> v \<Longrightarrow> v < 2 ^ 31 \<Longrightarrow> off + 4 \<le> length b \<Longrightarrow>
     writeInt32LE b v off = Inr (put b off (le_bytes 4 (nat (v mod 2 ^ 32))))"
  by (simp add: writeInt32LE_def)

text \<open>A signed 32-bit value survives its two's complement encoding.\<close>

lemma int32_wrap:
  assumes "- (2 ^ 31) \<le> (v::int)" "v < 2 ^ 31"
  shows "(if nat (v mod 2 ^ 32) < 2 ^ 31 then int (nat (v mod 2 ^ 32)) else int (nat (v mod 2 ^ 32)) - 2 ^ 32) = v"
proof (cases "0 \<le> v")
  case True
  then have "v mod 2 ^ 32 = v" using assms by (intro mod_pos_pos_trivial) auto
  then show ?thesis using True assms by (auto simp: nat_less_iff)
next
  case False
  then have "(v + 2 ^ 32) mod 2 ^ 32 = v + 2 ^ 32" using assms by (intro mod_pos_pos_trivial) auto
  then have "v mod 2 ^ 32 = v + 2 ^ 32" by simp
  then show ?thesis using False assms by (auto simp: nat_less_iff)
qed

end
