(* ===== verification/Wire.thy ===== *)
theory Wire
  imports Buffers
begin

text \<open>
  Serialisation as the source does it: closures that write at a shared offset of a
  preallocated buffer and advance it (\<open>writer\<close>), and closures that read at a shared
  offset and advance it (\<open>reader\<close>). \<open>writes w bs\<close> says that the writer puts exactly
  \<open>bs\<close> wherever it starts, \<open>reads r bs x\<close> that the reader consumes exactly \<open>bs\<close> and
  returns \<open>x\<close> wherever it starts; both compose.

  The locale \<open>prefix_codec\<close> is the contract of a variable-length number encoding (push
  sizes of scripts, varints of transactions), \<open>wire_codec\<close> that of a value with a
  writer and a reader.
\<close>

type_synonym writer = "(buffer \<times> nat, unit) act"
type_synonym 'a reader = "buffer \<Rightarrow> (nat, 'a) act"

subsection \<open>The closures of the source\<close>

definition emit :: "(buffer \<Rightarrow> nat \<Rightarrow> buffer result) \<Rightarrow> nat \<Rightarrow> writer" where
  "emit f k = (\<lambda>(b, off). bindE (f b off) (\<lambda>b'. Inr ((), b', off + k)))"

definition fetch :: "(buffer \<Rightarrow> nat \<Rightarrow> 'a result) \<Rightarrow> nat \<Rightarrow> 'a reader" where
  "fetch f k b off = bindE (f b off) (\<lambda>x. Inr (x, off + k))"

definition writeSlice :: "buffer \<Rightarrow> writer" where
  "writeSlice s = (\<lambda>(b, off). case copy s b off of (b', n) \<Rightarrow> Inr ((), b', off + n))"

definition w_UInt8 :: "int \<Rightarrow> writer" where
  "w_UInt8 i = emit (\<lambda>b. writeUInt8 b i) 1"

definition w_UInt32 :: "int \<Rightarrow> writer" where
  "w_UInt32 i = emit (\<lambda>b. writeUInt32LE b i) 4"

definition w_Int32 :: "int \<Rightarrow> writer" where
  "w_Int32 i = emit (\<lambda>b. writeInt32LE b i) 4"

text \<open>\<open>readSlice\<close> advances the offset before it slices, and \<open>slice\<close> clamps: a read past
  the end returns a short slice and does not throw.\<close>

definition readSlice :: "nat \<Rightarrow> buffer reader" where
  "readSlice n b off = Inr (slice b off (off + n), off + n)"

definition r_UInt32 :: "nat reader" where
  "r_UInt32 = fetch readUInt32LE 4"

definition r_Int32 :: "int reader" where
  "r_Int32 = fetch readInt32LE 4"

subsection \<open>What a writer writes\<close>

definition writes :: "writer \<Rightarrow> buffer \<Rightarrow> bool" where
  "writes w bs \<longleftrightarrow> (\<forall>pre junk. length bs \<le> length junk \<longrightarrow>
     w (pre @ junk, length pre) = Inr ((), pre @ bs @ drop (length bs) junk, length pre + length bs))"

lemma writesD:
  "writes w bs \<Longrightarrow> length bs \<le> length junk \<Longrightarrow>
     w (pre @ junk, length pre) = Inr ((), pre @ bs @ drop (length bs) junk, length pre + length bs)"
  by (simp add: writes_def)

lemma writes_at:
  assumes w: "writes w bs" and fits: "off + length bs \<le> length b"
  shows "w (b, off) = Inr ((), put b off bs, off + length bs)"
proof -
  have "w (take off b @ drop off b, length (take off b)) =
      Inr ((), take off b @ bs @ drop (length bs) (drop off b), length (take off b) + length bs)"
    using w fits by (intro writesD) auto
  moreover have "length (take off b) = off" using fits by simp
  ultimately show ?thesis by (simp add: put_def add.commute)
qed

lemma writes_run: "writes w bs \<Longrightarrow> length b = length bs \<Longrightarrow> w (b, 0) = Inr ((), bs, length bs)"
  using writes_at [of w bs 0 b] by (simp add: put_def)

lemma writes_ret [wire_intros]: "writes (retS ()) []"
  by (simp add: writes_def)

lemma writes_seq [wire_intros]:
  assumes m: "writes m xs" and n: "writes n ys"
  shows "writes (seqS m n) (xs @ ys)"
  unfolding writes_def
proof (intro allI impI)
  fix pre junk :: buffer
  assume l: "length (xs @ ys) \<le> length junk"
  have "m (pre @ junk, length pre) = Inr ((), (pre @ xs) @ drop (length xs) junk, length (pre @ xs))"
    using writesD [OF m, of junk pre] l by simp
  moreover have "n ((pre @ xs) @ drop (length xs) junk, length (pre @ xs)) =
      Inr ((), (pre @ xs) @ ys @ drop (length ys) (drop (length xs) junk), length (pre @ xs) + length ys)"
    using l by (intro writesD [OF n]) simp
  ultimately show "seqS m n (pre @ junk, length pre) =
      Inr ((), pre @ (xs @ ys) @ drop (length (xs @ ys)) junk, length pre + length (xs @ ys))"
    by (simp add: add_ac)
qed

lemma writes_for [wire_intros]:
  "(\<And>x. x \<in> set xs \<Longrightarrow> writes (f x) (g x)) \<Longrightarrow> writes (forS f xs) (concat (map g xs))"
  by (induction xs) (auto intro: writes_ret writes_seq)

lemma writes_emit:
  assumes "\<And>b off. off + length bs \<le> length b \<Longrightarrow> f b off = Inr (put b off bs)" "k = length bs"
  shows "writes (emit f k) bs"
  using assms by (simp add: writes_def emit_def)

lemma writes_slice [wire_intros]: "writes (writeSlice s) s"
  by (simp add: writes_def writeSlice_def copy_append)

lemma writes_UInt8 [wire_intros]: "0 \<le> i \<Longrightarrow> i < 256 \<Longrightarrow> writes (w_UInt8 i) [word_of_nat (nat i)]"
  unfolding w_UInt8_def by (rule writes_emit) (auto simp: writeUInt8_fits)

lemma writes_UInt32 [wire_intros]: "0 \<le> i \<Longrightarrow> i < 2 ^ 32 \<Longrightarrow> writes (w_UInt32 i) (le_bytes 4 (nat i))"
  unfolding w_UInt32_def by (rule writes_emit) (auto simp: writeUInt32LE_def writeUIntLE_fits)

lemma writes_Int32 [wire_intros]:
  "- (2 ^ 31) \<le> i \<Longrightarrow> i < 2 ^ 31 \<Longrightarrow> writes (w_Int32 i) (le_bytes 4 (nat (i mod 2 ^ 32)))"
  unfolding w_Int32_def by (rule writes_emit) (auto simp: writeInt32LE_fits)

subsection \<open>What a reader reads\<close>

definition reads :: "'a reader \<Rightarrow> buffer \<Rightarrow> 'a \<Rightarrow> bool" where
  "reads r bs x \<longleftrightarrow> (\<forall>pre suf. r (pre @ bs @ suf) (length pre) = Inr (x, length pre + length bs))"

lemma readsD: "reads r bs x \<Longrightarrow> r (pre @ bs @ suf) (length pre) = Inr (x, length pre + length bs)"
  by (simp add: reads_def)

lemma reads_ret [wire_intros]: "reads (\<lambda>b. retS x) [] x"
  by (simp add: reads_def)

lemma reads_bind:
  assumes r: "reads r xs x" and k: "reads (k x) ys y"
  shows "reads (\<lambda>b. bindS (r b) (\<lambda>x. k x b)) (xs @ ys) y"
  unfolding reads_def
proof (intro allI)
  fix pre suf :: buffer
  have 1: "r (pre @ (xs @ ys) @ suf) (length pre) = Inr (x, length pre + length xs)"
    using readsD [OF r, of pre "ys @ suf"] by simp
  have 2: "k x (pre @ (xs @ ys) @ suf) (length pre + length xs) = Inr (y, length pre + length (xs @ ys))"
    using readsD [OF k, of "pre @ xs" suf] by (simp add: add_ac)
  show "bindS (r (pre @ (xs @ ys) @ suf)) (\<lambda>x. k x (pre @ (xs @ ys) @ suf)) (length pre) =
      Inr (y, length pre + length (xs @ ys))"
    using 1 2 by (simp add: bindS_def)
qed

text \<open>The last read of a block, whose continuation only returns.\<close>

lemma reads_map: "reads r xs x \<Longrightarrow> reads (\<lambda>b. bindS (r b) (\<lambda>x. retS (f x))) xs (f x)"
  using reads_bind [of r xs x "\<lambda>x b. retS (f x)" "[]" "f x"] by (simp add: reads_ret)

lemma reads_map_eq: "reads r xs x \<Longrightarrow> f x = y \<Longrightarrow> reads (\<lambda>b. bindS (r b) (\<lambda>x. retS (f x))) xs y"
  using reads_map [of r xs x f] by simp

lemma reads_fetch:
  assumes "\<And>pre suf. f (pre @ bs @ suf) (length pre) = Inr x" "k = length bs"
  shows "reads (fetch f k) bs x"
  using assms by (simp add: reads_def fetch_def)

lemma reads_slice [wire_intros]: "n = length s \<Longrightarrow> reads (readSlice n) s s"
  by (simp add: reads_def readSlice_def)

lemma reads_UInt32 [wire_intros]: "n < 2 ^ 32 \<Longrightarrow> reads r_UInt32 (le_bytes 4 n) n"
  unfolding r_UInt32_def
  by (rule reads_fetch) (auto simp: readUInt32LE_def readUIntLE_append le_nat_le_bytes)

lemma reads_Int32 [wire_intros]:
  assumes "- (2 ^ 31) \<le> i" "i < 2 ^ 31"
  shows "reads r_Int32 (le_bytes 4 (nat (i mod 2 ^ 32))) i"
  unfolding r_Int32_def
proof (rule reads_fetch)
  fix pre suf :: buffer
  have "nat (i mod 2 ^ 32) < 256 ^ 4" by (simp add: nat_less_iff)
  then show "readInt32LE (pre @ le_bytes 4 (nat (i mod 2 ^ 32)) @ suf) (length pre) = Inr i"
    using int32_wrap [OF assms]
    by (auto simp: readInt32LE_def readUIntLE_append le_nat_le_bytes split: if_splits)
qed simp

text \<open>A reader that throws on the given bytes, whatever follows.\<close>

definition fails :: "'a reader \<Rightarrow> buffer \<Rightarrow> error \<Rightarrow> bool" where
  "fails r bs e \<longleftrightarrow> (\<forall>pre suf. r (pre @ bs @ suf) (length pre) = Inl e)"

lemma failsD: "fails r bs e \<Longrightarrow> r (pre @ bs @ suf) (length pre) = Inl e"
  by (simp add: fails_def)

lemma fails_bind:
  assumes r: "reads r xs x" and k: "fails (k x) ys e"
  shows "fails (\<lambda>b. bindS (r b) (\<lambda>x. k x b)) (xs @ ys) e"
  unfolding fails_def
proof (intro allI)
  fix pre suf :: buffer
  show "bindS (r (pre @ (xs @ ys) @ suf)) (\<lambda>x. k x (pre @ (xs @ ys) @ suf)) (length pre) = Inl e"
    using readsD [OF r, of pre "ys @ suf"] failsD [OF k, of "pre @ xs" suf] by (simp add: bindS_def)
qed

lemma fails_first:
  assumes "fails r xs e"
  shows "fails (\<lambda>b. bindS (r b) (\<lambda>x. k x b)) (xs @ ys) e"
  unfolding fails_def
proof (intro allI)
  fix pre suf :: buffer
  show "bindS (r (pre @ (xs @ ys) @ suf)) (\<lambda>x. k x (pre @ (xs @ ys) @ suf)) (length pre) = Inl e"
    using failsD [OF assms, of pre "ys @ suf"] by simp
qed

subsection \<open>Contracts\<close>

text \<open>
  A value with a writer and a reader. \<open>ok\<close> bounds the values the format can carry;
  \<open>enc\<close> is the byte string.
\<close>

locale wire_codec =
  fixes wr :: "'a \<Rightarrow> writer"
    and rd :: "'a reader"
    and enc :: "'a \<Rightarrow> buffer"
    and ok :: "'a \<Rightarrow> bool"
  assumes wr_enc: "ok x \<Longrightarrow> writes (wr x) (enc x)"
    and rd_enc: "ok x \<Longrightarrow> reads rd (enc x) x"
begin

lemma codec_writes_list: "list_all ok xs \<Longrightarrow> writes (forS wr xs) (concat (map enc xs))"
  by (rule writes_for) (auto simp: list_all_iff intro: wr_enc)

lemma codec_reads_list: "list_all ok xs \<Longrightarrow> reads (\<lambda>b. timesS (length xs) (rd b)) (concat (map enc xs)) xs"
proof (induction xs)
  case Nil
  then show ?case by (simp add: reads_def)
next
  case (Cons x xs)
  then have x: "reads rd (enc x) x" and xs: "reads (\<lambda>b. timesS (length xs) (rd b)) (concat (map enc xs)) xs"
    by (auto intro: rd_enc)
  show ?case
    using reads_bind [where k = "\<lambda>x b. bindS (timesS (length xs) (rd b)) (\<lambda>ys. retS (x # ys))",
        OF x reads_map [OF xs, of "\<lambda>ys. x # ys"]]
    by simp
qed

end

text \<open>
  A number written with a variable number of bytes: \<open>bytes n\<close> is its encoding,
  \<open>encode\<close> puts it at an offset and returns its length, \<open>decode\<close> finds it again
  wherever it stands, whatever follows.
\<close>

locale prefix_codec =
  fixes encodingLength :: "nat \<Rightarrow> nat"
    and encode :: "buffer \<Rightarrow> nat \<Rightarrow> nat \<Rightarrow> (buffer \<times> nat) result"
    and decode :: "buffer \<Rightarrow> nat \<Rightarrow> (nat \<times> nat) result"
    and bytes :: "nat \<Rightarrow> buffer"
    and fits :: "nat \<Rightarrow> bool"
  assumes length_bytes: "fits n \<Longrightarrow> length (bytes n) = encodingLength n"
    and encode_bytes: "fits n \<Longrightarrow> off + encodingLength n \<le> length b \<Longrightarrow>
      encode b n off = Inr (put b off (bytes n), encodingLength n)"
    and decode_bytes: "fits n \<Longrightarrow>
      decode (pre @ bytes n @ suf) (length pre) = Inr (n, encodingLength n)"
begin

lemma encode_append:
  "fits n \<Longrightarrow> encodingLength n \<le> length junk \<Longrightarrow>
     encode (pre @ junk) n (length pre) = Inr (pre @ bytes n @ drop (encodingLength n) junk, encodingLength n)"
  using encode_bytes [of n "length pre" "pre @ junk"] by (simp add: length_bytes)

lemma bytes_inject: "fits m \<Longrightarrow> fits n \<Longrightarrow> bytes m = bytes n \<Longrightarrow> m = n"
  using decode_bytes [of m "[]" "[]"] decode_bytes [of n "[]" "[]"] by simp

text \<open>No encoding is a prefix of another one.\<close>

lemma bytes_prefix_free:
  assumes "fits m" "fits n" "bytes m @ xs = bytes n @ ys"
  shows "m = n \<and> xs = ys"
proof -
  have "m = n"
    using decode_bytes [OF assms(1), of "[]" xs] decode_bytes [OF assms(2), of "[]" ys] assms(3) by simp
  with assms(3) show ?thesis by simp
qed

end

end
