(* ===== verification/Ops.thy ===== *)
theory Ops
  imports Prelude
begin

text \<open>
  The opcode table of \<open>web/ecash-ops\<close>: \<open>OPS\<close> is \<open>index.json\<close> in file order, and
  \<open>REVERSE_OPS\<close> the table that \<open>map.js\<close> builds from it, where a later name of the
  same code replaces an earlier one. The opcodes the library names in its code are
  abbreviations of their values, so that they serve as bytes, lengths and numbers.
\<close>

subsection \<open>The opcodes the library names\<close>

abbreviation (input) OP_0 :: "'a::zero" where
  "OP_0 \<equiv> 0"

abbreviation (input) OP_PUSHDATA1 :: "'a::numeral" where
  "OP_PUSHDATA1 \<equiv> 76"

abbreviation (input) OP_PUSHDATA2 :: "'a::numeral" where
  "OP_PUSHDATA2 \<equiv> 77"

abbreviation (input) OP_PUSHDATA4 :: "'a::numeral" where
  "OP_PUSHDATA4 \<equiv> 78"

abbreviation (input) OP_1NEGATE :: "'a::numeral" where
  "OP_1NEGATE \<equiv> 79"

abbreviation (input) OP_RESERVED :: "'a::numeral" where
  "OP_RESERVED \<equiv> 80"

abbreviation (input) OP_1 :: "'a::numeral" where
  "OP_1 \<equiv> 81"

abbreviation (input) OP_16 :: "'a::numeral" where
  "OP_16 \<equiv> 96"

abbreviation (input) OP_RETURN :: "'a::numeral" where
  "OP_RETURN \<equiv> 106"

abbreviation (input) OP_DUP :: "'a::numeral" where
  "OP_DUP \<equiv> 118"

abbreviation (input) OP_HASH160 :: "'a::numeral" where
  "OP_HASH160 \<equiv> 169"

abbreviation (input) OP_EQUAL :: "'a::numeral" where
  "OP_EQUAL \<equiv> 135"

abbreviation (input) OP_EQUALVERIFY :: "'a::numeral" where
  "OP_EQUALVERIFY \<equiv> 136"

abbreviation (input) OP_CODESEPARATOR :: "'a::numeral" where
  "OP_CODESEPARATOR \<equiv> 171"

abbreviation (input) OP_CHECKSIG :: "'a::numeral" where
  "OP_CHECKSIG \<equiv> 172"

abbreviation (input) OP_CHECKMULTISIG :: "'a::numeral" where
  "OP_CHECKMULTISIG \<equiv> 174"

subsection \<open>The table\<close>

definition OPS :: "(string \<times> int) list" where
  "OPS = [
    (''OP_FALSE'', 0), (''OP_0'', 0), (''OP_PUSHDATA1'', 76), (''OP_PUSHDATA2'', 77),
    (''OP_PUSHDATA4'', 78), (''OP_1NEGATE'', 79), (''OP_RESERVED'', 80), (''OP_TRUE'', 81),
    (''OP_1'', 81), (''OP_2'', 82), (''OP_3'', 83), (''OP_4'', 84), (''OP_5'', 85),
    (''OP_6'', 86), (''OP_7'', 87), (''OP_8'', 88), (''OP_9'', 89), (''OP_10'', 90),
    (''OP_11'', 91), (''OP_12'', 92), (''OP_13'', 93), (''OP_14'', 94), (''OP_15'', 95),
    (''OP_16'', 96), (''OP_NOP'', 97), (''OP_VER'', 98), (''OP_IF'', 99), (''OP_NOTIF'', 100),
    (''OP_VERIF'', 101), (''OP_VERNOTIF'', 102), (''OP_ELSE'', 103), (''OP_ENDIF'', 104),
    (''OP_VERIFY'', 105), (''OP_RETURN'', 106), (''OP_TOALTSTACK'', 107),
    (''OP_FROMALTSTACK'', 108), (''OP_2DROP'', 109), (''OP_2DUP'', 110), (''OP_3DUP'', 111),
    (''OP_2OVER'', 112), (''OP_2ROT'', 113), (''OP_2SWAP'', 114), (''OP_IFDUP'', 115),
    (''OP_DEPTH'', 116), (''OP_DROP'', 117), (''OP_DUP'', 118), (''OP_NIP'', 119),
    (''OP_OVER'', 120), (''OP_PICK'', 121), (''OP_ROLL'', 122), (''OP_ROT'', 123),
    (''OP_SWAP'', 124), (''OP_TUCK'', 125), (''OP_CAT'', 126), (''OP_SPLIT'', 127),
    (''OP_NUM2BIN'', 128), (''OP_BIN2NUM'', 129), (''OP_SIZE'', 130), (''OP_INVERT'', 131),
    (''OP_AND'', 132), (''OP_OR'', 133), (''OP_XOR'', 134), (''OP_EQUAL'', 135),
    (''OP_EQUALVERIFY'', 136), (''OP_RESERVED1'', 137), (''OP_RESERVED2'', 138),
    (''OP_1ADD'', 139), (''OP_1SUB'', 140), (''OP_2MUL'', 141), (''OP_2DIV'', 142),
    (''OP_NEGATE'', 143), (''OP_ABS'', 144), (''OP_NOT'', 145), (''OP_0NOTEQUAL'', 146),
    (''OP_ADD'', 147), (''OP_SUB'', 148), (''OP_MUL'', 149), (''OP_DIV'', 150),
    (''OP_MOD'', 151), (''OP_LSHIFT'', 152), (''OP_RSHIFT'', 153), (''OP_BOOLAND'', 154),
    (''OP_BOOLOR'', 155), (''OP_NUMEQUAL'', 156), (''OP_NUMEQUALVERIFY'', 157),
    (''OP_NUMNOTEQUAL'', 158), (''OP_LESSTHAN'', 159), (''OP_GREATERTHAN'', 160),
    (''OP_LESSTHANOREQUAL'', 161), (''OP_GREATERTHANOREQUAL'', 162), (''OP_MIN'', 163),
    (''OP_MAX'', 164), (''OP_WITHIN'', 165), (''OP_RIPEMD160'', 166), (''OP_SHA1'', 167),
    (''OP_SHA256'', 168), (''OP_HASH160'', 169), (''OP_HASH256'', 170),
    (''OP_CODESEPARATOR'', 171), (''OP_CHECKSIG'', 172), (''OP_CHECKSIGVERIFY'', 173),
    (''OP_CHECKMULTISIG'', 174), (''OP_CHECKMULTISIGVERIFY'', 175), (''OP_NOP1'', 176),
    (''OP_NOP2'', 177), (''OP_CHECKLOCKTIMEVERIFY'', 177), (''OP_NOP3'', 178),
    (''OP_CHECKSEQUENCEVERIFY'', 178), (''OP_NOP4'', 179), (''OP_NOP5'', 180),
    (''OP_NOP6'', 181), (''OP_NOP7'', 182), (''OP_NOP8'', 183), (''OP_NOP9'', 184),
    (''OP_NOP10'', 185), (''OP_CHECKDATASIG'', 186), (''OP_CHECKDATASIGVERIFY'', 187),
    (''OP_REVERSEBYTES'', 188), (''OP_PUBKEYHASH'', 253), (''OP_PUBKEY'', 254),
    (''OP_INVALIDOPCODE'', 255)
  ]"

definition REVERSE_OPS :: "int \<rightharpoonup> string" where
  "REVERSE_OPS = fold (\<lambda>(op, code) m. m(code \<mapsto> op)) OPS Map.empty"

lemma OPS_named_opcodes:
  "map_of OPS ''OP_0'' = Some OP_0"
  "map_of OPS ''OP_PUSHDATA1'' = Some OP_PUSHDATA1"
  "map_of OPS ''OP_PUSHDATA2'' = Some OP_PUSHDATA2"
  "map_of OPS ''OP_PUSHDATA4'' = Some OP_PUSHDATA4"
  "map_of OPS ''OP_1NEGATE'' = Some OP_1NEGATE"
  "map_of OPS ''OP_RESERVED'' = Some OP_RESERVED"
  "map_of OPS ''OP_1'' = Some OP_1"
  "map_of OPS ''OP_16'' = Some OP_16"
  "map_of OPS ''OP_RETURN'' = Some OP_RETURN"
  "map_of OPS ''OP_DUP'' = Some OP_DUP"
  "map_of OPS ''OP_HASH160'' = Some OP_HASH160"
  "map_of OPS ''OP_EQUAL'' = Some OP_EQUAL"
  "map_of OPS ''OP_EQUALVERIFY'' = Some OP_EQUALVERIFY"
  "map_of OPS ''OP_CODESEPARATOR'' = Some OP_CODESEPARATOR"
  "map_of OPS ''OP_CHECKSIG'' = Some OP_CHECKSIG"
  "map_of OPS ''OP_CHECKMULTISIG'' = Some OP_CHECKMULTISIG"
  by code_simp+

text \<open>The loop of \<open>map.js\<close> keeps the last name of a code.\<close>

lemma REVERSE_OPS_map_of: "REVERSE_OPS code = map_of (rev (map (\<lambda>(op, c). (c, op)) OPS)) code"
proof -
  have "fold (\<lambda>(op, c) m. m(c \<mapsto> op)) xs m = m ++ map_of (rev (map (\<lambda>(op, c). (c, op)) xs))"
    for xs :: "(string \<times> int) list" and m
    by (induction xs arbitrary: m) (auto simp: map_add_def fun_eq_iff split: option.splits)
  then show ?thesis by (simp add: REVERSE_OPS_def)
qed

end
