(* ===== verification/Pushdata.thy ===== *)
theory Pushdata
  imports Wire Ops
begin

text \<open>
  \<open>web/pushdata-ecash/index.js\<close>: the size prefix of a data push. A size below
  \<open>OP_PUSHDATA1\<close> is its own opcode; larger sizes follow \<open>OP_PUSHDATA1\<close>,
  \<open>OP_PUSHDATA2\<close> or \<open>OP_PUSHDATA4\<close> in one, two or four little-endian bytes. The
  interpretation \<open>pd\<close> of \<open>prefix_codec\<close> is what scripts rely on.
\<close>

subsection \<open>The operations\<close>

record push =
  pd_opcode :: nat
  pd_number :: nat
  pd_size :: nat

definition pushdata_encodingLength :: "nat \<Rightarrow> nat" where
  "pushdata_encodingLength i =
     (if i < OP_PUSHDATA1 then 1 else if i \<le> 255 then 2 else if i \<le> 65535 then 3 else 5)"

definition pushdata_encode :: "buffer \<Rightarrow> nat \<Rightarrow> nat \<Rightarrow> (buffer \<times> nat) result" where
  "pushdata_encode buffer number offset =
     (let size = pushdata_encodingLength number in
      bindE
       (if size = 1 then writeUInt8 buffer (int number) offset
        else if size = 2 then
          bindE (writeUInt8 buffer OP_PUSHDATA1 offset) (\<lambda>buffer.
            writeUInt8 buffer (int number) (offset + 1))
        else if size = 3 then
          bindE (writeUInt8 buffer OP_PUSHDATA2 offset) (\<lambda>buffer.
            writeUInt16LE buffer (int number) (offset + 1))
        else
          bindE (writeUInt8 buffer OP_PUSHDATA4 offset) (\<lambda>buffer.
            writeUInt32LE buffer (int number) (offset + 1)))
       (\<lambda>buffer. Inr (buffer, size)))"

text \<open>\<open>Inr None\<close> is the \<open>null\<close> that the source returns when the size itself is cut off.\<close>

definition pushdata_decode :: "buffer \<Rightarrow> nat \<Rightarrow> push option result" where
  "pushdata_decode buffer offset =
     bindE (readUInt8 buffer offset) (\<lambda>opcode.
       let found = (\<lambda>number size. Inr (Some \<lparr>pd_opcode = opcode, pd_number = number, pd_size = size\<rparr>)) in
       if opcode < OP_PUSHDATA1 then found opcode 1
       else if opcode = OP_PUSHDATA1 then
         (if offset + 2 > length buffer then Inr None
          else bindE (readUInt8 buffer (offset + 1)) (\<lambda>number. found number 2))
       else if opcode = OP_PUSHDATA2 then
         (if offset + 3 > length buffer then Inr None
          else bindE (readUInt16LE buffer (offset + 1)) (\<lambda>number. found number 3))
       else
         (if offset + 5 > length buffer then Inr None
          else if opcode \<noteq> OP_PUSHDATA4 then Inl (Error ''Unexpected opcode'')
          else bindE (readUInt32LE buffer (offset + 1)) (\<lambda>number. found number 5)))"

subsection \<open>The format\<close>

definition pushdata_bytes :: "nat \<Rightarrow> buffer" where
  "pushdata_bytes n =
     (if n < 76 then [word_of_nat n]
      else if n \<le> 255 then OP_PUSHDATA1 # le_bytes 1 n
      else if n \<le> 65535 then OP_PUSHDATA2 # le_bytes 2 n
      else OP_PUSHDATA4 # le_bytes 4 n)"

definition pushdata_opcode :: "nat \<Rightarrow> nat" where
  "pushdata_opcode n =
     (if n < 76 then n else if n \<le> 255 then OP_PUSHDATA1 else if n \<le> 65535 then OP_PUSHDATA2 else OP_PUSHDATA4)"

lemma length_pushdata_bytes [simp, byte_simps]: "length (pushdata_bytes n) = pushdata_encodingLength n"
  by (simp add: pushdata_bytes_def pushdata_encodingLength_def)

lemma pushdata_encodingLength_pos [simp]: "0 < pushdata_encodingLength n"
  by (simp add: pushdata_encodingLength_def)

lemma pushdata_encode_bytes:
  assumes "n < 2 ^ 32" "off + pushdata_encodingLength n \<le> length b"
  shows "pushdata_encode b n off = Inr (put b off (pushdata_bytes n), pushdata_encodingLength n)"
  using assms put_put_adjacent [of off "[_]" b]
  by (auto simp: pushdata_encode_def pushdata_encodingLength_def pushdata_bytes_def Let_def
      writeUInt8_fits writeUInt16LE_def writeUInt32LE_def writeUIntLE_fits)

lemma readUInt8_here: "readUInt8 (pre @ x # suf) (length pre) = Inr (unat x)"
  by (simp add: readUInt8_eq)

lemma readUIntLE_after:
  "length bs = k \<Longrightarrow> readUIntLE k (pre @ x # bs @ suf) (Suc (length pre)) = Inr (le_nat bs)"
  using readUIntLE_append [of bs k "pre @ [x]" suf] by simp

lemma pushdata_decode_bytes:
  assumes "n < 2 ^ 32"
  shows "pushdata_decode (pre @ pushdata_bytes n @ suf) (length pre) =
    Inr (Some \<lparr>pd_opcode = pushdata_opcode n, pd_number = n, pd_size = pushdata_encodingLength n\<rparr>)"
proof -
  consider "n < 76" | "76 \<le> n" "n \<le> 255" | "255 < n" "n \<le> 65535" | "65535 < n"
    by linarith
  then show ?thesis
    using assms
    by cases
      (simp_all add: pushdata_decode_def pushdata_bytes_def pushdata_opcode_def pushdata_encodingLength_def
        Let_def readUInt8_here unat_word_of_nat_byte readUInt16LE_def readUInt32LE_def readUIntLE_after
        le_nat_le_bytes readUInt8_def [symmetric] readUInt8_eq nth_append)
qed

interpretation pd: prefix_codec pushdata_encodingLength pushdata_encode
  "\<lambda>b i. bindE (pushdata_decode b i) (\<lambda>d. case d of None \<Rightarrow> Inl ERR_OUT_OF_RANGE
     | Some p \<Rightarrow> Inr (pd_number p, pd_size p))"
  pushdata_bytes "\<lambda>n. n < 2 ^ 32"
  by unfold_locales (simp_all add: pushdata_encode_bytes pushdata_decode_bytes)

subsection \<open>What \<open>decode\<close> finds\<close>

lemma pushdata_decode_opcode:
  "pushdata_decode b i = Inr (Some d) \<Longrightarrow> i < length b \<and> pd_opcode d = unat (b ! i) \<and> pd_opcode d \<le> 78"
  by (auto simp: pushdata_decode_def Let_def readUInt8_eq split: if_splits)

lemma pushdata_decode_no_error:
  "i < length b \<Longrightarrow> unat (b ! i) \<le> 78 \<Longrightarrow> \<exists>d. pushdata_decode b i = Inr d"
  by (auto simp: pushdata_decode_def Let_def readUInt8_eq readUInt16LE_def readUInt32LE_def readUIntLE_def)

lemma pushdata_decode_size_number:
  assumes "pushdata_decode b i = Inr (Some d)"
  shows "i + pd_size d \<le> length b \<and> 0 < pd_size d \<and> pd_number d < 2 ^ 32"
proof -
  have "le_nat (take k x) < 2 ^ 32" if "k \<le> 4" for k x
    using less_le_trans [OF le_nat_bound power_increasing, of "take k x" 4] that by simp
  then have "le_nat (take 2 x) < 2 ^ 32" "le_nat (take 4 x) < 2 ^ 32" for x
    by (auto simp del: power_numeral)
  moreover have "unat x < 2 ^ 32" for x :: byte using unat_byte_bound [of x] by (rule less_trans) simp
  ultimately show ?thesis
    using assms by (auto simp: pushdata_decode_def Let_def readUInt8_eq readUInt16LE_def readUInt32LE_def
        readUIntLE_def split: if_splits)
qed

lemma take_drop_pos: "i < length b \<Longrightarrow> 0 < k \<Longrightarrow> take k (drop i b) = b ! i # take (k - 1) (drop (Suc i) b)"
  by (cases k) (simp_all flip: Cons_nth_drop_Suc)

lemma byte_eqI: "unat (x :: byte) = n \<Longrightarrow> x = word_of_nat n"
  by auto

lemma le_bytes_take: "j + k \<le> length b \<Longrightarrow> le_bytes k (le_nat (take k (drop j b))) = take k (drop j b)"
  using le_bytes_le_nat [of "take k (drop j b)"] by (simp add: min_absorb2 le_diff_conv2)

text \<open>A size written with its shortest opcode is read from exactly its encoding.\<close>

lemma pushdata_decode_inverse:
  assumes "pushdata_decode b i = Inr (Some d)" "pd_opcode d = pushdata_opcode (pd_number d)"
  shows "take (pd_size d) (drop i b) = pushdata_bytes (pd_number d)"
proof -
  have i: "i < length b" "unat (b ! i) = pd_opcode d" "pd_opcode d \<le> 78"
    using pushdata_decode_opcode [OF assms(1)] by auto
  have t: "take 1 (drop i b) = [b ! i]" "take 2 (drop i b) = b ! i # take 1 (drop (Suc i) b)"
    "take 3 (drop i b) = b ! i # take 2 (drop (Suc i) b)" "take 5 (drop i b) = b ! i # take 4 (drop (Suc i) b)"
    using take_drop_pos [OF i(1), of 1] take_drop_pos [OF i(1), of 2] take_drop_pos [OF i(1), of 3]
      take_drop_pos [OF i(1), of 5] by simp_all
  note le = le_bytes_take [of "Suc i" 1 b] le_bytes_take [of "Suc i" 2 b] le_bytes_take [of "Suc i" 4 b]
  consider "pd_opcode d < 76" | "pd_opcode d = 76" | "pd_opcode d = 77" | "pd_opcode d = 78"
    using i by linarith
  moreover obtain op n sz where "d = \<lparr>pd_opcode = op, pd_number = n, pd_size = sz\<rparr>" by (cases d)
  ultimately show ?thesis
    using assms i t le byte_eqI [OF i(2)]
    by cases (auto simp: pushdata_decode_def pushdata_bytes_def pushdata_opcode_def Let_def
        readUInt8_def readUInt16LE_def readUInt32LE_def readUIntLE_def
        split: if_splits simp del: le_bytes.simps)
qed

subsection \<open>Properties\<close>

text \<open>Whatever the buffer holds, \<open>encode\<close> of a 32-bit size at an offset with room for it changes only
  the bytes of the prefix, and \<open>decode\<close> at that offset gives back the size, the number of bytes
  written and the shortest opcode that can carry it.\<close>

theorem pushdata_roundtrip:
  assumes "n < 2 ^ 32" "off + pushdata_encodingLength n \<le> length b"
  shows "\<exists>b'. pushdata_encode b n off = Inr (b', pushdata_encodingLength n) \<and>
    take off b' = take off b \<and> drop (off + pushdata_encodingLength n) b' = drop (off + pushdata_encodingLength n) b \<and>
    pushdata_decode b' off =
      Inr (Some \<lparr>pd_opcode = pushdata_opcode n, pd_number = n, pd_size = pushdata_encodingLength n\<rparr>)"
proof -
  have "put b off (pushdata_bytes n) =
      take off b @ pushdata_bytes n @ drop (off + pushdata_encodingLength n) b"
    by (simp add: put_def)
  then show ?thesis
    using assms pushdata_encode_bytes [OF assms]
      pushdata_decode_bytes [OF assms(1), of "take off b" "drop (off + pushdata_encodingLength n) b"]
    by (simp add: min_absorb2)
qed

theorem pushdata_roundtrip_witness:
  "\<exists>b'. pushdata_encode [9, 9, 9, 9, 9] 300 1 = Inr (b', 3) \<and> take 1 b' = [9] \<and> drop 4 b' = [9] \<and>
    pushdata_decode b' 1 = Inr (Some \<lparr>pd_opcode = 77, pd_number = 300, pd_size = 3\<rparr>)"
  using pushdata_roundtrip [of 300 1 "[9, 9, 9, 9, 9]"]
  by (simp add: pushdata_encodingLength_def pushdata_opcode_def)

text \<open>\<open>decode\<close> on every input: a range error exactly past the end of the buffer, the \<open>null\<close> result
  or an exception only where the prefix is cut off or the opcode is not a push, and otherwise a
  size that lies inside the buffer and is the little-endian value of the bytes after the opcode.\<close>

theorem pushdata_decode_cases:
  "pushdata_decode b i =
    (if length b \<le> i then Inl ERR_OUT_OF_RANGE
     else let opcode = unat (b ! i);
              size = (if opcode < 76 then 1 else if opcode = 76 then 2 else if opcode = 77 then 3 else 5) in
       if length b < i + size then Inr None
       else if 78 < opcode then Inl (Error ''Unexpected opcode'')
       else Inr (Some \<lparr>pd_opcode = opcode,
         pd_number = (if opcode < 76 then opcode else le_nat (slice b (i + 1) (i + size))), pd_size = size\<rparr>))"
  by (auto simp: pushdata_decode_def Let_def readUInt8_eq readUInt16LE_def readUInt32LE_def readUIntLE_def
      slice_def take_Suc_conv_app_nth)

end
