(* ===== verification/Bufferutils.thy ===== *)
theory Bufferutils
  imports Wire Pushdata
begin

text \<open>
  \<open>ecashjs-lib/src/bufferutils.js\<close>: 64-bit little-endian integers within the exact range of a
  double, and the variable-length integers of the package \<open>varuint-bitcoin\<close>. That package is a
  parameter \<open>v\<close>; the locale \<open>varuint_codec\<close> is what the library relies on (the CompactSize format
  on integers below \<open>2 ^ 53\<close>), and \<open>compactSize_varuint\<close> shows that it can be met. The locale
  carries the codecs built on it: length-prefixed byte strings and vectors of them.
\<close>

subsection \<open>64-bit integers\<close>

abbreviation (input) MAX_SAFE :: int where
  "MAX_SAFE \<equiv> 0x001fffffffffffff"

text \<open>\<open>None\<close> is \<open>undefined\<close>. Numbers are integers, so the test for a fractional part cannot fail.\<close>

definition verifuint :: "int option \<Rightarrow> int \<Rightarrow> unit result" where
  "verifuint value limit = (case value of
     None \<Rightarrow> Inl (Error ''cannot write a non-number as a number'')
   | Some x \<Rightarrow>
       if x < 0 then Inl (Error ''specified a negative value for writing an unsigned value'')
       else if x > limit then Inl (Error ''RangeError: value out of range'')
       else Inr ())"

definition readUInt64LE :: "buffer \<Rightarrow> nat \<Rightarrow> nat result" where
  "readUInt64LE buffer offset =
     bindE (readUInt32LE buffer offset) (\<lambda>a.
     bindE (readUInt32LE buffer (offset + 4)) (\<lambda>b.
     let b = b * 0x100000000 in
     bindE (verifuint (Some (int (b + a))) MAX_SAFE) (\<lambda>_. Inr (b + a))))"

definition writeUInt64LE :: "buffer \<Rightarrow> int option \<Rightarrow> nat \<Rightarrow> (buffer \<times> nat) result" where
  "writeUInt64LE buffer value offset =
     bindE (verifuint value MAX_SAFE) (\<lambda>_.
     bindE (writeInt32LE buffer (js_and (the value) (-1)) offset) (\<lambda>buffer.
     bindE (writeUInt32LE buffer (the value div 0x100000000) (offset + 4)) (\<lambda>buffer.
     Inr (buffer, offset + 8))))"

lemma writeUInt64LE_fits:
  assumes "0 \<le> x" "x \<le> MAX_SAFE" "off + 8 \<le> length b"
  shows "writeUInt64LE b (Some x) off = Inr (put b off (le_bytes 8 (nat x)), off + 8)"
proof -
  have split: "le_bytes 8 (nat x) = le_bytes 4 (nat x) @ le_bytes 4 (nat x div 256 ^ 4)"
    using le_bytes_split [of 4 4 "nat x"] by simp
  have "nat (toInt32 x mod 2 ^ 32) = nat x mod 256 ^ 4"
    using assms(1) by (simp add: toInt32_mod [of 32, simplified] nat_mod_distrib)
  then have lo: "writeInt32LE b (js_and x (-1)) off = Inr (put b off (le_bytes 4 (nat x)))"
    using assms(3) toInt32_bounds [of x] le_bytes_mod [of 4 "nat x"]
    by (simp add: js_and_minus_1 writeInt32LE_fits)
  have "nat (x div 0x100000000) = nat x div 256 ^ 4" by (simp add: nat_div_distrib)
  then have hi: "writeUInt32LE c (x div 0x100000000) (off + 4) = Inr (put c (off + 4) (le_bytes 4 (nat x div 256 ^ 4)))"
    if "length c = length b" for c
    using assms that by (simp add: writeUInt32LE_def writeUIntLE_fits)
  have len: "length (put b off (le_bytes 4 (nat x))) = length b"
    using assms(3) by (simp add: put_def)
  show ?thesis
    using assms put_put_adjacent [of off "le_bytes 4 (nat x)" b]
    by (simp add: writeUInt64LE_def verifuint_def lo hi [OF len] split)
qed

lemma readUInt64LE_append:
  assumes "length bs = 8" "le_nat bs < 2 ^ 53"
  shows "readUInt64LE (pre @ bs @ suf) (length pre) = Inr (le_nat bs)"
proof -
  have bs: "length (take 4 bs) = 4" "length (drop 4 bs) = 4" "take 4 bs @ drop 4 bs @ suf = bs @ suf"
    using assms(1) by auto
  have 1: "readUIntLE 4 (pre @ bs @ suf) (length pre) = Inr (le_nat (take 4 bs))"
    using readUIntLE_append [of "take 4 bs" 4 pre "drop 4 bs @ suf"] by (simp only: bs append_assoc)
  have 2: "readUIntLE 4 (pre @ bs @ suf) (length pre + 4) = Inr (le_nat (drop 4 bs))"
    using readUIntLE_append [of "drop 4 bs" 4 "pre @ take 4 bs" suf] by (simp only: bs append_assoc length_append)
  have "le_nat bs = le_nat (take 4 bs) + 0x100000000 * le_nat (drop 4 bs)"
    using le_nat_append [of "take 4 bs" "drop 4 bs"] bs by simp
  then show ?thesis
    using assms(2) 1 2 by (simp add: readUInt64LE_def readUInt32LE_def verifuint_def Let_def)
qed

subsection \<open>Variable-length integers\<close>

record varuint =
  vu_encodingLength :: "nat \<Rightarrow> nat"
  vu_encode :: "nat \<Rightarrow> buffer \<Rightarrow> nat \<Rightarrow> (buffer \<times> nat) result"
  vu_decode :: "buffer \<Rightarrow> nat \<Rightarrow> (nat \<times> nat) result"

text \<open>\<open>encode\<close> and \<open>decode\<close> of the package leave the number of bytes in a property of the function;
  here it is the second component of the result.\<close>

definition readVarInt :: "varuint \<Rightarrow> buffer \<Rightarrow> nat \<Rightarrow> (nat \<times> nat) result" where
  "readVarInt v buffer offset = vu_decode v buffer offset"

definition writeVarInt :: "varuint \<Rightarrow> buffer \<Rightarrow> nat \<Rightarrow> nat \<Rightarrow> (buffer \<times> nat) result" where
  "writeVarInt v buffer number offset = vu_encode v number buffer offset"

text \<open>The format.\<close>

definition compactSize :: "nat \<Rightarrow> buffer" where
  "compactSize n =
     (if n < 0xfd then [word_of_nat n]
      else if n \<le> 0xffff then 0xfd # le_bytes 2 n
      else if n \<le> 0xffffffff then 0xfe # le_bytes 4 n
      else 0xff # le_bytes 8 n)"

lemma compactSize_pos [simp]: "0 < length (compactSize n)" "compactSize n \<noteq> []"
  by (auto simp: compactSize_def)

lemma compactSize_hd: "hd (compactSize n) = (if n < 0xfd then word_of_nat n else if n \<le> 0xffff then 0xfd
    else if n \<le> 0xffffffff then 0xfe else 0xff)"
  by (simp add: compactSize_def)

lemma compactSize_hd_eq: "k < 0xfd \<Longrightarrow> unat (hd (compactSize n)) = k \<longleftrightarrow> n = k"
  by (auto simp: compactSize_hd unat_word_of_nat_byte)

subsection \<open>The closures over a shared offset\<close>

definition w_UInt64 :: "int option \<Rightarrow> writer" where
  "w_UInt64 i = (\<lambda>(b, off). bindE (writeUInt64LE b i off) (\<lambda>r. Inr ((), r)))"

definition w_VarInt :: "varuint \<Rightarrow> nat \<Rightarrow> writer" where
  "w_VarInt v i = (\<lambda>(b, off). bindE (vu_encode v i b off) (\<lambda>(b', n). Inr ((), b', off + n)))"

definition writeVarSlice :: "varuint \<Rightarrow> buffer \<Rightarrow> writer" where
  "writeVarSlice v s = seqS (w_VarInt v (length s)) (writeSlice s)"

definition writeVector :: "varuint \<Rightarrow> buffer list \<Rightarrow> writer" where
  "writeVector v vector = seqS (w_VarInt v (length vector)) (forS (writeVarSlice v) vector)"

definition r_UInt64 :: "nat reader" where
  "r_UInt64 = fetch readUInt64LE 8"

definition r_VarInt :: "varuint \<Rightarrow> nat reader" where
  "r_VarInt v b off = bindE (vu_decode v b off) (\<lambda>(vi, n). Inr (vi, off + n))"

definition readVarSlice :: "varuint \<Rightarrow> buffer reader" where
  "readVarSlice v b = bindS (r_VarInt v b) (\<lambda>n. readSlice n b)"

definition readVector :: "varuint \<Rightarrow> buffer list reader" where
  "readVector v b = bindS (r_VarInt v b) (\<lambda>count. timesS count (readVarSlice v b))"

lemma writes_UInt64 [wire_intros]: "0 \<le> x \<Longrightarrow> x \<le> MAX_SAFE \<Longrightarrow> writes (w_UInt64 (Some x)) (le_bytes 8 (nat x))"
  by (simp add: writes_def w_UInt64_def writeUInt64LE_fits)

lemma reads_UInt64 [wire_intros]: "n < 2 ^ 53 \<Longrightarrow> reads r_UInt64 (le_bytes 8 n) n"
  unfolding r_UInt64_def by (rule reads_fetch) (simp_all add: readUInt64LE_append le_nat_le_bytes)

definition varslice_bytes :: "buffer \<Rightarrow> buffer" where
  "varslice_bytes s = compactSize (length s) @ s"

definition vector_bytes :: "buffer list \<Rightarrow> buffer" where
  "vector_bytes xs = compactSize (length xs) @ concat (map varslice_bytes xs)"

definition varslice_ok :: "buffer \<Rightarrow> bool" where
  "varslice_ok s \<longleftrightarrow> length s < 2 ^ 53"

definition vector_ok :: "buffer list \<Rightarrow> bool" where
  "vector_ok xs \<longleftrightarrow> length xs < 2 ^ 53 \<and> list_all varslice_ok xs"

locale varuint_codec =
  fixes v :: varuint
  assumes varuint_length: "n < 2 ^ 53 \<Longrightarrow> vu_encodingLength v n = length (compactSize n)"
    and varuint_encode: "n < 2 ^ 53 \<Longrightarrow> off + length (compactSize n) \<le> length b \<Longrightarrow>
      vu_encode v n b off = Inr (put b off (compactSize n), length (compactSize n))"
    and varuint_decode: "n < 2 ^ 53 \<Longrightarrow>
      vu_decode v (pre @ compactSize n @ suf) (length pre) = Inr (n, length (compactSize n))"
    and varuint_range: "vu_decode v b off = Inr (n, k) \<Longrightarrow> n < 2 ^ 53"
begin

lemma writes_VarInt: "n < 2 ^ 53 \<Longrightarrow> writes (w_VarInt v n) (compactSize n)"
  by (simp add: writes_def w_VarInt_def varuint_encode)

lemma reads_VarInt: "n < 2 ^ 53 \<Longrightarrow> reads (r_VarInt v) (compactSize n) n"
  by (simp add: reads_def r_VarInt_def varuint_decode)

end

sublocale varuint_codec \<subseteq> vi: prefix_codec "vu_encodingLength v" "writeVarInt v" "readVarInt v" compactSize "\<lambda>n. n < 2 ^ 53"
  by unfold_locales (simp_all add: varuint_length varuint_encode varuint_decode writeVarInt_def readVarInt_def)

sublocale varuint_codec \<subseteq> vs: wire_codec "writeVarSlice v" "readVarSlice v" varslice_bytes varslice_ok
proof (unfold_locales, goal_cases)
  case (1 s)
  then show ?case unfolding writeVarSlice_def varslice_bytes_def varslice_ok_def
    by (intro writes_seq writes_VarInt writes_slice)
next
  case (2 s)
  then show ?case unfolding readVarSlice_def varslice_bytes_def varslice_ok_def
    by (intro reads_bind [where k = readSlice and x = "length s"] reads_VarInt reads_slice) simp_all
qed

sublocale varuint_codec \<subseteq> vec: wire_codec "writeVector v" "readVector v" vector_bytes vector_ok
proof (unfold_locales, goal_cases)
  case (1 xs)
  then show ?case unfolding writeVector_def vector_bytes_def vector_ok_def
    by (intro writes_seq writes_VarInt vs.codec_writes_list) simp_all
next
  case (2 xs)
  then show ?case unfolding readVector_def vector_bytes_def vector_ok_def
    by (intro reads_bind [where k = "\<lambda>n b. timesS n (readVarSlice v b)" and x = "length xs"] reads_VarInt vs.codec_reads_list) simp_all
qed

subsection \<open>The contract can be met\<close>

definition compactSize_encode :: "nat \<Rightarrow> buffer \<Rightarrow> nat \<Rightarrow> (buffer \<times> nat) result" where
  "compactSize_encode n b off =
     (if 2 ^ 53 \<le> n \<or> length b < off + length (compactSize n) then Inl ERR_OUT_OF_RANGE
      else Inr (put b off (compactSize n), length (compactSize n)))"

definition compactSize_decode :: "buffer \<Rightarrow> nat \<Rightarrow> (nat \<times> nat) result" where
  "compactSize_decode b off =
     bindE (readUInt8 b off) (\<lambda>first.
       if first < 0xfd then Inr (first, 1)
       else if first = 0xfd then bindE (readUInt16LE b (off + 1)) (\<lambda>n. Inr (n, 3))
       else if first = 0xfe then bindE (readUInt32LE b (off + 1)) (\<lambda>n. Inr (n, 5))
       else bindE (readUInt64LE b (off + 1)) (\<lambda>n. Inr (n, 9)))"

definition compactSize_varuint :: varuint where
  "compactSize_varuint = \<lparr>vu_encodingLength = \<lambda>n. length (compactSize n),
     vu_encode = compactSize_encode, vu_decode = compactSize_decode\<rparr>"

lemma compactSize_decode_bytes:
  assumes "n < 2 ^ 53"
  shows "compactSize_decode (pre @ compactSize n @ suf) (length pre) = Inr (n, length (compactSize n))"
proof -
  have r: "readUIntLE k (pre @ x # le_bytes k n @ suf) (Suc (length pre)) = Inr n" if "n < 256 ^ k" for k x
    using readUIntLE_after [of "le_bytes k n" k pre x suf] that by (simp add: le_nat_le_bytes)
  have r64: "readUInt64LE (pre @ x # le_bytes 8 n @ suf) (Suc (length pre)) = Inr n" for x
    using readUInt64LE_append [of "le_bytes 8 n" "pre @ [x]" suf] assms by (simp add: le_nat_le_bytes)
  consider "n < 0xfd" | "0xfd \<le> n" "n \<le> 0xffff" | "0xffff < n" "n \<le> 0xffffffff" | "0xffffffff < n"
    by linarith
  then show ?thesis
    by cases (simp_all add: compactSize_decode_def compactSize_def readUInt8_here unat_word_of_nat_byte
        readUInt16LE_def readUInt32LE_def r r64)
qed

lemma compactSize_decode_range:
  assumes "compactSize_decode b off = Inr (n, k)"
  shows "n < 2 ^ 53"
proof -
  have "le_nat (take j xs) < 2 ^ 32" if "j \<le> 4" for j xs
    using less_le_trans [OF le_nat_bound power_increasing, of "take j xs" 4] that by simp
  then have "le_nat (take 2 xs) < 2 ^ 32" "le_nat (take 4 xs) < 2 ^ 32" for xs
    by (auto simp del: power_numeral)
  from less_trans [OF this(1), of "2 ^ 53"] less_trans [OF this(2), of "2 ^ 53"] show ?thesis
    using assms by (auto simp: compactSize_decode_def readUInt16LE_def readUInt32LE_def readUIntLE_def
        readUInt64LE_def verifuint_def Let_def split: if_splits)
qed

interpretation cs: varuint_codec compactSize_varuint
  by unfold_locales (simp_all add: compactSize_varuint_def compactSize_encode_def compactSize_decode_bytes
      compactSize_decode_range [simplified])

subsection \<open>Properties\<close>

text \<open>A 64-bit write at an offset with room for it either throws, exactly when the value is
  negative or is not an exact integer of a double, or stores the eight little-endian bytes of the value
  and nothing else, whatever 32-bit operators it goes through; a read there gives the value back.\<close>

theorem uint64_roundtrip:
  assumes "off + 8 \<le> length b"
  shows "writeUInt64LE b (Some x) off =
      (if x < 0 then Inl (Error ''specified a negative value for writing an unsigned value'')
       else if MAX_SAFE < x then Inl (Error ''RangeError: value out of range'')
       else Inr (put b off (le_bytes 8 (nat x)), off + 8)) \<and>
    (0 \<le> x \<and> x \<le> MAX_SAFE \<longrightarrow> readUInt64LE (put b off (le_bytes 8 (nat x))) off = Inr (nat x))"
proof -
  have "readUInt64LE (put b off (le_bytes 8 (nat x))) off = Inr (nat x)" if "0 \<le> x" "x \<le> MAX_SAFE"
    using readUInt64LE_append [of "le_bytes 8 (nat x)" "take off b" "drop (off + 8) b"] assms that
    by (simp add: put_def le_nat_le_bytes min_absorb2 nat_less_iff)
  moreover have "x < 0 \<Longrightarrow> writeUInt64LE b (Some x) off =
      Inl (Error ''specified a negative value for writing an unsigned value'')"
    "MAX_SAFE < x \<Longrightarrow> writeUInt64LE b (Some x) off = Inl (Error ''RangeError: value out of range'')"
    by (simp_all add: writeUInt64LE_def verifuint_def)
  ultimately show ?thesis
    using writeUInt64LE_fits [of x off b] assms by (simp add: not_less)
qed

theorem uint64_roundtrip_witness:
  "writeUInt64LE (replicate 9 7) (Some 0x1000000ff) 1 = Inr ([7, 0xff, 0, 0, 0, 1, 0, 0, 0], 9) \<and>
   readUInt64LE [7, 0xff, 0, 0, 0, 1, 0, 0, 0] 1 = Inr 0x1000000ff"
proof -
  have "le_bytes 8 0x1000000ff = [0xff, 0, 0, 0, 1, 0, 0, 0]" by (simp add: le_bytes_numeral)
  then have "put (replicate 9 7) 1 (le_bytes 8 0x1000000ff) = [7, 0xff, 0, 0, 0, 1, 0, 0, 0]"
    by (simp add: put_def)
  then show ?thesis using uint64_roundtrip [of 1 "replicate 9 7" "0x1000000ff"] by simp
qed

end
