(* ===== verification/Crypto.thy ===== *)
theory Crypto
  imports Prelude
begin

text \<open>
  \<open>ecashjs-lib/src/crypto.js\<close>, the integer predicates of \<open>types.js\<close> and the table of
  \<open>networks.js\<close>. The hash functions of the package \<open>create-hash\<close> are parameters; what the
  library relies on is the length of their digests.
\<close>

subsection \<open>Hash functions\<close>

record hashes =
  rmd160 :: "buffer \<Rightarrow> buffer"
  sha1 :: "buffer \<Rightarrow> buffer"
  sha256 :: "buffer \<Rightarrow> buffer"

definition hash160 :: "hashes \<Rightarrow> buffer \<Rightarrow> buffer" where
  "hash160 h buffer = rmd160 h (sha256 h buffer)"

definition hash256 :: "hashes \<Rightarrow> buffer \<Rightarrow> buffer" where
  "hash256 h buffer = sha256 h (sha256 h buffer)"

locale digest_lengths =
  fixes h :: hashes
  assumes length_rmd160: "length (rmd160 h b) = 20"
    and length_sha1: "length (sha1 h b) = 20"
    and length_sha256: "length (sha256 h b) = 32"
begin

lemma length_hash160 [simp]: "length (hash160 h b) = 20"
  by (simp add: hash160_def length_rmd160)

lemma length_hash256 [simp]: "length (hash256 h b) = 32"
  by (simp add: hash256_def length_sha256)

end

text \<open>A stand-in with digests of the right lengths: the first bytes of the message, padded with zeros.\<close>

definition padded_hashes :: hashes where
  "padded_hashes =
     \<lparr>rmd160 = \<lambda>b. take 20 (b @ replicate 20 0), sha1 = \<lambda>b. take 20 (b @ replicate 20 0),
      sha256 = \<lambda>b. take 32 (b @ replicate 32 0)\<rparr>"

interpretation padded: digest_lengths padded_hashes
  by unfold_locales (simp_all add: padded_hashes_def)

subsection \<open>Integer types\<close>

definition types_UInt32 :: "int \<Rightarrow> bool" where
  "types_UInt32 value \<longleftrightarrow> 0 \<le> value \<and> value < 2 ^ 32"

definition types_UInt31 :: "int \<Rightarrow> bool" where
  "types_UInt31 value \<longleftrightarrow> types_UInt32 value \<and> value \<le> 2 ^ 31 - 1"

definition types_UInt53 :: "int \<Rightarrow> bool" where
  "types_UInt53 value \<longleftrightarrow> 0 \<le> value \<and> value < 2 ^ 53"

abbreviation (input) SATOSHI_MAX :: int where
  "SATOSHI_MAX \<equiv> 2100000000000000"

definition types_Satoshi :: "int \<Rightarrow> bool" where
  "types_Satoshi value \<longleftrightarrow> types_UInt53 value \<and> value \<le> SATOSHI_MAX"

abbreviation (input) typeforce_error :: error where
  "typeforce_error \<equiv> TypeError ''typeforce''"

subsection \<open>Networks\<close>

text \<open>The \<open>bech32\<close> prefix is missing from the Litecoin entry.\<close>

record network =
  net_messagePrefix :: string
  net_bech32 :: "string option"
  net_bip32_public :: nat
  net_bip32_private :: nat
  net_pubKeyHash :: nat
  net_scriptHash :: nat
  net_wif :: nat

definition network_bitcoin :: network where
  "network_bitcoin = \<lparr>net_messagePrefix = CHR 0x18 # ''Bitcoin Signed Message:'' @ [CHR 0x0A], net_bech32 = Some ''bc'',
     net_bip32_public = 0x0488b21e, net_bip32_private = 0x0488ade4, net_pubKeyHash = 0x00, net_scriptHash = 0x05, net_wif = 0x80\<rparr>"

definition network_testnet :: network where
  "network_testnet = \<lparr>net_messagePrefix = CHR 0x18 # ''Bitcoin Signed Message:'' @ [CHR 0x0A], net_bech32 = Some ''tb'',
     net_bip32_public = 0x043587cf, net_bip32_private = 0x04358394, net_pubKeyHash = 0x6f, net_scriptHash = 0xc4, net_wif = 0xef\<rparr>"

definition network_litecoin :: network where
  "network_litecoin = \<lparr>net_messagePrefix = CHR 0x19 # ''Litecoin Signed Message:'' @ [CHR 0x0A], net_bech32 = None,
     net_bip32_public = 0x019da462, net_bip32_private = 0x019d9cfe, net_pubKeyHash = 0x30, net_scriptHash = 0x32, net_wif = 0xb0\<rparr>"

text \<open>The type \<open>Network\<close> of \<open>types.js\<close>; the message prefix is a string here in any case.\<close>

definition types_Network :: "network \<Rightarrow> bool" where
  "types_Network network \<longleftrightarrow> net_bip32_public network < 2 ^ 32 \<and> net_bip32_private network < 2 ^ 32 \<and>
     net_pubKeyHash network < 256 \<and> net_scriptHash network < 256 \<and> net_wif network < 256"

end
