(* ===== verification/Script_Number.thy ===== *)
theory Script_Number
  imports Wire
begin

text \<open>
  \<open>web/ecashjs-lib/src/script_number.js\<close>: the numbers of the script stack, in
  little-endian sign-magnitude with the sign in the highest bit of the last byte.
  \<open>scriptnum_encode\<close> and \<open>scriptnum_decode\<close> follow the 32-bit operators of the
  source; \<open>scriptnum_bytes\<close> and \<open>scriptnum_value\<close> are the format.
\<close>

subsection \<open>The operations\<close>

definition scriptNumSize :: "int \<Rightarrow> nat" where
  "scriptNumSize i =
     (if i > 0x7fffffff then 5 else if i > 0x7fffff then 4 else if i > 0x7fff then 3
      else if i > 0x7f then 2 else if i > 0x00 then 1 else 0)"

text \<open>The body of the loop of \<open>encode\<close>, over the buffer and the remaining value.\<close>

definition scriptnum_put_byte :: "nat \<Rightarrow> (buffer \<times> int, unit) act" where
  "scriptnum_put_byte i = (\<lambda>(buffer, value).
     bindE (writeUInt8 buffer (js_and value 0xff) i) (\<lambda>buffer. Inr ((), buffer, js_sar value 8)))"

definition scriptnum_encode :: "(nat \<Rightarrow> byte) \<Rightarrow> int \<Rightarrow> buffer result" where
  "scriptnum_encode junk number =
     (let size = scriptNumSize \<bar>number\<bar>; negative = (number < 0) in
      bindE (forS scriptnum_put_byte [0..<size] (allocUnsafe junk size, \<bar>number\<bar>)) (\<lambda>(_, buffer, _).
        let top = (case byte_at buffer (size - 1) of None \<Rightarrow> 0 | Some t \<Rightarrow> int t) in
        if js_and top 0x80 \<noteq> 0 then writeUInt8 buffer (if negative then 0x80 else 0x00) (size - 1)
        else if negative then Inr (buffer[size - 1 := word_of_int (js_or top 0x80)])
        else Inr buffer))"

definition scriptnum_decode :: "buffer \<Rightarrow> nat option \<Rightarrow> bool option \<Rightarrow> int result" where
  "scriptnum_decode buffer maxLength minimal =
     (let maxLength = (case maxLength of Some m \<Rightarrow> if m = 0 then 4 else m | None \<Rightarrow> 4);
          minimal = (case minimal of None \<Rightarrow> True | Some m \<Rightarrow> m);
          len = length buffer;
          byte = (\<lambda>i. int (unat (buffer ! i))) in
      if len = 0 then Inr 0
      else if len > maxLength then Inl (TypeError ''Script number overflow'')
      else if minimal \<and> js_and (byte (len - 1)) 0x7f = 0 \<and>
          (len \<le> 1 \<or> js_and (byte (len - 2)) 0x80 = 0)
        then Inl (Error ''Non-minimally encoded script number'')
      else if len = 5 then
        bindE (readUInt32LE buffer 0) (\<lambda>a. bindE (readUInt8 buffer 4) (\<lambda>b.
          if js_and (int b) 0x80 \<noteq> 0
          then Inr (- (js_and (int b) (js_not 0x80) * 0x100000000 + int a))
          else Inr (int b * 0x100000000 + int a)))
      else
        (let result = fold (\<lambda>i result. js_or result (js_shl (byte i) (8 * i))) [0..<len] 0 in
         if js_and (byte (len - 1)) 0x80 \<noteq> 0
         then Inr (- js_and result (js_not (js_shl 0x80 (8 * (len - 1)))))
         else Inr result))"

subsection \<open>The format\<close>

definition scriptnum_bytes :: "int \<Rightarrow> buffer" where
  "scriptnum_bytes n =
     (let s = scriptNumSize \<bar>n\<bar> in le_bytes s (nat \<bar>n\<bar> + (if n < 0 then 2 ^ (8 * s - 1) else 0)))"

definition scriptnum_value :: "buffer \<Rightarrow> int" where
  "scriptnum_value b =
     (let m = le_nat b; s = 2 ^ (8 * length b - 1) in
      if b = [] then 0 else if m < s then int m else - int (m - s))"

text \<open>No shorter byte string has the same value.\<close>

definition scriptnum_minimal :: "buffer \<Rightarrow> bool" where
  "scriptnum_minimal b \<longleftrightarrow>
     b = [] \<or> unat (last b) mod 128 \<noteq> 0 \<or> (length b > 1 \<and> unat (b ! (length b - 2)) \<ge> 128)"

lemma scriptNumSize_bound:
  "0 \<le> v \<Longrightarrow> v < 2 ^ 39 \<Longrightarrow> v < 2 ^ (8 * scriptNumSize v - 1) \<or> v = 0"
  by (auto simp: scriptNumSize_def)

lemma scriptNumSize_pos: "0 < v \<Longrightarrow> 0 < scriptNumSize v"
  by (simp add: scriptNumSize_def)

subsection \<open>Encoding\<close>

text \<open>The loop writes the low bytes of a signed 32-bit value.\<close>

fun lei_bytes :: "nat \<Rightarrow> int \<Rightarrow> buffer" where
  "lei_bytes 0 x = []"
| "lei_bytes (Suc k) x = word_of_int x # lei_bytes k (x div 256)"

lemma length_lei_bytes [simp]: "length (lei_bytes k x) = k"
  by (induction k arbitrary: x) auto

lemma word_of_int_byte_cong: "x mod 256 = y mod 256 \<Longrightarrow> (word_of_int x :: byte) = word_of_int y"
  by (simp add: word_of_int_eq_iff take_bit_eq_mod)

lemma lei_bytes_nat: "lei_bytes k (int n) = le_bytes k n"
proof (induction k arbitrary: n)
  case (Suc k)
  have "int n div 256 = int (n div 256)" by simp
  then show ?case using Suc by simp
qed simp

lemma lei_bytes_split: "lei_bytes (j + k) x = lei_bytes j x @ lei_bytes k (x div 256 ^ j)"
  by (induction j arbitrary: x) (auto simp: zdiv_zmult2_eq)

lemma lei_bytes_mod: "lei_bytes k (x mod 256 ^ k) = lei_bytes k x"
proof (induction k arbitrary: x)
  case (Suc k)
  have "word_of_int (x mod (256 * 256 ^ k)) = (word_of_int x :: byte)"
    by (rule word_of_int_byte_cong) (simp add: mod_mod_cancel)
  moreover have "x mod (256 * 256 ^ k) div 256 = (x div 256) mod 256 ^ k"
    by (simp add: zmod_zmult2_eq)
  ultimately show ?case using Suc by simp
qed simp

lemma scriptnum_loop:
  assumes "length pre = i" "k \<le> length junk"
  shows "\<exists>x'. forS scriptnum_put_byte [i..<i + k] (pre @ junk, x) =
    Inr ((), pre @ lei_bytes k (toInt32 x) @ drop k junk, x')"
  using assms
proof (induction k arbitrary: i pre junk x)
  case 0
  then show ?case by simp
next
  case (Suc k)
  then obtain j js where junk: "junk = j # js" by (cases junk) auto
  let ?b = "word_of_int (toInt32 x) :: byte"
  have "word_of_nat (nat (x mod 256)) = (word_of_int (x mod 256) :: byte)"
    by (metis word_of_int_nat pos_mod_sign zero_less_numeral int_nat_eq)
  also have "\<dots> = ?b"
    using toInt32_mod [of 8 x] by (intro word_of_int_byte_cong) simp
  finally have byte: "word_of_nat (nat (x mod 256)) = ?b" .
  have step: "scriptnum_put_byte i (pre @ junk, x) = Inr ((), (pre @ [?b]) @ js, js_sar x 8)"
    using byte junk
    by (simp add: scriptnum_put_byte_def js_and_255 writeUInt8_fits put_append Suc.prems(1) [symmetric])
  have shift: "toInt32 (js_sar x 8) = toInt32 x div 256"
    using toInt32_bounds [of x] toInt32_small [of "toInt32 x div 256"]
    by (simp add: js_sar_def drop_bit_eq_div)
  obtain x' where "forS scriptnum_put_byte [Suc i..<Suc i + k] ((pre @ [?b]) @ js, js_sar x 8) =
      Inr ((), (pre @ [?b]) @ lei_bytes k (toInt32 x div 256) @ drop k js, x')"
    using Suc.IH [of "pre @ [?b]" "Suc i" js "js_sar x 8"] Suc.prems junk shift by auto
  moreover have "[i..<i + Suc k] = i # [Suc i..<Suc i + k]"
    by (simp add: upt_conv_Cons del: upt_Suc)
  ultimately show ?case
    using step junk by (simp del: upt_Suc)
qed

lemma js_or_128: "0 \<le> t \<Longrightarrow> t < 128 \<Longrightarrow> js_or t 128 = t + 128"
  using or_push_bit_add [of t 7 1] by (simp add: js_or_def toInt32_small push_bit_eq_mult)

lemma js_and_128: "0 \<le> t \<Longrightarrow> t < 256 \<Longrightarrow> js_and t 128 \<noteq> 0 \<longleftrightarrow> 128 \<le> t"
proof -
  assume t: "0 \<le> t" "t < 256"
  have "js_and t 128 \<noteq> 0 \<longleftrightarrow> bit t 7" using js_and_bit [of 7 t] by simp
  also have "\<dots> \<longleftrightarrow> odd (t div 128)" by (simp add: bit_iff_odd)
  also have "\<dots> \<longleftrightarrow> 128 \<le> t"
  proof (cases "128 \<le> t")
    case True
    then have "t div 128 = 1" using t by (intro int_div_pos_eq [of _ _ _ "t - 128"]) auto
    with True show ?thesis by simp
  qed (use t in \<open>simp add: div_pos_pos_trivial\<close>)
  finally show ?thesis .
qed

text \<open>Setting the sign bit in the last byte.\<close>

lemma le_bytes_Suc: "le_bytes (Suc k) m = le_bytes k m @ [word_of_nat (m div 256 ^ k)]"
  using le_bytes_split [of k 1 m] by simp

lemma le_bytes_high: "le_bytes k (m + j * 256 ^ k) = le_bytes k m"
  by (metis le_bytes_mod mod_mult_self1)

lemma le_bytes_set_sign:
  assumes "m < 128 * 256 ^ k"
  shows "(le_bytes (Suc k) m)[k := word_of_int (js_or (int (m div 256 ^ k)) 128)] =
    le_bytes (Suc k) (m + 128 * 256 ^ k)"
proof -
  have "m div 256 ^ k < 128" using assms by (simp add: less_mult_imp_div_less)
  then have "js_or (int (m div 256 ^ k)) 128 = int (m div 256 ^ k + 128)"
    by (simp add: js_or_128)
  moreover have "(m + 128 * 256 ^ k) div 256 ^ k = m div 256 ^ k + 128" by simp
  ultimately show ?thesis
    by (simp add: le_bytes_Suc le_bytes_high list_update_append del: le_bytes.simps)
qed

lemma scriptnum_encode_small:
  assumes v: "\<bar>n\<bar> < 2 ^ 31"
  shows "scriptnum_encode junk n = Inr (scriptnum_bytes n)"
proof (cases "n = 0")
  case True
  then show ?thesis
    by (simp add: scriptnum_encode_def scriptnum_bytes_def scriptNumSize_def byte_at_def js_and_def
        toInt32_small allocUnsafe_def)
next
  case False
  define v m k where "v = \<bar>n\<bar>" and "m = nat v" and "k = scriptNumSize \<bar>n\<bar> - 1"
  have size: "scriptNumSize v = Suc k"
    using False scriptNumSize_pos [of "\<bar>n\<bar>"] by (simp add: k_def v_def)
  have "v < 2 ^ (8 * Suc k - 1)"
    using scriptNumSize_bound [of v] False v size by (simp add: v_def)
  then have "int m < int (128 * 256 ^ k)"
    by (simp add: m_def v_def power_add power_mult)
  then have m: "m < 128 * 256 ^ k" by linarith
  obtain x' where loop: "forS scriptnum_put_byte [0..<Suc k] (allocUnsafe junk (Suc k), v) =
      Inr ((), le_bytes (Suc k) m, x')"
    using scriptnum_loop [of "[]" 0 "Suc k" "allocUnsafe junk (Suc k)" v] v
    by (auto simp: toInt32_small v_def m_def simp flip: lei_bytes_nat simp del: upt_Suc lei_bytes.simps)
  have top: "byte_at (le_bytes (Suc k) m) k = Some (m div 256 ^ k)"
    using m by (simp add: byte_at_def le_bytes_Suc nth_append unat_word_of_nat_byte less_mult_imp_div_less
        del: le_bytes.simps)
  have "m div 256 ^ k < 128" using m by (simp add: less_mult_imp_div_less)
  then have clear: "js_and (int (m div 256 ^ k)) 128 = 0"
    using js_and_128 [of "int (m div 256 ^ k)"] by auto
  have "2 ^ (8 * Suc k - 1) = 128 * (256::nat) ^ k" by (simp add: power_add power_mult)
  then show ?thesis
    using loop top clear size le_bytes_set_sign [OF m]
    unfolding scriptnum_encode_def scriptnum_bytes_def Let_def v_def [symmetric] size m_def [symmetric]
    by (simp del: upt_Suc le_bytes.simps)
qed

text \<open>
  From \<open>2 ^ 31\<close> on there are five bytes: the low 32 bits of the magnitude, and a fifth byte that
  the 32-bit shifts leave as 0 or as \<open>0xff\<close>. The sign branch makes it \<open>0x80\<close> or 0 in either case.
\<close>

definition scriptnum_low32 :: "int \<Rightarrow> buffer" where
  "scriptnum_low32 n = le_bytes 4 (nat (\<bar>n\<bar> mod 2 ^ 32)) @ [if n < 0 then 0x80 else 0]"

lemma lei_bytes_toInt32: "lei_bytes 5 (toInt32 x) = le_bytes 4 (nat (x mod 2 ^ 32)) @ [if toInt32 x < 0 then 255 else 0]"
proof -
  have m: "toInt32 x mod 256 ^ 4 = int (nat (x mod 2 ^ 32))" using toInt32_mod [of 32 x] by simp
  have "lei_bytes 4 (toInt32 x) = le_bytes 4 (nat (x mod 2 ^ 32))"
    by (subst lei_bytes_mod [symmetric]) (simp only: m lei_bytes_nat)
  moreover have "toInt32 x div 256 ^ 4 = (if toInt32 x < 0 then -1 else 0)"
  proof (cases "toInt32 x < 0")
    case True
    then show ?thesis using toInt32_bounds [of x] by (simp add: int_div_neg_eq [of _ _ "-1" "toInt32 x + 2 ^ 32"])
  next
    case False
    then show ?thesis using toInt32_bounds [of x] by (simp add: div_pos_pos_trivial)
  qed
  ultimately show ?thesis using lei_bytes_split [of 4 1 "toInt32 x"] by simp
qed

lemma scriptnum_encode_five:
  assumes v: "2 ^ 31 \<le> \<bar>n\<bar>"
  shows "scriptnum_encode junk n = Inr (scriptnum_low32 n)"
proof -
  have size: "scriptNumSize \<bar>n\<bar> = 5" using v by (simp add: scriptNumSize_def)
  obtain t x' where loop: "forS scriptnum_put_byte [0..<5] (allocUnsafe junk 5, \<bar>n\<bar>) =
      Inr ((), le_bytes 4 (nat (\<bar>n\<bar> mod 2 ^ 32)) @ [t], x')" "t = 255 \<or> t = 0"
    using scriptnum_loop [of "[]" 0 5 "allocUnsafe junk 5" "\<bar>n\<bar>"] lei_bytes_toInt32 [of "\<bar>n\<bar>"]
    by (auto simp del: upt_Suc)
  have "js_and 255 128 \<noteq> 0" "js_and 0 128 = 0" using js_and_128 [of 255] js_and_128 [of 0] by auto
  then show ?thesis
    using loop unfolding scriptnum_encode_def scriptnum_low32_def Let_def size
    by (cases "n < 0") (auto simp: byte_at_def nth_append js_or_128 writeUInt8_fits put_def list_update_append
        simp del: upt_Suc)
qed

lemma scriptnum_encode_large:
  assumes v: "2 ^ 31 \<le> \<bar>n\<bar>" "\<bar>n\<bar> < 2 ^ 32"
  shows "scriptnum_encode junk n = Inr (scriptnum_bytes n)"
proof -
  define m where "m = nat \<bar>n\<bar>"
  have m: "m < 256 ^ 4" "nat (\<bar>n\<bar> mod 2 ^ 32) = m" using v by (simp_all add: m_def nat_less_iff)
  then have "(m + 128 * 256 ^ 4) div 256 ^ 4 = 128" by simp
  then have "le_bytes 5 (m + (if n < 0 then 2 ^ 39 else 0)) = le_bytes 4 m @ [if n < 0 then 0x80 else 0]"
    using le_bytes_split [of 4 1 "m + (if n < 0 then 2 ^ 39 else 0)"] le_bytes_high [of 4 m 128] m
    by simp
  moreover have size: "scriptNumSize \<bar>n\<bar> = 5" using v by (simp add: scriptNumSize_def)
  ultimately show ?thesis
    using scriptnum_encode_five [OF v(1), of junk] m(2)
    unfolding scriptnum_bytes_def scriptnum_low32_def Let_def m_def [symmetric] size by (cases "n < 0") simp_all
qed

lemma scriptnum_encode_bytes: "\<bar>n\<bar> < 2 ^ 32 \<Longrightarrow> scriptnum_encode junk n = Inr (scriptnum_bytes n)"
  by (cases "\<bar>n\<bar> < 2 ^ 31") (auto intro: scriptnum_encode_small scriptnum_encode_large)

subsection \<open>Decoding\<close>

text \<open>The loop accumulates the unsigned value, wrapped to 32 bits.\<close>

lemma scriptnum_decode_loop:
  assumes "k \<le> length b" "k \<le> 4"
  shows "fold (\<lambda>i r. js_or r (js_shl (int (unat (b ! i))) (8 * i))) [0..<k] 0 = toInt32 (int (le_nat (take k b)))"
  using assms
proof (induction k)
  case 0
  then show ?case by (simp add: toInt32_def)
next
  case (Suc k)
  define x y where "x = int (le_nat (take k b))" and "y = int (unat (b ! k))"
  have x: "0 \<le> x" "x < 2 ^ (8 * k)"
    using le_nat_bound [of "take k b"] Suc.prems by (auto simp: x_def power_mult min_def)
  have "0 \<le> y" "y < 256" using unat_byte_bound [of "b ! k"] unfolding y_def by linarith+
  then have y: "toInt32 y = y" by (intro toInt32_small) auto
  have take: "le_nat (take (Suc k) b) = le_nat (take k b) + 256 ^ k * unat (b ! k)"
    using Suc.prems by (simp add: take_Suc_conv_app_nth le_nat_append min_def)
  have idem: "toInt32 (toInt32 z) = toInt32 z" for z by (simp add: toInt32_def)
  have "js_or (toInt32 x) (js_shl y (8 * k)) = toInt32 x OR toInt32 (push_bit (8 * k) y)"
    using Suc.prems y by (simp add: js_or_def js_shl_def idem)
  also have "\<dots> = toInt32 (x OR push_bit (8 * k) y)" 
    by (intro bit_eqI) (simp add: toInt32_def bit_or_iff bit_signed_take_bit_iff)
  also have "x OR push_bit (8 * k) y = x + push_bit (8 * k) y" by (rule or_push_bit_add [OF x])
  also have "\<dots> = int (le_nat (take (Suc k) b))"
    by (simp add: take x_def y_def push_bit_eq_mult power_mult)
  finally show ?case using Suc by (simp add: x_def y_def)
qed

lemma js_clear_sign:
  assumes k: "0 < k" "k \<le> 4" and m: "m < 256 ^ k"
  shows "js_and (toInt32 (int m)) (js_not (js_shl 128 (8 * (k - 1)))) = int (m mod 2 ^ (8 * k - 1))"
proof -
  have e: "8 * (k - 1) + 7 = 8 * k - 1" using k by simp
  have "js_shl 128 (8 * (k - 1)) = toInt32 (push_bit (8 * (k - 1)) (push_bit 7 1))"
    using k by (simp add: js_shl_def toInt32_small push_bit_eq_mult)
  then have s: "js_shl 128 (8 * (k - 1)) = toInt32 (2 ^ (8 * k - 1))"
    by (simp only: push_bit_push_bit e) (simp add: push_bit_eq_mult)
  have k31: "8 * k \<le> 31 \<or> 8 * k - Suc 0 = 31" using k by presburger
  have hi: "\<not> bit (int m) j" if "8 * k \<le> j" for j
  proof -
    have "m < 2 ^ j" using m power_increasing [OF that, of "2::nat"] by (simp add: power_mult)
    then show ?thesis by (simp add: bit_iff_odd)
  qed
  have "js_and (toInt32 (int m)) (js_not (js_shl 128 (8 * (k - 1)))) = take_bit (8 * k - 1) (int m)"
  proof (rule bit_eqI)
    fix j
    consider "j < 8 * k - 1" | "j = 8 * k - 1" | "8 * k \<le> j" using k by linarith
    then show "bit (js_and (toInt32 (int m)) (js_not (js_shl 128 (8 * (k - 1))))) j =
        bit (take_bit (8 * k - 1) (int m)) j"
      using k hi [of j] hi [of 31] k31 unfolding s
      by cases (auto simp: js_and_def js_not_def toInt32_def bit_and_iff bit_not_iff
          bit_signed_take_bit_iff bit_take_bit_iff bit_exp_iff min_def)
  qed
  then show ?thesis by (simp add: take_bit_eq_mod zmod_int)
qed

text \<open>Decoding a non-empty byte string of at most five bytes that passes the checks.\<close>

lemma le_nat_top:
  assumes "b \<noteq> []"
  shows "2 ^ (8 * length b - 1) \<le> le_nat b \<longleftrightarrow> 128 \<le> unat (last b)"
proof -
  obtain bs t where b: "b = bs @ [t]" using assms by (cases b rule: rev_cases) auto
  have e: "2 ^ (8 * length b - 1) = 128 * (256::nat) ^ length bs"
    by (simp add: b power_add power_mult)
  have le: "le_nat b = le_nat bs + 256 ^ length bs * unat t" by (simp add: b le_nat_append)
  have lt: "le_nat bs < 256 ^ length bs" by (rule le_nat_bound)
  have t: "last b = t" by (simp add: b)
  show ?thesis unfolding e le t
  proof
    assume "128 \<le> unat t"
    then have "128 * 256 ^ length bs \<le> unat t * (256::nat) ^ length bs" by (intro mult_le_mono) auto
    then show "128 * 256 ^ length bs \<le> le_nat bs + 256 ^ length bs * unat t"
      by (simp only: mult.commute trans_le_add2)
  next
    assume le128: "128 * 256 ^ length bs \<le> le_nat bs + 256 ^ length bs * unat t"
    show "128 \<le> unat t"
    proof (rule ccontr)
      assume "\<not> 128 \<le> unat t"
      then have "Suc (unat t) * (256::nat) ^ length bs \<le> 128 * 256 ^ length bs" by (intro mult_le_mono) auto
      with le128 lt show False by (simp only: mult_Suc mult.commute)
    qed
  qed
qed

lemma mod_half: "p \<le> (m::nat) \<Longrightarrow> m < 2 * p \<Longrightarrow> m mod p = m - p"
  by (simp add: le_mod_geq less_diff_conv2)

lemma js_byte:
  shows "0 \<le> int (unat (x :: byte))" "int (unat x) < 256"
    and "js_and (int (unat x)) 127 = int (unat x mod 128)"
    and "js_and (int (unat x)) 128 \<noteq> 0 \<longleftrightarrow> 128 \<le> unat x"
    and "js_and (int (unat x)) (js_not 128) = int (unat x mod 128)"
proof -
  show b: "0 \<le> int (unat x)" "int (unat x) < 256" using unat_byte_bound [of x] by linarith+
  show "js_and (int (unat x)) 127 = int (unat x mod 128)"
    using js_and_mask [of 7 "int (unat x)"] by (simp add: zmod_int)
  show "js_and (int (unat x)) 128 \<noteq> 0 \<longleftrightarrow> 128 \<le> unat x" using js_and_128 [OF b] by linarith
  show "js_and (int (unat x)) (js_not 128) = int (unat x mod 128)"
    using js_clear_sign [of 1 "unat x"] toInt32_small [of "int (unat x)"] b
    by (simp add: js_shl_def toInt32_small del: of_nat_unat)
qed

lemma scriptnum_checks_pass:
  assumes "b \<noteq> []" "minimal \<Longrightarrow> scriptnum_minimal b"
  shows "\<not> (minimal \<and> js_and (int (unat (b ! (length b - 1)))) 127 = 0 \<and>
    (length b \<le> 1 \<or> js_and (int (unat (b ! (length b - 2)))) 128 = 0))"
  using assms js_byte(4) [of "b ! (length b - 2)"]
  unfolding js_byte(3) scriptnum_minimal_def by (auto simp: last_conv_nth)

lemma scriptnum_decode_value5:
  assumes len: "length b = 5" "5 \<le> lim" and min_ok: "minimal \<Longrightarrow> scriptnum_minimal b"
  shows "scriptnum_decode b (Some lim) (Some minimal) = Inr (scriptnum_value b)"
proof -
  have ne: "b \<noteq> []" using len by auto
  have split: "le_nat b = le_nat (take 4 b) + 2 ^ 32 * unat (b ! 4)"
    using le_nat_append [of "take 4 b" "[b ! 4]"] len take_Suc_conv_app_nth [of 4 b]
    by (simp add: min_def)
  have top: "2 ^ 39 \<le> le_nat b \<longleftrightarrow> 128 \<le> unat (b ! 4)"
    using le_nat_top [OF ne] ne len by (simp add: last_conv_nth)
  have reads: "readUInt32LE b 0 = Inr (le_nat (take 4 b))" "readUInt8 b 4 = Inr (unat (b ! 4))"
    using len by (simp_all add: readUInt32LE_def readUIntLE_def readUInt8_eq)
  have "unat (b ! 4) mod 128 = unat (b ! 4) - 128" if "128 \<le> unat (b ! 4)"
    using that unat_byte_bound [of "b ! 4"] by (intro mod_half) auto
  then have "scriptnum_value b = (if js_and (int (unat (b ! 4))) 128 \<noteq> 0
      then - (js_and (int (unat (b ! 4))) (js_not 128) * 0x100000000 + int (le_nat (take 4 b)))
      else int (unat (b ! 4)) * 0x100000000 + int (le_nat (take 4 b)))"
    using ne len top js_byte(4,5) [of "b ! 4"] split
    by (auto simp: scriptnum_value_def Let_def not_le simp del: of_nat_unat)
  then show ?thesis
    using scriptnum_checks_pass [OF ne min_ok] len reads
    by (simp add: scriptnum_decode_def Let_def del: of_nat_unat)
qed

lemma scriptnum_decode_value4:
  assumes len: "b \<noteq> []" "length b \<le> 4" "length b \<le> lim" and min_ok: "minimal \<Longrightarrow> scriptnum_minimal b"
  shows "scriptnum_decode b (Some lim) (Some minimal) = Inr (scriptnum_value b)"
proof -
  define k where "k = length b"
  have k: "0 < k" "k \<le> lim" "lim \<noteq> 0" "k \<le> 4"
    using len by (auto simp: k_def simp flip: length_greater_0_conv)
  have top: "2 ^ (8 * k - 1) \<le> le_nat b \<longleftrightarrow> 128 \<le> unat (b ! (k - 1))"
    using le_nat_top [OF len(1)] len(1) by (simp add: k_def last_conv_nth)
  have bound: "le_nat b < 256 ^ k" using le_nat_bound [of b] by (simp add: k_def)
  have loop: "fold (\<lambda>i r. js_or r (js_shl (int (unat (b ! i))) (8 * i))) [0..<k] 0 = toInt32 (int (le_nat b))"
    using scriptnum_decode_loop [of k b] k by (simp add: k_def)
  have "(256::nat) ^ k = 2 * 2 ^ (8 * k - 1)"
    using k(1) by (cases k) (simp_all add: power_add power_mult)
  then have low: "le_nat b mod 2 ^ (8 * k - 1) = le_nat b - 2 ^ (8 * k - 1)" if "2 ^ (8 * k - 1) \<le> le_nat b"
    using that bound by (intro mod_half) auto
  have "(2::nat) ^ (8 * k - 1) \<le> 2 ^ 31" using k by (intro power_increasing) auto
  then have pos: "toInt32 (int (le_nat b)) = int (le_nat b)" if "le_nat b < 2 ^ (8 * k - 1)"
    using that by (intro toInt32_small) auto
  show ?thesis
    using scriptnum_checks_pass [OF len(1) min_ok] k len(1) top js_byte(4) [of "b ! (k - 1)"] loop
      js_clear_sign [OF k(1,4) bound] low pos
    unfolding scriptnum_decode_def scriptnum_value_def k_def [symmetric] Let_def
    by (auto simp del: of_nat_unat simp: not_le)
qed

lemma scriptnum_decode_value:
  assumes "length b \<le> 5" "length b \<le> lim" "minimal \<Longrightarrow> scriptnum_minimal b"
  shows "scriptnum_decode b (Some lim) (Some minimal) = Inr (scriptnum_value b)"
proof -
  consider "b = []" | "b \<noteq> []" "length b \<le> 4" | "length b = 5" using assms(1) by linarith
  then show ?thesis
    using assms scriptnum_decode_value4 scriptnum_decode_value5
    by cases (auto simp: scriptnum_decode_def scriptnum_value_def)
qed

lemma scriptnum_decode_defaults:
  "scriptnum_decode b None None = scriptnum_decode b (Some 4) (Some True)"
  "scriptnum_decode b (Some m) None = scriptnum_decode b (Some m) (Some True)"
  by (simp_all add: scriptnum_decode_def)

text \<open>What the checks reject.\<close>

lemma scriptnum_decode_nonminimal:
  assumes "\<not> scriptnum_minimal b" "length b \<le> lim"
  shows "scriptnum_decode b (Some lim) None = Inl (Error ''Non-minimally encoded script number'')"
proof -
  have ne: "b \<noteq> []" and l: "unat (last b) mod 128 = 0" and p: "length b \<le> 1 \<or> unat (b ! (length b - 2)) < 128"
    using assms(1) by (auto simp: scriptnum_minimal_def)
  then have "js_and (int (unat (b ! (length b - 1)))) 127 = 0"
    "length b \<le> 1 \<or> js_and (int (unat (b ! (length b - 2)))) 128 = 0"
    using js_byte(3) [of "b ! (length b - 1)"] js_byte(4) [of "b ! (length b - 2)"]
    by (auto simp: last_conv_nth)
  moreover have "0 < length b" using ne by simp
  then have "lim \<noteq> 0" using assms(2) by linarith
  ultimately show ?thesis using assms(2) ne by (simp add: scriptnum_decode_def Let_def del: of_nat_unat)
qed

lemma scriptnum_decode_length: "scriptnum_decode b (Some lim) None = Inr n \<Longrightarrow> 0 < lim \<Longrightarrow> length b \<le> lim"
  by (auto simp: scriptnum_decode_def Let_def split: if_splits)

lemma scriptnum_decode_minimal: "scriptnum_decode b None None = Inr n \<Longrightarrow> scriptnum_minimal b"
  using scriptnum_decode_nonminimal [of b 4] scriptnum_decode_length [of b 4 n]
  by (auto simp: scriptnum_decode_defaults)

subsection \<open>Values and bytes\<close>

lemma scriptNumSize_eq:
  assumes "0 < s" "s \<le> 5" "2 ^ (8 * (s - 1) - 1) \<le> v" "v < 2 ^ (8 * s - 1)"
  shows "scriptNumSize v = s"
proof -
  have "s \<in> {1, 2, 3, 4, 5}" using assms by auto
  then show ?thesis using assms by (auto simp: scriptNumSize_def)
qed

lemma scriptnum_value_bytes:
  assumes "\<bar>n\<bar> < 2 ^ 39"
  shows "scriptnum_value (scriptnum_bytes n) = n"
proof (cases "n = 0")
  case True
  then show ?thesis by (simp add: scriptnum_bytes_def scriptnum_value_def scriptNumSize_def)
next
  case False
  define s m where "s = scriptNumSize \<bar>n\<bar>" and "m = nat \<bar>n\<bar>"
  have s: "0 < s" using False scriptNumSize_pos [of "\<bar>n\<bar>"] by (simp add: s_def)
  have "int m < 2 ^ (8 * s - 1)" using scriptNumSize_bound [of "\<bar>n\<bar>"] assms False by (simp add: s_def m_def)
  then have m: "m < 2 ^ (8 * s - 1)" by (metis of_nat_less_iff of_nat_numeral of_nat_power)
  have e: "(256::nat) ^ s = 2 * 2 ^ (8 * s - 1)" using s by (cases s) (simp_all add: power_add power_mult)
  have "le_nat (scriptnum_bytes n) = m + (if n < 0 then 2 ^ (8 * s - 1) else 0)"
    using m e by (simp add: scriptnum_bytes_def Let_def le_nat_le_bytes s_def [symmetric] m_def [symmetric])
  moreover have "length (scriptnum_bytes n) = s" by (simp add: scriptnum_bytes_def Let_def s_def)
  ultimately show ?thesis using m s by (auto simp: scriptnum_value_def Let_def m_def)
qed

lemma scriptNumSize_lower: "0 < v \<Longrightarrow> 2 ^ (8 * (scriptNumSize v - 1) - 1) \<le> v"
  by (auto simp: scriptNumSize_def)

lemma scriptnum_bytes_minimal:
  assumes "\<bar>n\<bar> < 2 ^ 39"
  shows "scriptnum_minimal (scriptnum_bytes n)"
proof (cases "n = 0")
  case True
  then show ?thesis by (simp add: scriptnum_bytes_def scriptnum_minimal_def scriptNumSize_def)
next
  case False
  define k m where "k = scriptNumSize \<bar>n\<bar> - 1" and "m = nat \<bar>n\<bar>"
  define j where "j = (if n < 0 then 128 else 0 :: nat)"
  have size: "scriptNumSize \<bar>n\<bar> = Suc k" using False scriptNumSize_pos [of "\<bar>n\<bar>"] by (simp add: k_def)
  have "int m < 2 ^ (8 * Suc k - 1)" using scriptNumSize_bound [of "\<bar>n\<bar>"] assms False size by (simp add: m_def)
  then have "int m < int (128 * 256 ^ k)" by (simp add: power_add power_mult)
  then have m: "m div 256 ^ k < 128" by (simp add: less_mult_imp_div_less del: of_nat_mult)
  have "int (2 ^ (8 * k - 1)) \<le> int m" using scriptNumSize_lower [of "\<bar>n\<bar>"] False size by (simp add: m_def)
  then have lower: "2 ^ (8 * k - 1) \<le> m" by linarith
  have "scriptnum_bytes n = le_bytes (Suc k) (m + j * 256 ^ k)"
    by (simp add: scriptnum_bytes_def Let_def size m_def j_def power_add power_mult del: le_bytes.simps)
  also have "\<dots> = le_bytes k m @ [word_of_nat (m div 256 ^ k + j)]"
    by (simp add: le_bytes_Suc le_bytes_high del: le_bytes.simps)
  finally have bytes: "scriptnum_bytes n = le_bytes k m @ [word_of_nat (m div 256 ^ k + j)]" .
  have last: "unat (word_of_nat (m div 256 ^ k + j) :: byte) mod 128 = m div 256 ^ k"
    using m by (simp add: unat_word_of_nat_byte j_def del: of_nat_add)
  show ?thesis
  proof (cases "m div 256 ^ k = 0")
    case True
    then have "m < 256 ^ k" by (simp add: div_eq_0_iff)
    moreover from this have k0: "k \<noteq> 0" using lower by (intro notI) simp
    ultimately have "128 \<le> unat (last (le_bytes k m))"
      using le_nat_top [of "le_bytes k m"] lower by (simp add: le_nat_le_bytes flip: length_0_conv)
    with k0 show ?thesis
      unfolding scriptnum_minimal_def bytes
      by (auto simp: nth_append last_conv_nth simp flip: length_0_conv)
  next
    case False
    then show ?thesis unfolding scriptnum_minimal_def bytes using last by simp
  qed
qed

text \<open>A minimal byte string is determined by its value.\<close>

lemma scriptnum_minimal_lower:
  assumes "b \<noteq> []" "scriptnum_minimal b"
  shows "2 ^ (8 * (length b - 1) - 1) \<le> le_nat b mod 2 ^ (8 * length b - 1)"
proof -
  obtain bs t where b: "b = bs @ [t]" using assms by (cases b rule: rev_cases) auto
  have e: "2 ^ (8 * length b - 1) = (256::nat) ^ length bs * 128"
    by (simp add: b power_add power_mult)
  have v: "le_nat b mod 2 ^ (8 * length b - 1) = le_nat bs + 256 ^ length bs * (unat t mod 128)"
    unfolding e using le_nat_bound [of bs] by (simp add: b le_nat_append mod_mult2_eq)
  have pow: "(2::nat) ^ (8 * length bs - 1) \<le> 256 ^ length bs"
    using power_increasing [of "8 * length bs - 1" "8 * length bs" "2::nat"] by (simp add: power_mult)
  show ?thesis
  proof (cases "unat t mod 128 = 0")
    case True
    then have "bs \<noteq> []" "128 \<le> unat (last bs)"
      using assms b by (auto simp: scriptnum_minimal_def nth_append last_conv_nth)
    then have "2 ^ (8 * length bs - 1) \<le> le_nat bs" using le_nat_top by blast
    then show ?thesis using v b by simp
  next
    case False
    then have "256 ^ length bs * 1 \<le> 256 ^ length bs * (unat t mod 128)" by (intro mult_le_mono2) simp
    then have "2 ^ (8 * length bs - 1) \<le> le_nat bs + 256 ^ length bs * (unat t mod 128)"
      using pow by linarith
    then show ?thesis using v b by simp
  qed
qed

lemma scriptnum_bytes_value:
  assumes min_ok: "scriptnum_minimal b" and len: "length b \<le> 5"
  shows "scriptnum_bytes (scriptnum_value b) = b"
proof (cases "b = []")
  case True
  then show ?thesis by (simp add: scriptnum_bytes_def scriptnum_value_def scriptNumSize_def)
next
  case False
  define s m v where "s = length b" and "m = le_nat b" and "v = le_nat b mod 2 ^ (8 * length b - 1)"
  have s: "0 < s" using False by (simp add: s_def)
  have e: "(256::nat) ^ s = 2 * 2 ^ (8 * s - 1)" using s by (cases s) (simp_all add: power_add power_mult)
  have m: "m < 256 ^ s" using le_nat_bound [of b] by (simp add: s_def m_def)
  have v: "m = v + (if m < 2 ^ (8 * s - 1) then 0 else 2 ^ (8 * s - 1))"
    using mod_half [of "2 ^ (8 * s - 1)" m] m e by (simp add: v_def s_def m_def)
  have lower: "2 ^ (8 * (s - 1) - 1) \<le> v"
    using scriptnum_minimal_lower [OF False min_ok] by (simp add: s_def v_def)
  then have v0: "0 < v" by (rule less_le_trans [rotated]) simp
  have "scriptNumSize (int v) = s"
  proof (rule scriptNumSize_eq)
    have "int (2 ^ (8 * (s - 1) - 1)) \<le> int v" using lower by (simp only: of_nat_le_iff)
    then show "2 ^ (8 * (s - 1) - 1) \<le> int v" by simp
    have "int v < int (2 ^ (8 * s - 1))" by (simp add: v_def s_def del: of_nat_power)
    then show "int v < 2 ^ (8 * s - 1)" by simp
  qed (use s len in \<open>simp_all add: s_def\<close>)
  moreover have "scriptnum_value b = (if m < 2 ^ (8 * s - 1) then int v else - int v)"
    using False v unfolding scriptnum_value_def Let_def s_def [symmetric] m_def [symmetric] by auto
  ultimately have "scriptnum_bytes (scriptnum_value b) = le_bytes s m"
    using v v0 by (cases "m < 2 ^ (8 * s - 1)") (simp_all add: scriptnum_bytes_def Let_def)
  then show ?thesis using le_bytes_le_nat [of b] by (simp add: s_def m_def)
qed

subsection \<open>Properties\<close>

text \<open>Every number of magnitude below \<open>2 ^ 32\<close> is encoded in \<open>scriptNumSize\<close> bytes, none of
  them stale memory, that \<open>decode\<close> with a limit of five bytes maps back to the number, its
  minimality check included; below \<open>2 ^ 31\<close> the default limit of four bytes suffices.\<close>

theorem scriptnum_roundtrip:
  assumes "\<bar>n\<bar> < 2 ^ 32"
  shows "scriptnum_encode junk n = Inr (scriptnum_bytes n) \<and>
    length (scriptnum_bytes n) = scriptNumSize \<bar>n\<bar> \<and>
    scriptnum_decode (scriptnum_bytes n) (Some 5) None = Inr n \<and>
    (\<bar>n\<bar> < 2 ^ 31 \<longrightarrow> scriptnum_decode (scriptnum_bytes n) None None = Inr n)"
proof -
  have len: "length (scriptnum_bytes n) = scriptNumSize \<bar>n\<bar>" by (simp add: scriptnum_bytes_def Let_def)
  have n: "\<bar>n\<bar> < 2 ^ 39" using assms by simp
  have "scriptNumSize \<bar>n\<bar> \<le> 5" "\<bar>n\<bar> < 2 ^ 31 \<Longrightarrow> scriptNumSize \<bar>n\<bar> \<le> 4" by (auto simp: scriptNumSize_def)
  then show ?thesis
    using scriptnum_encode_bytes [OF assms] scriptnum_bytes_minimal [OF n] scriptnum_value_bytes [OF n] len
    by (auto simp: scriptnum_decode_defaults scriptnum_decode_value)
qed

theorem scriptnum_roundtrip_witness:
  "scriptnum_encode (\<lambda>_. 7) (-255) = Inr (scriptnum_bytes (-255)) \<and>
   scriptnum_decode (scriptnum_bytes (-255)) None None = Inr (-255)"
  using scriptnum_roundtrip [of "-255" "\<lambda>_. 7"] by simp

text \<open>The encoding is canonical: a byte string that \<open>decode\<close> accepts with its default
  arguments is the one \<open>encode\<close> produces for the decoded number.\<close>

theorem scriptnum_canonical:
  assumes "scriptnum_decode b None None = Inr n"
  shows "\<bar>n\<bar> < 2 ^ 31 \<and> scriptnum_encode junk n = Inr b"
proof -
  have min_ok: "scriptnum_minimal b" by (rule scriptnum_decode_minimal [OF assms])
  have len: "length b \<le> 4"
    using assms by (auto simp: scriptnum_decode_def Let_def split: if_splits)
  then have "scriptnum_decode b None None = Inr (scriptnum_value b)"
    using min_ok by (simp add: scriptnum_decode_defaults scriptnum_decode_value)
  then have n: "n = scriptnum_value b" using assms by simp
  define p where "p = (2::nat) ^ (8 * length b - 1)"
  have "p \<le> 2 ^ 31" unfolding p_def using len by (intro power_increasing) auto
  moreover have "(256::nat) ^ length b \<le> 2 * p"
    unfolding p_def by (cases "length b") (simp_all add: power_add power_mult)
  ultimately have small: "\<bar>n\<bar> < 2 ^ 31"
    using le_nat_bound [of b] unfolding n scriptnum_value_def Let_def p_def [symmetric] by auto
  then show ?thesis
    using scriptnum_encode_small [OF small] scriptnum_bytes_value [OF min_ok] len n by simp
qed

theorem scriptnum_canonical_witness:
  "scriptnum_decode [0x34, 0x92] None None = Inr (-0x1234) \<and>
   scriptnum_encode (\<lambda>_. 7) (-0x1234) = Inr [0x34, 0x92]"
proof -
  have "scriptnum_decode [0x34, 0x92] None None = Inr (-0x1234)" by code_simp
  then show ?thesis using scriptnum_canonical by blast
qed

text \<open>The value and the minimality of what the five-byte branch writes.\<close>

lemma scriptnum_low32_value: "scriptnum_value (scriptnum_low32 n) = sgn n * (\<bar>n\<bar> mod 2 ^ 32)"
proof -
  define w where "w = nat (\<bar>n\<bar> mod 2 ^ 32)"
  have w: "w < 256 ^ 4" "int w = \<bar>n\<bar> mod 2 ^ 32" by (simp_all add: w_def nat_less_iff)
  have "le_nat (scriptnum_low32 n) = w + (if n < 0 then 2 ^ 39 else 0)"
    unfolding scriptnum_low32_def w_def [symmetric] using w(1) by (simp add: le_nat_append le_nat_le_bytes del: le_bytes.simps)
  moreover have "length (scriptnum_low32 n) = 5" by (simp add: scriptnum_low32_def)
  moreover from this have "scriptnum_low32 n \<noteq> []" by auto
  ultimately have "scriptnum_value (scriptnum_low32 n) = (if n < 0 then - int w else int w)"
    using w(1) by (simp add: scriptnum_value_def)
  then show ?thesis using w(2) by (cases "n = 0") (auto simp: sgn_if)
qed

lemma scriptnum_low32_minimal: "scriptnum_minimal (scriptnum_low32 n) \<longleftrightarrow> 2 ^ 31 \<le> \<bar>n\<bar> mod 2 ^ 32"
proof -
  define w where "w = nat (\<bar>n\<bar> mod 2 ^ 32)"
  have w: "w < 256 ^ 4" "int w = \<bar>n\<bar> mod 2 ^ 32" by (simp_all add: w_def nat_less_iff)
  have "unat (if n < 0 then 128 else 0 :: byte) mod 128 = 0" by simp
  then have "scriptnum_minimal (scriptnum_low32 n) \<longleftrightarrow> 128 \<le> unat (last (le_bytes 4 w))"
    unfolding scriptnum_low32_def w_def [symmetric]
    by (simp add: scriptnum_minimal_def nth_append last_conv_nth del: le_bytes.simps flip: length_0_conv)
  also have "\<dots> \<longleftrightarrow> 2 ^ 31 \<le> w"
    using le_nat_top [of "le_bytes 4 w"] w(1) by (simp add: le_nat_le_bytes del: le_bytes.simps flip: length_0_conv)
  also have "\<dots> \<longleftrightarrow> 2 ^ 31 \<le> \<bar>n\<bar> mod 2 ^ 32" unfolding w(2) [symmetric] by simp
  finally show ?thesis .
qed

text \<open>C34. \<open>&\<close> and \<open>>>=\<close> work on 32 bits, so the five-byte branch of \<open>encode\<close> keeps only the low 32 bits of
  the magnitude: for every number \<open>n\<close> of magnitude at least \<open>2 ^ 31\<close> it returns these four bytes and a sign
  byte. \<open>decode\<close> with a limit of five bytes rejects them when the low 32 bits are below \<open>2 ^ 31\<close> and else
  returns the truncated number, as it always does without the minimality check. Hence a number survives
  \<open>encode\<close> and \<open>decode\<close> exactly when its magnitude is below \<open>2 ^ 32\<close>, although five bytes hold 39 bits of
  magnitude.\<close>

theorem scriptnum_encode_loses_high_bits:
  "(bindE (scriptnum_encode junk n) (\<lambda>b. scriptnum_decode b (Some 5) None) = Inr n \<longleftrightarrow> \<bar>n\<bar> < 2 ^ 32) \<and>
   (2 ^ 31 \<le> \<bar>n\<bar> \<longrightarrow>
     (let b = le_bytes 4 (nat (\<bar>n\<bar> mod 2 ^ 32)) @ [if n < 0 then 0x80 else 0] in
      scriptnum_encode junk n = Inr b \<and>
      scriptnum_decode b (Some 5) (Some False) = Inr (sgn n * (\<bar>n\<bar> mod 2 ^ 32)) \<and>
      scriptnum_decode b (Some 5) None =
        (if \<bar>n\<bar> mod 2 ^ 32 < 2 ^ 31 then Inl (Error ''Non-minimally encoded script number'')
         else Inr (sgn n * (\<bar>n\<bar> mod 2 ^ 32)))))"
proof -
  have len: "length (scriptnum_low32 n) = 5" by (simp add: scriptnum_low32_def)
  have dec: "scriptnum_decode (scriptnum_low32 n) (Some 5) (Some False) = Inr (sgn n * (\<bar>n\<bar> mod 2 ^ 32))"
    using scriptnum_decode_value [of "scriptnum_low32 n" 5 False] len by (simp add: scriptnum_low32_value)
  have min_dec: "scriptnum_decode (scriptnum_low32 n) (Some 5) None =
      (if \<bar>n\<bar> mod 2 ^ 32 < 2 ^ 31 then Inl (Error ''Non-minimally encoded script number'') else Inr (sgn n * (\<bar>n\<bar> mod 2 ^ 32)))"
    using scriptnum_decode_nonminimal [of "scriptnum_low32 n" 5] scriptnum_decode_value [of "scriptnum_low32 n" 5 True] len
    unfolding scriptnum_decode_defaults scriptnum_low32_minimal scriptnum_low32_value by (simp add: not_le)
  have "bindE (scriptnum_encode junk n) (\<lambda>b. scriptnum_decode b (Some 5) None) = Inr n \<longleftrightarrow> \<bar>n\<bar> < 2 ^ 32"
  proof (cases "\<bar>n\<bar> < 2 ^ 32")
    case True
    then have n: "\<bar>n\<bar> < 2 ^ 39" by simp
    have "scriptNumSize \<bar>n\<bar> \<le> 5" by (simp add: scriptNumSize_def)
    then have "length (scriptnum_bytes n) \<le> 5" by (simp only: scriptnum_bytes_def Let_def length_le_bytes)
    then have "scriptnum_decode (scriptnum_bytes n) (Some 5) None = Inr n"
      using scriptnum_bytes_minimal [OF n] scriptnum_value_bytes [OF n]
      by (simp add: scriptnum_decode_defaults scriptnum_decode_value)
    then show ?thesis using True by (simp only: scriptnum_encode_bytes bindE.simps simp_thms)
  next
    case False
    then have "scriptnum_encode junk n = Inr (scriptnum_low32 n)" by (intro scriptnum_encode_five) simp
    moreover have "\<bar>sgn n * (\<bar>n\<bar> mod 2 ^ 32)\<bar> < 2 ^ 32"
      using pos_mod_bound [of "2 ^ 32" "\<bar>n\<bar>"] pos_mod_sign [of "2 ^ 32" "\<bar>n\<bar>"] by (simp add: abs_mult abs_sgn_eq)
    then have "sgn n * (\<bar>n\<bar> mod 2 ^ 32) \<noteq> n" using False by auto
    ultimately show ?thesis using False by (simp only: bindE.simps min_dec) (simp split: if_splits)
  qed
  then show ?thesis
    unfolding Let_def scriptnum_low32_def [symmetric] using scriptnum_encode_five [of n junk] dec min_dec by blast
qed

theorem scriptnum_encode_loses_high_bits_witness:
  "scriptnum_encode (\<lambda>_. 7) (-0x1ffffffff) = Inr [0xff, 0xff, 0xff, 0xff, 0x80] \<and>
   scriptnum_decode [0xff, 0xff, 0xff, 0xff, 0x80] (Some 5) None = Inr (-0xffffffff)"
proof -
  have "le_bytes (Suc (Suc (Suc (Suc 0)))) 0xffffffff = [0xff, 0xff, 0xff, 0xff]" by simp
  moreover have "(4::nat) = Suc (Suc (Suc (Suc 0)))" by simp
  ultimately have "le_bytes 4 0xffffffff = [0xff, 0xff, 0xff, 0xff]" by (simp only:)
  then show ?thesis using scriptnum_encode_loses_high_bits [of "\<lambda>_. 7" "-0x1ffffffff"] by (simp add: Let_def)
qed

end
