(* ===== verification/Minimaldata.thy ===== *)
theory Minimaldata
  imports Pushdata
begin

text \<open>
  \<open>web/ecash-minimaldata/index.js\<close>: whether every data push of a script is minimal
  (BIP 62, rules 3 and 4).
\<close>

subsection \<open>The operations\<close>

abbreviation MAX_SCRIPT_ELEMENT_SIZE :: nat where
  "MAX_SCRIPT_ELEMENT_SIZE \<equiv> 520"

definition checkMinimalPush :: "nat \<Rightarrow> buffer \<Rightarrow> bool" where
  "checkMinimalPush opcode data =
     (if length data = 0 then opcode = OP_0
      else if length data = 1 \<and> unat (data ! 0) \<ge> 1 \<and> unat (data ! 0) \<le> 16
        then int opcode = OP_1 + (int opcode - 1)
      else if length data = 1 \<and> opcode = 0x81 then opcode = OP_1NEGATE
      else if length data \<le> 75 then opcode = length data
      else if length data \<le> 255 then opcode = OP_PUSHDATA1
      else if length data \<le> 65535 then opcode = OP_PUSHDATA2
      else False)"

lemma pushdata_decode_size: "pushdata_decode b i = Inr (Some d) \<Longrightarrow> 0 < pd_size d"
  by (auto simp: pushdata_decode_def Let_def split: if_splits)

text \<open>The loop of \<open>bip62\<close> from index \<open>i\<close> on.\<close>

function bip62_loop :: "buffer \<Rightarrow> nat \<Rightarrow> bool result" where
  "bip62_loop buffer i =
     (if i < length buffer then
        let opcode = unat (buffer ! i) in
        if opcode \<ge> 0 \<and> opcode \<le> OP_PUSHDATA4 then
          (case pushdata_decode buffer i of
             Inl e \<Rightarrow> Inl e
           | Inr None \<Rightarrow> Inr False
           | Inr (Some d) \<Rightarrow>
               let j = i + pd_size d in
               if j + pd_number d > length buffer then Inr False
               else
                 let data = slice buffer j (j + pd_number d) in
                 if pd_number d > MAX_SCRIPT_ELEMENT_SIZE then Inr False
                 else if \<not> checkMinimalPush opcode data then Inr False
                 else bip62_loop buffer (j + pd_number d))
        else bip62_loop buffer (i + 1)
      else Inr True)"
  by pat_completeness auto
termination
  by (relation "measure (\<lambda>(b, i). length b - i)") (auto dest: pushdata_decode_size)

declare bip62_loop.simps [simp del]

definition bip62 :: "buffer \<Rightarrow> bool result" where
  "bip62 buffer = bip62_loop buffer 0"

end
