(* ===== verification/Script.thy ===== *)
theory Script
  imports Pushdata Script_Number Minimaldata
begin

text \<open>
  \<open>web/ecashjs-lib/src/script.js\<close>: scripts as arrays of chunks (opcodes and data) and
  as byte strings. \<open>compile\<close> writes chunks with minimal pushes, \<open>compile2\<close> keeps every
  push, \<open>decompile\<close> parses. An argument that the source accepts as a \<open>Buffer\<close> or as an
  array is a value of type \<open>script\<close>. \<open>bip66.check\<close> of the package \<open>bip66\<close> is the
  parameter \<open>bip66_check\<close>.
\<close>

subsection \<open>Chunks\<close>

datatype chunk = Op int | Data buffer

datatype script = Raw buffer | Chunks "chunk list"

abbreviation (input) OP_INT_BASE :: int where
  "OP_INT_BASE \<equiv> OP_RESERVED"

definition isOPInt :: "chunk \<Rightarrow> bool" where
  "isOPInt value = (case value of
     Op n \<Rightarrow> n = OP_0 \<or> (n \<ge> OP_1 \<and> n \<le> OP_16) \<or> n = OP_1NEGATE
   | Data _ \<Rightarrow> False)"

definition isPushOnlyChunk :: "chunk \<Rightarrow> bool" where
  "isPushOnlyChunk value = ((case value of Data _ \<Rightarrow> True | Op _ \<Rightarrow> False) \<or> isOPInt value)"

definition isPushOnly :: "chunk list \<Rightarrow> bool" where
  "isPushOnly value = list_all isPushOnlyChunk value"

definition asMinimalOP :: "buffer \<Rightarrow> int option" where
  "asMinimalOP buffer =
     (if length buffer = 0 then Some OP_0
      else if length buffer \<noteq> 1 then None
      else if unat (buffer ! 0) \<ge> 1 \<and> unat (buffer ! 0) \<le> 16 then Some (OP_INT_BASE + int (unat (buffer ! 0)))
      else if unat (buffer ! 0) = 0x81 then Some OP_1NEGATE
      else None)"

subsection \<open>Compilation\<close>

definition compile_chunk_size :: "chunk \<Rightarrow> nat" where
  "compile_chunk_size chunk = (case chunk of
     Data b \<Rightarrow> if length b = 1 \<and> asMinimalOP b \<noteq> None then 1
       else pushdata_encodingLength (length b) + length b
   | Op _ \<Rightarrow> 1)"

text \<open>A size prefix and the data after it; the data is copied at the advanced offset.\<close>

definition write_push :: "buffer \<Rightarrow> writer" where
  "write_push b = (\<lambda>(buffer, offset).
     bindE (pushdata_encode buffer (length b) offset) (\<lambda>(buffer, n).
       Inr ((), fst (copy b buffer (offset + n)), offset + n + length b)))"

definition compile_chunk :: "chunk \<Rightarrow> writer" where
  "compile_chunk chunk = (case chunk of
     Data b \<Rightarrow> (case asMinimalOP b of Some opcode \<Rightarrow> w_UInt8 opcode | None \<Rightarrow> write_push b)
   | Op n \<Rightarrow> w_UInt8 n)"

definition finish_compile :: "unit \<times> buffer \<times> nat \<Rightarrow> buffer result" where
  "finish_compile r = (case r of (_, buffer, offset) \<Rightarrow>
     if offset \<noteq> length buffer then Inl (Error ''Could not decode chunks'') else Inr buffer)"

fun compile :: "(nat \<Rightarrow> byte) \<Rightarrow> script \<Rightarrow> buffer result" where
  "compile junk (Raw buffer) = Inr buffer"
| "compile junk (Chunks chunks) =
     (let bufferSize = foldl (\<lambda>accum chunk. accum + compile_chunk_size chunk) 0 chunks in
      bindE (forS compile_chunk chunks (allocUnsafe junk bufferSize, 0)) finish_compile)"

definition compile2_chunk_size :: "chunk \<Rightarrow> nat" where
  "compile2_chunk_size chunk = (case chunk of
     Data b \<Rightarrow> pushdata_encodingLength (length b) + length b
   | Op _ \<Rightarrow> 1)"

definition compile2_chunk :: "chunk \<Rightarrow> writer" where
  "compile2_chunk chunk = (case chunk of Data b \<Rightarrow> write_push b | Op n \<Rightarrow> w_UInt8 n)"

fun compile2 :: "(nat \<Rightarrow> byte) \<Rightarrow> script \<Rightarrow> buffer result" where
  "compile2 junk (Raw buffer) = Inr buffer"
| "compile2 junk (Chunks chunks) =
     (let bufferSize = foldl (\<lambda>accum chunk. accum + compile2_chunk_size chunk) 0 chunks in
      bindE (forS compile2_chunk chunks (allocUnsafe junk bufferSize, 0)) finish_compile)"

subsection \<open>Decompilation\<close>

definition minimal_chunk :: "buffer \<Rightarrow> chunk" where
  "minimal_chunk data = (case asMinimalOP data of Some op \<Rightarrow> Op op | None \<Rightarrow> Data data)"

text \<open>The loop of \<open>decompile\<close> from index \<open>i\<close> on, with the chunks found so far.\<close>

function decompile_loop :: "buffer \<Rightarrow> nat \<Rightarrow> chunk list \<Rightarrow> chunk list result" where
  "decompile_loop buffer i chunks =
     (if i < length buffer then
        let opcode = unat (buffer ! i) in
        if opcode > OP_0 \<and> opcode \<le> OP_PUSHDATA4 then
          (case pushdata_decode buffer i of
             Inl e \<Rightarrow> Inl e
           | Inr None \<Rightarrow> Inr []
           | Inr (Some d) \<Rightarrow>
               let j = i + pd_size d;
                   data = slice buffer j (j + pd_number d)
               in decompile_loop buffer (j + pd_number d) (chunks @ [minimal_chunk data]))
        else decompile_loop buffer (i + 1) (chunks @ [Op (int opcode)])
      else Inr chunks)"
  by pat_completeness auto
termination
  by (relation "measure (\<lambda>(b, i, cs). length b - i)") (auto dest: pushdata_decode_size)

declare decompile_loop.simps [simp del]

fun decompile :: "script \<Rightarrow> chunk list result" where
  "decompile (Chunks chunks) = Inr chunks"
| "decompile (Raw buffer) = decompile_loop buffer 0 []"

text \<open>One step of the loop, case by case, and the induction that follows its cursor.\<close>

lemma decompile_loop_finish: "length b \<le> i \<Longrightarrow> decompile_loop b i acc = Inr acc"
  by (subst decompile_loop.simps) simp

lemma decompile_loop_cut:
  "i < length b \<Longrightarrow> 0 < unat (b ! i) \<Longrightarrow> unat (b ! i) \<le> 78 \<Longrightarrow> pushdata_decode b i = Inr None \<Longrightarrow>
     decompile_loop b i acc = Inr []"
  by (subst decompile_loop.simps) (simp add: Let_def)

lemma decompile_loop_push:
  "i < length b \<Longrightarrow> 0 < unat (b ! i) \<Longrightarrow> unat (b ! i) \<le> 78 \<Longrightarrow> pushdata_decode b i = Inr (Some d) \<Longrightarrow>
     decompile_loop b i acc = decompile_loop b (i + pd_size d + pd_number d)
       (acc @ [minimal_chunk (slice b (i + pd_size d) (i + pd_size d + pd_number d))])"
  by (subst decompile_loop.simps) (simp add: Let_def)

lemma decompile_loop_opcode:
  "i < length b \<Longrightarrow> unat (b ! i) = 0 \<or> 78 < unat (b ! i) \<Longrightarrow>
     decompile_loop b i acc = decompile_loop b (i + 1) (acc @ [Op (int (unat (b ! i)))])"
  by (subst decompile_loop.simps) (auto simp: Let_def)

lemma cursor_induct [case_names finish cut push opcode]:
  assumes "\<And>i. length b \<le> i \<Longrightarrow> P i"
    and "\<And>i. i < length b \<Longrightarrow> 0 < unat (b ! i) \<Longrightarrow> unat (b ! i) \<le> 78 \<Longrightarrow> pushdata_decode b i = Inr None \<Longrightarrow> P i"
    and "\<And>i d. i < length b \<Longrightarrow> 0 < unat (b ! i) \<Longrightarrow> unat (b ! i) \<le> 78 \<Longrightarrow>
      pushdata_decode b i = Inr (Some d) \<Longrightarrow> P (i + pd_size d + pd_number d) \<Longrightarrow> P i"
    and "\<And>i. i < length b \<Longrightarrow> unat (b ! i) = 0 \<or> 78 < unat (b ! i) \<Longrightarrow> P (i + 1) \<Longrightarrow> P i"
  shows "P i"
proof (induction "length b - i" arbitrary: i rule: less_induct)
  case less
  show ?case
  proof (cases "i < length b")
    case True
    show ?thesis
    proof (cases "0 < unat (b ! i) \<and> unat (b ! i) \<le> 78")
      case op: True
      then obtain r where "pushdata_decode b i = Inr r" using True pushdata_decode_no_error by blast
      then show ?thesis
        using True op assms(2,3) less pushdata_decode_size [of b i] by (cases r) auto
    next
      case False
      then show ?thesis using True assms(4) less by auto
    qed
  qed (use assms(1) in simp)
qed

subsection \<open>The stack and the canonical forms\<close>

definition toStack :: "(nat \<Rightarrow> byte) \<Rightarrow> script \<Rightarrow> buffer list result" where
  "toStack junk script =
     bindE (decompile script) (\<lambda>chunks.
     bindE (assertE (isPushOnly chunks) (TypeError ''isPushOnly'')) (\<lambda>_.
       mapE (\<lambda>op. case op of
           Data b \<Rightarrow> Inr b
         | Op n \<Rightarrow> if n = OP_0 then Inr [] else scriptnum_encode junk (n - OP_INT_BASE)) chunks))"

definition isCanonicalPubKey :: "chunk \<Rightarrow> bool" where
  "isCanonicalPubKey chunk = (case chunk of Op _ \<Rightarrow> False | Data buffer \<Rightarrow>
     if length buffer < 33 then False
     else if unat (buffer ! 0) = 0x02 \<or> unat (buffer ! 0) = 0x03 then length buffer = 33
     else if unat (buffer ! 0) = 0x04 then length buffer = 65
     else False)"

definition isDefinedHashType :: "int \<Rightarrow> bool" where
  "isDefinedHashType hashType =
     (let hashTypeMod = js_and hashType (js_not 0xc0) in hashTypeMod > 0x00 \<and> hashTypeMod < 0x04)"

text \<open>The last byte of an empty buffer is \<open>undefined\<close>, which \<open>&\<close> reads as 0.\<close>

definition isCanonicalSignature :: "(buffer \<Rightarrow> bool) \<Rightarrow> chunk \<Rightarrow> bool" where
  "isCanonicalSignature bip66_check chunk = (case chunk of Op _ \<Rightarrow> False | Data buffer \<Rightarrow>
     if \<not> isDefinedHashType (if buffer = [] then 0 else int (unat (last buffer))) then False
     else if length buffer = 65 then True
     else bip66_check (butlast buffer))"

subsection \<open>Compilation writes the chunks one after the other\<close>

definition chunk_ok :: "chunk \<Rightarrow> bool" where
  "chunk_ok c = (case c of Op n \<Rightarrow> 0 \<le> n \<and> n < 256 | Data b \<Rightarrow> length b < 2 ^ 32)"

definition push_bytes :: "buffer \<Rightarrow> buffer" where
  "push_bytes b = pushdata_bytes (length b) @ b"

definition chunk_bytes :: "chunk \<Rightarrow> buffer" where
  "chunk_bytes c = (case c of
     Op n \<Rightarrow> [word_of_int n]
   | Data b \<Rightarrow> (case asMinimalOP b of Some op \<Rightarrow> [word_of_int op] | None \<Rightarrow> push_bytes b))"

definition chunk_bytes2 :: "chunk \<Rightarrow> buffer" where
  "chunk_bytes2 c = (case c of Op n \<Rightarrow> [word_of_int n] | Data b \<Rightarrow> push_bytes b)"

lemma chunk_simps:
  "chunk_ok (Op n) \<longleftrightarrow> 0 \<le> n \<and> n < 256"
  "chunk_ok (Data b) \<longleftrightarrow> length b < 2 ^ 32"
  "chunk_bytes (Op n) = [word_of_int n]"
  "asMinimalOP b = None \<Longrightarrow> chunk_bytes (Data b) = push_bytes b"
  "chunk_bytes2 (Op n) = [word_of_int n]"
  "chunk_bytes2 (Data b) = push_bytes b"
  by (simp_all add: chunk_ok_def chunk_bytes_def chunk_bytes2_def)

lemma asMinimalOP_Nil [simp]: "asMinimalOP [] = Some 0"
  by (simp add: asMinimalOP_def)

lemma asMinimalOP_Some:
  assumes "asMinimalOP b = Some op"
  shows "length b \<le> 1 \<and> (op = 0 \<or> op = 79 \<or> 81 \<le> op \<and> op \<le> 96)"
  using assms by (auto simp: asMinimalOP_def split: if_splits simp del: of_nat_unat)

lemma asMinimalOP_None_pos: "asMinimalOP b = None \<Longrightarrow> 0 < length b"
  by (auto simp: asMinimalOP_def split: if_splits)

lemma word_of_int_nat_byte: "0 \<le> n \<Longrightarrow> word_of_nat (nat n) = (word_of_int n :: byte)"
  by (metis int_nat_eq of_int_of_nat_eq)

lemma writes_op [wire_intros]: "0 \<le> n \<Longrightarrow> n < 256 \<Longrightarrow> writes (w_UInt8 n) [word_of_int n]"
  using writes_UInt8 [of n] by (simp add: word_of_int_nat_byte)

lemma writes_push [wire_intros]:
  assumes "length b < 2 ^ 32"
  shows "writes (write_push b) (push_bytes b)"
  unfolding writes_def
proof (intro allI impI)
  fix pre junk :: buffer
  let ?n = "pushdata_encodingLength (length b)"
  assume "length (push_bytes b) \<le> length junk"
  then have fits: "?n + length b \<le> length junk" by (simp add: push_bytes_def)
  have enc: "pushdata_encode (pre @ junk) (length b) (length pre) =
      Inr ((pre @ pushdata_bytes (length b)) @ drop ?n junk, ?n)"
    using pd.encode_append [of "length b" junk pre] assms fits by simp
  have cp: "copy b ((pre @ pushdata_bytes (length b)) @ drop ?n junk) (length (pre @ pushdata_bytes (length b))) =
      ((pre @ pushdata_bytes (length b)) @ b @ drop (length b) (drop ?n junk), length b)"
    using fits by (intro copy_append) simp
  show "write_push b (pre @ junk, length pre) =
      Inr ((), pre @ push_bytes b @ drop (length (push_bytes b)) junk, length pre + length (push_bytes b))"
    using enc cp by (simp add: write_push_def push_bytes_def add_ac)
qed

lemma writes_chunk: "chunk_ok c \<Longrightarrow> writes (compile_chunk c) (chunk_bytes c)"
  by (auto simp: compile_chunk_def chunk_bytes_def chunk_ok_def split: chunk.splits option.splits
      intro!: wire_intros dest: asMinimalOP_Some)

lemma writes_chunk2: "chunk_ok c \<Longrightarrow> writes (compile2_chunk c) (chunk_bytes2 c)"
  by (auto simp: compile2_chunk_def chunk_bytes2_def chunk_ok_def split: chunk.splits intro!: wire_intros)

lemma length_chunk_bytes: "length (chunk_bytes c) = compile_chunk_size c"
  by (auto simp: chunk_bytes_def compile_chunk_size_def push_bytes_def le_Suc_eq pushdata_encodingLength_def
      split: chunk.splits option.splits dest: asMinimalOP_Some)

lemma length_chunk_bytes2: "length (chunk_bytes2 c) = compile2_chunk_size c"
  by (auto simp: chunk_bytes2_def compile2_chunk_size_def push_bytes_def split: chunk.splits)

lemma foldl_size: "foldl (\<lambda>a c. a + f c) n cs = n + (\<Sum>c\<leftarrow>cs. f c)" for f :: "'a \<Rightarrow> nat"
  by (induction cs arbitrary: n) auto

lemma length_concat_map: "(\<And>c. length (f c) = g c) \<Longrightarrow> length (concat (map f cs)) = (\<Sum>c\<leftarrow>cs. g c)"
  by (induction cs) auto

lemma compile_bytes:
  assumes "list_all chunk_ok cs"
  shows "compile junk (Chunks cs) = Inr (concat (map chunk_bytes cs))"
proof -
  have "writes (forS compile_chunk cs) (concat (map chunk_bytes cs))"
    using assms by (intro writes_for writes_chunk) (auto simp: list_all_iff)
  then show ?thesis
    by (simp add: writes_run foldl_size length_concat_map [OF length_chunk_bytes] finish_compile_def)
qed

lemma compile2_bytes:
  assumes "list_all chunk_ok cs"
  shows "compile2 junk (Chunks cs) = Inr (concat (map chunk_bytes2 cs))"
proof -
  have "writes (forS compile2_chunk cs) (concat (map chunk_bytes2 cs))"
    using assms by (intro writes_for writes_chunk2) (auto simp: list_all_iff)
  then show ?thesis
    by (simp add: writes_run foldl_size length_concat_map [OF length_chunk_bytes2] finish_compile_def)
qed

subsection \<open>Decompilation finds them again\<close>

text \<open>An opcode that \<open>decompile\<close> does not take for a push.\<close>

definition chunk_plain :: "chunk \<Rightarrow> bool" where
  "chunk_plain c = (case c of Op n \<Rightarrow> n = 0 \<or> 78 < n | Data b \<Rightarrow> True)"

definition normal_chunk :: "chunk \<Rightarrow> chunk" where
  "normal_chunk c = (case c of Op n \<Rightarrow> Op n | Data b \<Rightarrow> minimal_chunk b)"

lemma decompile_step_op:
  assumes "n = 0 \<or> 78 < n" "0 \<le> n" "n < 256"
  shows "decompile_loop (pre @ [word_of_int n] @ suf) (length pre) acc =
    decompile_loop (pre @ [word_of_int n] @ suf) (length (pre @ [word_of_int n])) (acc @ [Op n])"
proof -
  have "unat (word_of_int n :: byte) = nat n"
    using assms word_of_int_nat_byte [of n] unat_word_of_nat_byte [of "nat n"] by (simp add: nat_less_iff)
  then show ?thesis
    using assms by (subst decompile_loop.simps) (auto simp: Let_def)
qed

lemma push_bytes_decode:
  assumes "length b < 2 ^ 32"
  shows "pushdata_decode (pre @ push_bytes b @ suf) (length pre) = Inr (Some \<lparr>pd_opcode = pushdata_opcode (length b),
      pd_number = length b, pd_size = pushdata_encodingLength (length b)\<rparr>)"
    and "unat ((pre @ push_bytes b @ suf) ! length pre) = pushdata_opcode (length b)"
    and "slice (pre @ push_bytes b @ suf) (length pre + pushdata_encodingLength (length b))
      (length pre + pushdata_encodingLength (length b) + length b) = b"
proof -
  show "pushdata_decode (pre @ push_bytes b @ suf) (length pre) = Inr (Some \<lparr>pd_opcode = pushdata_opcode (length b),
      pd_number = length b, pd_size = pushdata_encodingLength (length b)\<rparr>)"
    using pushdata_decode_bytes [OF assms, of pre "b @ suf"] by (simp add: push_bytes_def)
  have "(pre @ push_bytes b @ suf) ! length pre = hd (pushdata_bytes (length b))"
    by (simp add: push_bytes_def nth_append hd_append pushdata_bytes_def)
  moreover have "unat (hd (pushdata_bytes (length b))) = pushdata_opcode (length b)"
    by (simp add: pushdata_bytes_def pushdata_opcode_def unat_word_of_nat_byte)
  ultimately show "unat ((pre @ push_bytes b @ suf) ! length pre) = pushdata_opcode (length b)" by simp
  show "slice (pre @ push_bytes b @ suf) (length pre + pushdata_encodingLength (length b))
      (length pre + pushdata_encodingLength (length b) + length b) = b"
    using slice_append [of "pre @ pushdata_bytes (length b)" b suf] by (simp add: push_bytes_def)
qed

lemma decompile_step_push:
  assumes "0 < length b" "length b < 2 ^ 32"
  shows "decompile_loop (pre @ push_bytes b @ suf) (length pre) acc =
    decompile_loop (pre @ push_bytes b @ suf) (length (pre @ push_bytes b)) (acc @ [minimal_chunk b])"
proof -
  let ?buf = "pre @ push_bytes b @ suf"
  have "0 < unat (?buf ! length pre) \<and> unat (?buf ! length pre) \<le> 78"
    unfolding push_bytes_decode(2) [OF assms(2)] using assms(1) by (simp add: pushdata_opcode_def)
  moreover have "length pre < length ?buf" "length (push_bytes b) = pushdata_encodingLength (length b) + length b"
    by (simp_all add: push_bytes_def)
  ultimately show ?thesis
    using push_bytes_decode(1,3) [OF assms(2), of pre suf] by (subst decompile_loop.simps) (simp add: Let_def add_ac)
qed

lemma decompile_step_chunk:
  assumes "chunk_ok c" "chunk_plain c"
  shows "decompile_loop (pre @ chunk_bytes c @ suf) (length pre) acc =
    decompile_loop (pre @ chunk_bytes c @ suf) (length (pre @ chunk_bytes c)) (acc @ [normal_chunk c])"
proof (cases c)
  case (Op n)
  then show ?thesis
    using assms decompile_step_op [of n pre suf acc]
    by (simp add: chunk_ok_def chunk_plain_def chunk_bytes_def normal_chunk_def)
next
  case (Data b)
  show ?thesis
  proof (cases "asMinimalOP b")
    case None
    then show ?thesis
      using Data assms decompile_step_push [of b pre suf acc] asMinimalOP_None_pos [OF None]
      by (simp add: chunk_ok_def chunk_bytes_def normal_chunk_def)
  next
    case (Some op)
    then have "decompile_loop (pre @ [word_of_int op] @ suf) (length pre) acc =
        decompile_loop (pre @ [word_of_int op] @ suf) (length (pre @ [word_of_int op])) (acc @ [Op op])"
      using asMinimalOP_Some [OF Some] by (intro decompile_step_op) auto
    then show ?thesis using Data Some by (simp add: chunk_bytes_def normal_chunk_def minimal_chunk_def)
  qed
qed

lemma decompile_step_chunk2:
  assumes "chunk_ok c" "chunk_plain c"
  shows "decompile_loop (pre @ chunk_bytes2 c @ suf) (length pre) acc =
    decompile_loop (pre @ chunk_bytes2 c @ suf) (length (pre @ chunk_bytes2 c)) (acc @ [normal_chunk c])"
proof (cases c)
  case (Op n)
  then show ?thesis
    using assms decompile_step_op [of n pre suf acc]
    by (simp add: chunk_ok_def chunk_plain_def chunk_bytes2_def normal_chunk_def)
next
  case (Data b)
  show ?thesis
  proof (cases "b = []")
    case True
    then show ?thesis
      using Data decompile_step_op [of 0 pre suf acc]
      by (simp add: chunk_bytes2_def push_bytes_def pushdata_bytes_def normal_chunk_def minimal_chunk_def)
  next
    case False
    then show ?thesis
      using Data assms decompile_step_push [of b pre suf acc]
      by (simp add: chunk_ok_def chunk_bytes2_def normal_chunk_def)
  qed
qed

lemma decompile_chunks:
  assumes "\<And>c pre suf acc. c \<in> set cs \<Longrightarrow> decompile_loop (pre @ f c @ suf) (length pre) acc =
    decompile_loop (pre @ f c @ suf) (length (pre @ f c)) (acc @ [normal_chunk c])"
  shows "decompile_loop (pre @ concat (map f cs)) (length pre) acc = Inr (acc @ map normal_chunk cs)"
  using assms
proof (induction cs arbitrary: pre acc)
  case Nil
  then show ?case by (simp add: decompile_loop.simps)
next
  case (Cons c cs)
  have "decompile_loop (pre @ f c @ concat (map f cs)) (length pre) acc =
      decompile_loop ((pre @ f c) @ concat (map f cs)) (length (pre @ f c)) (acc @ [normal_chunk c])"
    using Cons.prems [of c pre "concat (map f cs)" acc] by simp
  also have "\<dots> = Inr ((acc @ [normal_chunk c]) @ map normal_chunk cs)"
    using Cons.prems by (intro Cons.IH) auto
  finally show ?case by simp
qed

lemma decompile_bytes:
  assumes "list_all chunk_ok cs" "list_all chunk_plain cs"
  shows "decompile (Raw (concat (map chunk_bytes cs))) = Inr (map normal_chunk cs)"
    and "decompile (Raw (concat (map chunk_bytes2 cs))) = Inr (map normal_chunk cs)"
  using decompile_chunks [of cs chunk_bytes "[]" "[]"] decompile_chunks [of cs chunk_bytes2 "[]" "[]"] assms
  by (auto simp: list_all_iff decompile_step_chunk decompile_step_chunk2)

lemma decompile_loop_total: "\<exists>cs. decompile_loop b i acc = Inr cs"
  by (induction i arbitrary: acc rule: cursor_induct [of b])
    (simp_all add: decompile_loop_finish decompile_loop_cut decompile_loop_push decompile_loop_opcode
      del: of_nat_unat)

lemma decompile_total: "\<exists>cs. decompile s = Inr cs"
  by (cases s) (auto simp: decompile_loop_total)

subsection \<open>The chunks of a parsed script\<close>

definition chunk_normal :: "chunk \<Rightarrow> bool" where
  "chunk_normal c \<longleftrightarrow> chunk_ok c \<and> chunk_plain c \<and> normal_chunk c = c"

lemma chunk_normal_minimal: "length b < 2 ^ 32 \<Longrightarrow> chunk_normal (minimal_chunk b)"
  by (auto simp: chunk_normal_def chunk_ok_def chunk_plain_def normal_chunk_def minimal_chunk_def
      split: option.splits dest: asMinimalOP_Some)

lemma chunk_normal_opcode: "unat x = 0 \<or> 78 < unat x \<Longrightarrow> chunk_normal (Op (int (unat (x :: byte))))"
  using js_byte(1,2) [of x]
  by (auto simp: chunk_normal_def chunk_ok_def chunk_plain_def normal_chunk_def simp del: of_nat_unat)

lemma decompile_loop_normal:
  "decompile_loop b i acc = Inr cs \<Longrightarrow> list_all chunk_normal acc \<Longrightarrow> list_all chunk_normal cs"
proof (induction i arbitrary: acc rule: cursor_induct [of b])
  case (finish i)
  then show ?case by (simp add: decompile_loop_finish)
next
  case (cut i)
  then show ?case by (auto simp: decompile_loop_cut)
next
  case (push i d)
  have "length (slice b (i + pd_size d) (i + pd_size d + pd_number d)) < 2 ^ 32"
    using pushdata_decode_size_number [OF push(4)] by (auto simp: slice_def min_less_iff_disj)
  then show ?case
    using push chunk_normal_minimal by (simp add: decompile_loop_push)
next
  case (opcode i)
  then show ?case
    using chunk_normal_opcode [of "b ! i"] by (simp add: decompile_loop_opcode del: of_nat_unat)
qed

lemma decompile_normal: "decompile (Raw b) = Inr cs \<Longrightarrow> list_all chunk_normal cs"
  by (auto intro: decompile_loop_normal)

subsection \<open>Minimal scripts\<close>

text \<open>What \<open>bip62\<close> lets pass: opcodes above the pushes, and data of at most 520 bytes that are not a single
  byte from 1 to 16. The empty datum stands for \<open>OP_0\<close>.\<close>

definition bip62_chunk :: "chunk \<Rightarrow> bool" where
  "bip62_chunk c = (case c of
     Op n \<Rightarrow> 78 < n \<and> n < 256
   | Data d \<Rightarrow> length d \<le> 520 \<and> \<not> (length d = 1 \<and> 1 \<le> unat (d ! 0) \<and> unat (d ! 0) \<le> 16))"

lemma checkMinimalPush_iff:
  assumes "opcode \<le> 78" "length data \<le> 520"
  shows "checkMinimalPush opcode data \<longleftrightarrow> opcode = pushdata_opcode (length data) \<and> bip62_chunk (Data data)"
  using assms by (auto simp: checkMinimalPush_def pushdata_opcode_def bip62_chunk_def)

lemma bip62_chunk_minimal:
  assumes "bip62_chunk c"
  shows "chunk_ok c" "chunk_plain c" "chunk_bytes c = (if c = Data [0x81] then [79] else chunk_bytes2 c)"
proof -
  show "chunk_ok c" "chunk_plain c"
    using assms by (auto simp: bip62_chunk_def chunk_ok_def chunk_plain_def split: chunk.splits)
  have x: "x = 0x81" if "unat x = 0x81" for x :: byte using byte_eqI [OF that] by simp
  show "chunk_bytes c = (if c = Data [0x81] then [79] else chunk_bytes2 c)"
  proof (cases c)
    case (Data d)
    then show ?thesis
      using assms x by (cases d rule: remdups_adj.cases)
        (auto simp: bip62_chunk_def chunk_bytes_def chunk_bytes2_def asMinimalOP_def push_bytes_def pushdata_bytes_def
          simp del: of_nat_unat)
  qed (simp add: chunk_bytes_def chunk_bytes2_def)
qed

lemma drop_split3: "drop i b = take m (drop i b) @ slice b (i + m) (i + m + n) @ drop (i + m + n) b"
proof -
  have "drop (i + m) b = slice b (i + m) (i + m + n) @ drop (i + m + n) b"
    using append_take_drop_id [of n "drop (i + m) b"] by (simp add: slice_def add_ac)
  then show ?thesis using append_take_drop_id [of m "drop i b"] by (simp add: add_ac)
qed

lemma bip62_loop_push:
  assumes "bip62_loop b i = Inr True" "i < length b" "unat (b ! i) \<le> 78" "pushdata_decode b i = Inr (Some d)"
  shows "\<exists>data. bip62_chunk (Data data) \<and> drop i b = push_bytes data @ drop (i + pd_size d + pd_number d) b"
    and "bip62_loop b (i + pd_size d + pd_number d) = Inr True"
proof -
  define data where "data = slice b (i + pd_size d) (i + pd_size d + pd_number d)"
  have fits: "i + pd_size d + pd_number d \<le> length b" and number: "pd_number d \<le> 520"
    and ok: "checkMinimalPush (unat (b ! i)) data"
    and "bip62_loop b (i + pd_size d + pd_number d) = Inr True"
    using assms by (auto simp: data_def bip62_loop.simps [of b i] Let_def split: if_splits)
  then show "bip62_loop b (i + pd_size d + pd_number d) = Inr True" by blast
  have len: "length data = pd_number d" using fits by (simp add: data_def length_slice)
  have c: "unat (b ! i) = pushdata_opcode (length data)" "bip62_chunk (Data data)"
    using ok number len checkMinimalPush_iff [OF assms(3)] by simp_all
  then have "take (pd_size d) (drop i b) = pushdata_bytes (pd_number d)"
    using pushdata_decode_inverse [OF assms(4)] pushdata_decode_opcode [OF assms(4)] len by simp
  then have "drop i b = push_bytes data @ drop (i + pd_size d + pd_number d) b"
    using drop_split3 [of i b "pd_size d" "pd_number d"] len by (simp add: push_bytes_def data_def)
  with c(2) show "\<exists>data. bip62_chunk (Data data) \<and> drop i b = push_bytes data @ drop (i + pd_size d + pd_number d) b"
    by blast
qed

lemma bip62_loop_opcode:
  assumes "i < length b" "unat (b ! i) = 0 \<or> 78 < unat (b ! i)"
  shows "bip62_loop b i = bip62_loop b (i + 1)"
proof (cases "unat (b ! i) = 0")
  case True
  then have "pushdata_decode b i = Inr (Some \<lparr>pd_opcode = 0, pd_number = 0, pd_size = 1\<rparr>)"
    using assms(1) by (simp add: pushdata_decode_def readUInt8_eq Let_def)
  then show ?thesis
    using True assms(1) by (subst bip62_loop.simps) (simp add: Let_def slice_def checkMinimalPush_def)
next
  case False
  then show ?thesis using assms by (subst bip62_loop.simps) simp
qed

lemma bip62_loop_total: "\<exists>r. bip62_loop b i = Inr r"
proof (induction i rule: cursor_induct [of b])
  case (finish i)
  then show ?case by (auto simp: bip62_loop.simps [of b i])
next
  case (cut i)
  then show ?case by (auto simp: bip62_loop.simps [of b i] Let_def)
next
  case (push i d)
  then show ?case by (auto simp: bip62_loop.simps [of b i] Let_def)
next
  case (opcode i)
  then show ?case by (simp add: bip62_loop_opcode [OF opcode(1,2)])
qed

lemma bip62_loop_chunks:
  "bip62_loop b i = Inr True \<Longrightarrow> \<exists>cs. list_all bip62_chunk cs \<and> concat (map chunk_bytes2 cs) = drop i b"
proof (induction i rule: cursor_induct [of b])
  case (finish i)
  then show ?case by (intro exI [of _ "[]"]) simp
next
  case (cut i)
  then show ?case by (simp add: bip62_loop.simps [of b i] Let_def)
next
  case (push i d)
  note step = bip62_loop_push [OF push.prems push(1,3,4)]
  from step(1) push.IH [OF step(2)] obtain data cs where "bip62_chunk (Data data)" "list_all bip62_chunk cs"
      "drop i b = push_bytes data @ concat (map chunk_bytes2 cs)" by auto
  then show ?case by (intro exI [of _ "Data data # cs"]) (simp add: chunk_simps)
next
  case (opcode i)
  define c where "c = (if b ! i = 0 then Data [] else Op (int (unat (b ! i))))"
  have c: "bip62_chunk c" "chunk_bytes2 c = [b ! i]"
    using opcode(2) js_byte(2) [of "b ! i"] unat_eq_zero [of "b ! i"]
    by (auto simp: c_def bip62_chunk_def chunk_bytes2_def push_bytes_def pushdata_bytes_def word_of_nat_unat_byte simp del: of_nat_unat)
  obtain cs where "list_all bip62_chunk cs" "concat (map chunk_bytes2 cs) = drop (i + 1) b"
    using opcode.IH opcode.prems unfolding bip62_loop_opcode [OF opcode(1,2)] by blast
  then show ?case using c Cons_nth_drop_Suc [OF opcode(1)] by (intro exI [of _ "c # cs"]) simp
qed

lemma bip62_step:
  assumes "bip62_chunk c"
  shows "bip62_loop (pre @ chunk_bytes2 c @ suf) (length pre) =
    bip62_loop (pre @ chunk_bytes2 c @ suf) (length (pre @ chunk_bytes2 c))"
proof (cases c)
  case (Op n)
  then have n: "78 < n" "n < 256" using assms by (simp_all add: bip62_chunk_def)
  then have "unat (word_of_int n :: byte) = nat n"
    using word_of_int_nat_byte [of n] unat_word_of_nat_byte [of "nat n"] by (simp add: nat_less_iff)
  then show ?thesis
    using Op n bip62_loop_opcode [of "length pre" "pre @ [word_of_int n] @ suf"] by (simp add: chunk_simps)
next
  case (Data d)
  let ?buf = "pre @ push_bytes d @ suf"
  have d: "length d < 2 ^ 32" "length d \<le> 520" using assms Data by (simp_all add: bip62_chunk_def)
  note dec = push_bytes_decode [OF d(1), of pre suf]
  have "unat (?buf ! length pre) \<le> 78" unfolding dec(2) by (simp add: pushdata_opcode_def)
  moreover from this have "checkMinimalPush (unat (?buf ! length pre)) d"
    using checkMinimalPush_iff [of _ d] dec(2) assms Data d(2) by simp
  moreover have "length pre < length ?buf" "length (push_bytes d) = pushdata_encodingLength (length d) + length d"
    by (simp_all add: push_bytes_def)
  ultimately show ?thesis
    using dec(1,3) d(2) unfolding Data chunk_simps
    by (subst bip62_loop.simps) (simp add: Let_def add_ac)
qed

lemma bip62_chunks:
  "list_all bip62_chunk cs \<Longrightarrow> bip62_loop (pre @ concat (map chunk_bytes2 cs)) (length pre) = Inr True"
proof (induction cs arbitrary: pre)
  case Nil
  then show ?case by (simp add: bip62_loop.simps)
next
  case (Cons c cs)
  then show ?case
    using bip62_step [of c pre "concat (map chunk_bytes2 cs)"] Cons.IH [of "pre @ chunk_bytes2 c"] by simp
qed

lemma length_chunk_bytes_81:
  assumes "list_all bip62_chunk cs"
  shows "length (concat (map chunk_bytes2 cs)) = length (concat (map chunk_bytes cs)) + count_list cs (Data [0x81])"
  using assms by (induction cs)
    (simp_all add: bip62_chunk_minimal(3) chunk_simps push_bytes_def pushdata_encodingLength_def)

lemma bip62_recompile:
  assumes "list_all bip62_chunk cs"
  shows "bindE (decompile (Raw (concat (map chunk_bytes2 cs)))) (\<lambda>cs. compile junk (Chunks cs)) =
    Inr (concat (map (\<lambda>c. if c = Data [0x81] then [79] else chunk_bytes2 c) cs))"
proof -
  have ok: "list_all chunk_ok cs" "list_all chunk_plain cs"
    using assms bip62_chunk_minimal(1,2) by (auto simp: list_all_iff)
  have norm: "chunk_ok (normal_chunk c) \<and> chunk_bytes (normal_chunk c) = chunk_bytes c" if "chunk_ok c" for c
    using that by (auto simp: normal_chunk_def minimal_chunk_def chunk_bytes_def chunk_ok_def split: chunk.splits option.splits
        dest: asMinimalOP_Some)
  then have "compile junk (Chunks (map normal_chunk cs)) = Inr (concat (map chunk_bytes (map normal_chunk cs)))"
    using ok(1) by (intro compile_bytes) (simp add: list_all_iff)
  moreover have "map chunk_bytes (map normal_chunk cs) = map (\<lambda>c. if c = Data [0x81] then [79] else chunk_bytes2 c) cs"
    using norm ok(1) assms bip62_chunk_minimal(3) by (simp add: list_all_iff)
  ultimately show ?thesis
    using decompile_bytes(2) [OF ok] by (simp del: compile.simps decompile.simps map_map)
qed

subsection \<open>Out-of-range opcodes\<close>

definition chunk_data_ok :: "chunk \<Rightarrow> bool" where
  "chunk_data_ok c = (case c of Data b \<Rightarrow> length b < 2 ^ 32 | Op _ \<Rightarrow> True)"

lemma compile_loop_fails:
  assumes "list_all chunk_data_ok cs" "\<not> list_all chunk_ok cs" "(\<Sum>c\<leftarrow>cs. compile_chunk_size c) \<le> length junk"
  shows "forS compile_chunk cs (pre @ junk, length pre) = Inl ERR_OUT_OF_RANGE"
  using assms
proof (induction cs arbitrary: pre junk)
  case Nil
  then show ?case by simp
next
  case (Cons c cs)
  show ?case
  proof (cases "chunk_ok c")
    case True
    have step: "compile_chunk c (pre @ junk, length pre) =
        Inr ((), (pre @ chunk_bytes c) @ drop (length (chunk_bytes c)) junk, length (pre @ chunk_bytes c))"
      using writesD [OF writes_chunk [OF True], of junk pre] Cons.prems by (simp add: length_chunk_bytes)
    then show ?thesis
      using Cons.IH [of "drop (length (chunk_bytes c)) junk" "pre @ chunk_bytes c"] Cons.prems True
      by (simp add: length_chunk_bytes)
  next
    case False
    then show ?thesis
      using Cons.prems by (cases c)
        (auto simp: chunk_ok_def chunk_data_ok_def compile_chunk_def w_UInt8_def emit_def writeUInt8_def writeUIntLE_def)
  qed
qed

subsection \<open>The stack of a push-only script\<close>

lemma scriptnum_small:
  assumes "asMinimalOP b = Some op" "op \<noteq> 0"
  shows "scriptnum_encode junk (op - 80) = Inr b"
proof -
  obtain x where b: "b = [x]"
    using assms by (cases b rule: remdups_adj.cases) (auto simp: asMinimalOP_def)
  have "1 \<le> unat x \<and> unat x \<le> 16 \<and> op = 80 + int (unat x) \<or> unat x = 0x81 \<and> op = 79"
    using assms b by (auto simp: asMinimalOP_def split: if_splits simp del: of_nat_unat)
  then have "scriptnum_bytes (op - 80) = [word_of_nat (unat x)]"
    by (auto simp: scriptnum_bytes_def scriptNumSize_def simp del: of_nat_unat)
  then show ?thesis
    using asMinimalOP_Some [OF assms(1)] b scriptnum_encode_bytes [of "op - 80" junk] by auto
qed

lemma toStack_minimal:
  "(case minimal_chunk b of Data b \<Rightarrow> Inr b
    | Op n \<Rightarrow> if n = 0 then Inr [] else scriptnum_encode junk (n - 80)) = Inr b"
proof (cases "asMinimalOP b")
  case (Some op)
  then show ?thesis
    using scriptnum_small [OF Some, of junk]
    by (auto simp: minimal_chunk_def asMinimalOP_def split: if_splits simp del: of_nat_unat)
qed (simp add: minimal_chunk_def)

lemma isPushOnlyChunk_minimal: "isPushOnlyChunk (minimal_chunk b)"
  by (auto simp: isPushOnlyChunk_def minimal_chunk_def isOPInt_def split: option.splits dest: asMinimalOP_Some)

lemma toStack_normal: "decompile s = Inr (map minimal_chunk bs) \<Longrightarrow> toStack junk s = Inr bs"
proof -
  assume d: "decompile s = Inr (map minimal_chunk bs)"
  have "mapE (\<lambda>op. case op of Data b \<Rightarrow> Inr b
      | Op n \<Rightarrow> if n = 0 then Inr [] else scriptnum_encode junk (n - 80)) (map minimal_chunk bs) = Inr bs"
    by (induction bs) (simp_all add: toStack_minimal)
  moreover have "isPushOnly (map minimal_chunk bs)"
    by (simp add: isPushOnly_def list_all_iff isPushOnlyChunk_minimal)
  ultimately show ?thesis using d by (simp add: toStack_def)
qed

subsection \<open>Properties\<close>

text \<open>\<open>compile\<close> allocates exactly the bytes it writes and leaves no byte of the uninitialised
  allocation in its result: the result is the concatenation of the chunks' minimal encodings. It
  throws a range error exactly when some opcode does not fit in a byte.\<close>

theorem script_compile_result:
  assumes "list_all chunk_data_ok cs"
  shows "compile junk (Chunks cs) =
    (if list_all chunk_ok cs then Inr (concat (map chunk_bytes cs)) else Inl ERR_OUT_OF_RANGE)"
  using compile_bytes [of cs junk] compile_loop_fails [OF assms, of "allocUnsafe junk _" "[]"]
  by (simp add: foldl_size)

theorem script_compile_result_witness:
  "compile (\<lambda>_. 9) (Chunks [Op 0x76, Data [0xaa, 0xbb], Data [5]]) = Inr [0x76, 2, 0xaa, 0xbb, 0x55]"
  using script_compile_result [of "[Op 0x76, Data [0xaa, 0xbb], Data [5]]" "\<lambda>_. 9"]
  by (simp add: chunk_data_ok_def chunk_ok_def chunk_bytes_def push_bytes_def pushdata_bytes_def asMinimalOP_def)

text \<open>C21. Compiling chunks and parsing the result gives the chunks back, with every datum that has an
  opcode of its own replaced by that opcode; this holds for \<open>compile\<close> and for \<open>compile2\<close>, which
  keeps such a datum as a push. Opcodes of chunks must not lie in the push range.\<close>

theorem script_roundtrip:
  assumes "list_all chunk_ok cs" "list_all chunk_plain cs"
  shows "bindE (compile junk (Chunks cs)) (\<lambda>s. decompile (Raw s)) = Inr (map normal_chunk cs) \<and>
    bindE (compile2 junk (Chunks cs)) (\<lambda>s. decompile (Raw s)) = Inr (map normal_chunk cs)"
  using compile_bytes [OF assms(1)] compile2_bytes [OF assms(1)] decompile_bytes [OF assms]
  by (simp del: compile.simps compile2.simps decompile.simps)

theorem script_roundtrip_witness:
  "bindE (compile2 (\<lambda>_. 9) (Chunks [Op 0x6a, Data [7], Data [1, 2]])) (\<lambda>s. decompile (Raw s)) =
     Inr [Op 0x6a, Op 0x57, Data [1, 2]]"
  using script_roundtrip [of "[Op 0x6a, Data [7], Data [1, 2]]" "\<lambda>_. 9"]
  by (simp add: chunk_ok_def chunk_plain_def normal_chunk_def minimal_chunk_def asMinimalOP_def)

text \<open>C20. \<open>decompile\<close> returns for every byte string (its loop ends and no read is out of range), and
  what it returns is stable: compiling the chunks succeeds and parsing the result gives the same
  chunks.\<close>

theorem script_decompile_stable:
  "\<exists>cs s. decompile (Raw b) = Inr cs \<and> compile junk (Chunks cs) = Inr s \<and> decompile (Raw s) = Inr cs"
proof -
  obtain cs where cs: "decompile (Raw b) = Inr cs" using decompile_total by blast
  then have n: "list_all chunk_normal cs" by (rule decompile_normal)
  then have "list_all chunk_ok cs" "list_all chunk_plain cs" "map normal_chunk cs = cs"
    by (auto simp: list_all_iff chunk_normal_def intro: map_idI)
  then show ?thesis using cs compile_bytes decompile_bytes(1) by metis
qed

text \<open>The stack of a compiled push-only script is the list of data it was compiled from: the
  numbers that \<open>compile\<close> turns into opcodes come back as the same bytes.\<close>

theorem script_toStack_roundtrip:
  assumes "list_all (\<lambda>b. length b < 2 ^ 32) bs"
  shows "bindE (compile junk (Chunks (map Data bs))) (\<lambda>s. toStack junk' (Raw s)) = Inr bs"
proof -
  have ok: "list_all chunk_ok (map Data bs)" "list_all chunk_plain (map Data bs)"
    using assms by (auto simp: list_all_iff chunk_ok_def chunk_plain_def)
  have "map normal_chunk (map Data bs) = map minimal_chunk bs" by (simp add: normal_chunk_def)
  then show ?thesis
    using compile_bytes [OF ok(1)] decompile_bytes(1) [OF ok] toStack_normal
    by (simp del: compile.simps decompile.simps map_map)
qed

theorem script_toStack_roundtrip_witness:
  "bindE (compile (\<lambda>_. 9) (Chunks (map Data [[], [16], [0x81], [1, 2, 3]]))) (\<lambda>s. toStack (\<lambda>_. 8) (Raw s)) =
     Inr [[], [16], [0x81], [1, 2, 3]]"
  using script_toStack_roundtrip [of "[[], [16], [0x81], [1, 2, 3]]" "\<lambda>_. 9" "\<lambda>_. 8"] by simp



end
