(* ===== verification/Script_Asm.thy ===== *)
theory Script_Asm
  imports Script
begin

text \<open>
  The textual form of scripts, \<open>toASM\<close> and \<open>fromASM\<close> of \<open>ecashjs-lib/src/script.js\<close>, with
  the parts of the JavaScript library they use: hexadecimal \<open>Buffer\<close> strings, \<open>split\<close>,
  \<open>join\<close> and the lookup of a property in the opcode table.
\<close>

subsection \<open>Hexadecimal strings\<close>

definition hex_digits :: string where
  "hex_digits = ''0123456789abcdef''"

definition hex_of_byte :: "byte \<Rightarrow> string" where
  "hex_of_byte x = [hex_digits ! (unat x div 16), hex_digits ! (unat x mod 16)]"

definition buffer_hex :: "buffer \<Rightarrow> string" where
  "buffer_hex b = concat (map hex_of_byte b)"

definition hex_value :: "char \<Rightarrow> nat option" where
  "hex_value c =
     (let n = of_char c :: nat in
      if 48 \<le> n \<and> n \<le> 57 then Some (n - 48)
      else if 97 \<le> n \<and> n \<le> 102 then Some (n - 87)
      else if 65 \<le> n \<and> n \<le> 70 then Some (n - 55)
      else None)"

text \<open>\<open>Buffer.from(s, 'hex')\<close> stops at the first pair that is not hexadecimal and drops a
  single last digit.\<close>

fun buffer_from_hex :: "string \<Rightarrow> buffer" where
  "buffer_from_hex (c # d # s) =
     (case (hex_value c, hex_value d) of
        (Some m, Some n) \<Rightarrow> word_of_nat (16 * m + n) # buffer_from_hex s
      | _ \<Rightarrow> [])"
| "buffer_from_hex _ = []"

lemma hex_value_digit: "n < 16 \<Longrightarrow> hex_value (hex_digits ! n) = Some n"
proof -
  have "\<forall>n < 16. hex_value (hex_digits ! n) = Some n" by code_simp
  then show "n < 16 \<Longrightarrow> hex_value (hex_digits ! n) = Some n" by simp
qed

lemma buffer_from_hex_cons: "buffer_from_hex (hex_of_byte x @ s) = x # buffer_from_hex s"
proof -
  have "unat x div 16 < 16" using unat_byte_bound [of x] by linarith
  moreover have "16 * (unat x div 16) + unat x mod 16 = unat x" by simp
  ultimately show ?thesis
    by (simp add: hex_of_byte_def hex_value_digit word_of_nat_unat_byte del: of_nat_add of_nat_mult)
qed

lemma buffer_from_hex_hex: "buffer_from_hex (buffer_hex b) = b"
  by (induction b) (simp_all add: buffer_hex_def buffer_from_hex_cons)

lemma buffer_hex_digits: "list_all (\<lambda>c. c \<in> set hex_digits) (buffer_hex b)"
proof -
  have "length hex_digits = 16" by code_simp
  then have "unat x div 16 < length hex_digits" "unat x mod 16 < length hex_digits" for x :: byte
    using unat_byte_bound [of x] by linarith+
  then show ?thesis
    by (auto simp: list_all_iff buffer_hex_def hex_of_byte_def)
qed

subsection \<open>Splitting and joining\<close>

fun js_split :: "char \<Rightarrow> string \<Rightarrow> string list" where
  "js_split c [] = [[]]"
| "js_split c (x # xs) =
     (if x = c then [] # js_split c xs
      else (case js_split c xs of w # ws \<Rightarrow> (x # w) # ws | [] \<Rightarrow> [[x]]))"

fun js_join :: "char \<Rightarrow> string list \<Rightarrow> string" where
  "js_join c [] = []"
| "js_join c [w] = w"
| "js_join c (w # ws) = w @ c # js_join c ws"

lemma js_split_word: "c \<notin> set w \<Longrightarrow> js_split c w = [w]"
  by (induction w) auto

lemma js_split_append: "c \<notin> set w \<Longrightarrow> js_split c (w @ c # s) = w # js_split c s"
  by (induction w) auto

lemma js_split_join: "ws \<noteq> [] \<Longrightarrow> list_all (\<lambda>w. c \<notin> set w) ws \<Longrightarrow> js_split c (js_join c ws) = ws"
  by (induction c ws rule: js_join.induct) (simp_all add: js_split_word js_split_append)

subsection \<open>The operations\<close>

text \<open>\<open>OPS[s]\<close> also finds the properties that every object inherits. They are not numbers: the
  later \<open>writeUInt8\<close> turns them into \<open>NaN\<close> and stores the byte \<open>0\<close>.\<close>

definition object_prototype_keys :: "string list" where
  "object_prototype_keys = [''constructor'', ''__defineGetter__'', ''__defineSetter__'', ''hasOwnProperty'',
     ''__lookupGetter__'', ''__lookupSetter__'', ''isPrototypeOf'', ''propertyIsEnumerable'', ''toString'',
     ''valueOf'', ''__proto__'', ''toLocaleString'']"

definition OPS_lookup :: "string \<Rightarrow> int option" where
  "OPS_lookup s = (case map_of OPS s of
     Some n \<Rightarrow> Some n
   | None \<Rightarrow> if s \<in> set object_prototype_keys then Some 0 else None)"

text \<open>\<open>join\<close> prints an \<open>undefined\<close> element as the empty string.\<close>

definition asm_opcode :: "int \<Rightarrow> string" where
  "asm_opcode n = (case REVERSE_OPS n of Some name \<Rightarrow> name | None \<Rightarrow> [])"

definition toASM_chunk :: "chunk \<Rightarrow> string" where
  "toASM_chunk chunk = (case chunk of
     Data b \<Rightarrow> (case asMinimalOP b of None \<Rightarrow> buffer_hex b | Some op \<Rightarrow> asm_opcode op)
   | Op n \<Rightarrow> asm_opcode n)"

fun toASM :: "script \<Rightarrow> string result" where
  "toASM (Raw b) = bindE (decompile (Raw b)) (\<lambda>chunks. Inr (js_join CHR '' '' (map toASM_chunk chunks)))"
| "toASM (Chunks chunks) = Inr (js_join CHR '' '' (map toASM_chunk chunks))"

definition fromASM_chunk :: "string \<Rightarrow> chunk" where
  "fromASM_chunk s = (case OPS_lookup s of Some n \<Rightarrow> Op n | None \<Rightarrow> Data (buffer_from_hex s))"

definition fromASM :: "(nat \<Rightarrow> byte) \<Rightarrow> string \<Rightarrow> buffer result" where
  "fromASM junk asm = compile junk (Chunks (map fromASM_chunk (js_split CHR '' '' asm)))"

subsection \<open>Names and data cannot be confused\<close>

lemma OPS_names:
  "distinct (map fst OPS)"
  "list_all (\<lambda>(s, _). CHR '' '' \<notin> set s) OPS"
  "list_all (\<lambda>(s, _). \<not> list_all (\<lambda>c. c \<in> set hex_digits) s) OPS"
  "list_all (\<lambda>s. \<not> list_all (\<lambda>c. c \<in> set hex_digits) s) object_prototype_keys"
  by (simp add: OPS_def, simp add: OPS_def, code_simp, code_simp)

lemma REVERSE_OPS_inverse: "REVERSE_OPS n = Some s \<Longrightarrow> map_of OPS s = Some n"
  using OPS_names(1) by (auto simp: REVERSE_OPS_map_of intro: map_of_is_SomeI dest!: map_of_SomeD)

lemma OPS_lookup_hex: "OPS_lookup (buffer_hex b) = None"
proof -
  have "map_of OPS (buffer_hex b) = None"
    using OPS_names(3) buffer_hex_digits [of b] by (force simp: map_of_eq_None_iff list_all_iff)
  moreover have "buffer_hex b \<notin> set object_prototype_keys"
    using OPS_names(4) buffer_hex_digits [of b] by (auto simp: list_all_iff)
  ultimately show ?thesis by (simp add: OPS_lookup_def)
qed

lemma toASM_chunk_no_space: "CHR '' '' \<notin> set (toASM_chunk c)"
proof -
  have "CHR '' '' \<notin> set hex_digits" by code_simp
  then have "CHR '' '' \<notin> set (buffer_hex b)" for b
    using buffer_hex_digits [of b] by (auto simp: list_all_iff)
  moreover have "CHR '' '' \<notin> set (asm_opcode n)" for n
  proof (cases "REVERSE_OPS n")
    case (Some s)
    then have "(s, n) \<in> set OPS" by (intro map_of_SomeD REVERSE_OPS_inverse)
    then show ?thesis using OPS_names(2) Some by (auto simp: asm_opcode_def list_all_iff)
  qed (simp add: asm_opcode_def)
  ultimately show ?thesis by (auto simp: toASM_chunk_def split: chunk.splits option.splits)
qed

definition chunk_named :: "chunk \<Rightarrow> bool" where
  "chunk_named c = (case c of Op n \<Rightarrow> REVERSE_OPS n \<noteq> None | Data _ \<Rightarrow> True)"

lemma asMinimalOP_named: "asMinimalOP b = Some op \<Longrightarrow> REVERSE_OPS op \<noteq> None"
proof -
  assume "asMinimalOP b = Some op"
  then have "op \<in> set (0 # 79 # [81..96])"
    using asMinimalOP_Some [of b op] by (simp only: set_simps set_upto atLeastAtMost_iff insert_iff)
  moreover have "list_all (\<lambda>op. map_of (rev (map (\<lambda>(op, c). (c, op)) OPS)) op \<noteq> None) (0 # 79 # [81..96])"
    by code_simp
  ultimately show ?thesis by (auto simp: list_all_iff REVERSE_OPS_map_of)
qed

lemma fromASM_toASM_opcode: "REVERSE_OPS n \<noteq> None \<Longrightarrow> fromASM_chunk (asm_opcode n) = Op n"
  by (cases "REVERSE_OPS n") (simp_all add: fromASM_chunk_def asm_opcode_def OPS_lookup_def REVERSE_OPS_inverse)

lemma fromASM_hex: "fromASM_chunk (buffer_hex b) = Data b"
  by (simp add: fromASM_chunk_def OPS_lookup_hex buffer_from_hex_hex)

lemma fromASM_toASM_chunk: "chunk_named c \<Longrightarrow> fromASM_chunk (toASM_chunk c) = normal_chunk c"
  by (simp add: toASM_chunk_def chunk_named_def normal_chunk_def minimal_chunk_def fromASM_hex
      fromASM_toASM_opcode asMinimalOP_named split: chunk.splits option.splits)

lemma normal_chunk_bytes: "chunk_bytes (normal_chunk c) = chunk_bytes c"
  by (auto simp: normal_chunk_def minimal_chunk_def chunk_bytes_def split: chunk.splits option.splits)

lemma normal_chunk_ok: "chunk_ok c \<Longrightarrow> chunk_ok (normal_chunk c)"
  by (auto simp: normal_chunk_def minimal_chunk_def chunk_ok_def split: chunk.splits option.splits
      dest: asMinimalOP_Some)

lemma fromASM_toASM_chunks:
  assumes "cs \<noteq> []" "list_all chunk_named cs"
  shows "fromASM junk (js_join CHR '' '' (map toASM_chunk cs)) = compile junk (Chunks (map normal_chunk cs))"
proof -
  have "js_split CHR '' '' (js_join CHR '' '' (map toASM_chunk cs)) = map toASM_chunk cs"
    using assms(1) by (intro js_split_join) (auto simp: list_all_iff toASM_chunk_no_space)
  moreover have "map (fromASM_chunk \<circ> toASM_chunk) cs = map normal_chunk cs"
    using assms(2) by (simp add: list_all_iff fromASM_toASM_chunk)
  ultimately show ?thesis by (simp add: fromASM_def del: compile.simps map_eq_conv)
qed

subsection \<open>Properties\<close>

text \<open>C30. Reading back the text that \<open>toASM\<close> prints gives the compiled script, for every non-empty list
  of chunks whose opcodes have a name.\<close>

theorem asm_roundtrip:
  assumes "cs \<noteq> []" "list_all chunk_ok cs" "list_all chunk_named cs"
  shows "bindE (toASM (Chunks cs)) (fromASM junk) = compile junk (Chunks cs)"
proof -
  have "list_all chunk_ok (map normal_chunk cs)"
    using assms(2) by (auto simp: list_all_iff normal_chunk_ok)
  then show ?thesis
    using assms compile_bytes [of cs junk] compile_bytes [of "map normal_chunk cs" junk]
    by (simp add: fromASM_toASM_chunks comp_def normal_chunk_bytes del: compile.simps)
qed

theorem asm_roundtrip_witness:
  "bindE (toASM (Chunks [Op OP_DUP, Data [0xab, 0xcd], Data [7]])) (fromASM (\<lambda>_. 9)) =
     Inr [0x76, 2, 0xab, 0xcd, 0x57]"
proof -
  have "list_all chunk_named [Op OP_DUP, Data [0xab, 0xcd], Data [7]]"
    unfolding chunk_named_def REVERSE_OPS_map_of by code_simp
  moreover have "list_all chunk_ok [Op OP_DUP, Data [0xab, 0xcd], Data [7]]"
    by (simp add: chunk_ok_def)
  moreover have "compile (\<lambda>_. 9) (Chunks [Op OP_DUP, Data [0xab, 0xcd], Data [7]]) = Inr [0x76, 2, 0xab, 0xcd, 0x57]"
    by code_simp
  ultimately show ?thesis
    using asm_roundtrip [of "[Op OP_DUP, Data [0xab, 0xcd], Data [7]]" "\<lambda>_. 9"] by simp
qed

text \<open>The two exceptions are real: the text of the empty script, and the text of an opcode without a
  name, are both the empty string, which \<open>fromASM\<close> compiles to \<open>OP_0\<close>.\<close>

theorem asm_empty_and_unnamed:
  "toASM (Chunks []) = Inr [] \<and> toASM (Raw [0xc0]) = Inr [] \<and> fromASM junk [] = Inr [OP_0]"
proof -
  have "decompile (Raw [0xc0]) = Inr [Op 0xc0]" by code_simp
  moreover have "REVERSE_OPS 0xc0 = None" unfolding REVERSE_OPS_map_of by code_simp
  moreover have "OPS_lookup [] = None" by code_simp
  moreover have "compile junk (Chunks [Data []]) = Inr [0]"
    using compile_bytes [of "[Data []]" junk] by (simp add: chunk_ok_def chunk_bytes_def)
  ultimately show ?thesis
    by (simp add: toASM_chunk_def asm_opcode_def fromASM_def fromASM_chunk_def del: compile.simps decompile.simps)
qed

end
