(* ===== verification/Transaction.thy ===== *)
theory Transaction
  imports Bufferutils Crypto Script Script_Asm
begin

text \<open>
  \<open>ecashjs-lib/src/transaction.js\<close>: transactions, their wire format and their size. The byte
  string of a transaction (\<open>tx_bytes\<close>) is the abstract specification; \<open>__toBuffer\<close> writes it and
  \<open>fromBuffer\<close> reads it back. The codecs of inputs and outputs are sublocales of
  \<open>varuint_codec\<close>.
\<close>

subsection \<open>State\<close>

record txin =
  in_hash :: buffer
  in_index :: int
  in_script :: buffer
  in_sequence :: int
  in_witness :: "buffer list"

text \<open>An output carries a number, or, in the blanked outputs of a signature hash, the eight bytes of
  its value; a missing property is \<open>None\<close>.\<close>

record txout =
  out_script :: buffer
  out_value :: "int option"
  out_valueBuffer :: "buffer option"

record transaction =
  tx_version :: int
  tx_locktime :: int
  tx_ins :: "txin list"
  tx_outs :: "txout list"

definition new_Transaction :: transaction where
  "new_Transaction = \<lparr>tx_version = 2, tx_locktime = 0, tx_ins = [], tx_outs = []\<rparr>"

abbreviation (input) DEFAULT_SEQUENCE :: int where
  "DEFAULT_SEQUENCE \<equiv> 0xffffffff"

abbreviation (input) SIGHASH_ALL :: int where
  "SIGHASH_ALL \<equiv> 0x01"

abbreviation (input) SIGHASH_NONE :: int where
  "SIGHASH_NONE \<equiv> 0x02"

abbreviation (input) SIGHASH_SINGLE :: int where
  "SIGHASH_SINGLE \<equiv> 0x03"

abbreviation (input) SIGHASH_ANYONECANPAY :: int where
  "SIGHASH_ANYONECANPAY \<equiv> 0x80"

abbreviation (input) SIGHASH_BITCOINCASHBIP143 :: int where
  "SIGHASH_BITCOINCASHBIP143 \<equiv> 0x40"

abbreviation (input) ADVANCED_TRANSACTION_MARKER :: "'a :: zero" where
  "ADVANCED_TRANSACTION_MARKER \<equiv> 0"

abbreviation (input) ADVANCED_TRANSACTION_FLAG :: "'a :: one" where
  "ADVANCED_TRANSACTION_FLAG \<equiv> 1"

definition ZERO :: buffer where
  "ZERO = replicate 32 0"

definition ONE :: buffer where
  "ONE = replicate 31 0 @ [1]"

definition VALUE_UINT64_MAX :: buffer where
  "VALUE_UINT64_MAX = replicate 8 0xff"

definition BLANK_OUTPUT :: txout where
  "BLANK_OUTPUT = \<lparr>out_script = [], out_value = None, out_valueBuffer = Some VALUE_UINT64_MAX\<rparr>"

subsection \<open>Inspection and update\<close>

definition isCoinbaseHash :: "buffer \<Rightarrow> bool result" where
  "isCoinbaseHash buffer =
     bindE (assertE (length buffer = 32) typeforce_error) (\<lambda>_.
       Inr (list_all (\<lambda>i. buffer ! i = 0) [0..<32]))"

definition isCoinbase :: "transaction \<Rightarrow> bool result" where
  "isCoinbase tx = (if length (tx_ins tx) = 1 then isCoinbaseHash (in_hash (tx_ins tx ! 0)) else Inr False)"

definition addInput ::
    "transaction \<Rightarrow> buffer \<Rightarrow> int \<Rightarrow> int option \<Rightarrow> buffer option \<Rightarrow> (nat \<times> transaction) result" where
  "addInput tx hash index sequence scriptSig =
     bindE (assertE (length hash = 32 \<and> types_UInt32 index \<and> pred_option types_UInt32 sequence) typeforce_error) (\<lambda>_.
       Inr (length (tx_ins tx),
         tx\<lparr>tx_ins := tx_ins tx @ [
           \<lparr>in_hash = hash, in_index = index,
            in_script = (case scriptSig of Some s \<Rightarrow> s | None \<Rightarrow> []),
            in_sequence = (case sequence of Some n \<Rightarrow> n | None \<Rightarrow> DEFAULT_SEQUENCE),
            in_witness = []\<rparr>]\<rparr>))"

definition addOutput :: "transaction \<Rightarrow> buffer \<Rightarrow> int \<Rightarrow> (nat \<times> transaction) result" where
  "addOutput tx scriptPubKey value =
     bindE (assertE (types_Satoshi value) typeforce_error) (\<lambda>_.
       Inr (length (tx_outs tx),
         tx\<lparr>tx_outs := tx_outs tx @ [
           \<lparr>out_script = scriptPubKey, out_value = Some value, out_valueBuffer = None\<rparr>]\<rparr>))"

definition hasWitnesses :: "transaction \<Rightarrow> bool" where
  "hasWitnesses tx = list_ex (\<lambda>x. length (in_witness x) \<noteq> 0) (tx_ins tx)"

text \<open>An assignment to a property of \<open>undefined\<close> throws.\<close>

definition setInputScript :: "transaction \<Rightarrow> nat \<Rightarrow> buffer \<Rightarrow> transaction result" where
  "setInputScript tx index scriptSig =
     (if index < length (tx_ins tx)
      then Inr (tx\<lparr>tx_ins := (tx_ins tx)[index := (tx_ins tx ! index)\<lparr>in_script := scriptSig\<rparr>]\<rparr>)
      else Inl (TypeError ''undefined''))"

definition setWitness :: "transaction \<Rightarrow> nat \<Rightarrow> buffer list \<Rightarrow> transaction result" where
  "setWitness tx index witness =
     (if index < length (tx_ins tx)
      then Inr (tx\<lparr>tx_ins := (tx_ins tx)[index := (tx_ins tx ! index)\<lparr>in_witness := witness\<rparr>]\<rparr>)
      else Inl (TypeError ''undefined''))"

definition clone :: "transaction \<Rightarrow> transaction" where
  "clone tx =
     \<lparr>tx_version = tx_version tx, tx_locktime = tx_locktime tx,
      tx_ins = map (\<lambda>txIn. \<lparr>in_hash = in_hash txIn, in_index = in_index txIn, in_script = in_script txIn,
        in_sequence = in_sequence txIn, in_witness = in_witness txIn\<rparr>) (tx_ins tx),
      tx_outs = map (\<lambda>txOut. \<lparr>out_script = out_script txOut, out_value = out_value txOut,
        out_valueBuffer = None\<rparr>) (tx_outs tx)\<rparr>"

subsection \<open>Sizes\<close>

definition varSliceSize :: "varuint \<Rightarrow> buffer \<Rightarrow> nat" where
  "varSliceSize v someScript = vu_encodingLength v (length someScript) + length someScript"

definition vectorSize :: "varuint \<Rightarrow> buffer list \<Rightarrow> nat" where
  "vectorSize v someVector =
     vu_encodingLength v (length someVector) + foldl (\<lambda>sum witness. sum + varSliceSize v witness) 0 someVector"

definition tx_byteLength :: "varuint \<Rightarrow> bool \<Rightarrow> transaction \<Rightarrow> nat" where
  "tx_byteLength v allowWitness tx =
     (let hasWitnesses = allowWitness \<and> hasWitnesses tx in
      (if hasWitnesses then 10 else 8) +
      vu_encodingLength v (length (tx_ins tx)) +
      vu_encodingLength v (length (tx_outs tx)) +
      foldl (\<lambda>sum input. sum + 40 + varSliceSize v (in_script input)) 0 (tx_ins tx) +
      foldl (\<lambda>sum output. sum + 8 + varSliceSize v (out_script output)) 0 (tx_outs tx) +
      (if hasWitnesses then foldl (\<lambda>sum input. sum + vectorSize v (in_witness input)) 0 (tx_ins tx) else 0))"

definition byteLength :: "varuint \<Rightarrow> transaction \<Rightarrow> nat" where
  "byteLength v tx = tx_byteLength v True tx"

definition weight :: "varuint \<Rightarrow> transaction \<Rightarrow> nat" where
  "weight v tx = (let base = tx_byteLength v False tx; total = tx_byteLength v True tx in base * 3 + total)"

definition virtualSize :: "varuint \<Rightarrow> transaction \<Rightarrow> nat" where
  "virtualSize v tx = (weight v tx + 3) div 4"

subsection \<open>Writing\<close>

definition write_txin :: "varuint \<Rightarrow> txin \<Rightarrow> writer" where
  "write_txin v txIn =
     seqS (writeSlice (in_hash txIn))
    (seqS (w_UInt32 (in_index txIn))
    (seqS (writeVarSlice v (in_script txIn))
          (w_UInt32 (in_sequence txIn))))"

definition write_txout :: "varuint \<Rightarrow> txout \<Rightarrow> writer" where
  "write_txout v txOut =
     seqS (case out_valueBuffer txOut of None \<Rightarrow> w_UInt64 (out_value txOut) | Some b \<Rightarrow> writeSlice b)
          (writeVarSlice v (out_script txOut))"

definition write_transaction :: "varuint \<Rightarrow> bool \<Rightarrow> transaction \<Rightarrow> writer" where
  "write_transaction v allowWitness tx =
     (let hasWitnesses = allowWitness \<and> hasWitnesses tx in
      seqS (w_Int32 (tx_version tx))
     (seqS (if hasWitnesses then seqS (w_UInt8 ADVANCED_TRANSACTION_MARKER) (w_UInt8 ADVANCED_TRANSACTION_FLAG)
            else retS ())
     (seqS (w_VarInt v (length (tx_ins tx)))
     (seqS (forS (write_txin v) (tx_ins tx))
     (seqS (w_VarInt v (length (tx_outs tx)))
     (seqS (forS (write_txout v) (tx_outs tx))
     (seqS (if hasWitnesses then forS (\<lambda>input. writeVector v (in_witness input)) (tx_ins tx) else retS ())
           (w_UInt32 (tx_locktime tx)))))))))"

text \<open>\<open>__toBuffer\<close> writes into the buffer it is given, or into a new one; the result is the buffer after
  the writes and the returned view of it.\<close>

definition tx_toBuffer ::
    "varuint \<Rightarrow> (nat \<Rightarrow> byte) \<Rightarrow> transaction \<Rightarrow> buffer option \<Rightarrow> nat option \<Rightarrow> bool \<Rightarrow> (buffer \<times> buffer) result" where
  "tx_toBuffer v junk tx buffer initialOffset allowWitness =
     (let buffer = (case buffer of Some b \<Rightarrow> b | None \<Rightarrow> allocUnsafe junk (tx_byteLength v allowWitness tx));
          offset = (case initialOffset of Some i \<Rightarrow> i | None \<Rightarrow> 0) in
      bindE (write_transaction v allowWitness tx (buffer, offset)) (\<lambda>(_, buffer, offset).
        Inr (buffer, case initialOffset of Some i \<Rightarrow> slice buffer i offset | None \<Rightarrow> buffer)))"

definition toBuffer ::
    "varuint \<Rightarrow> (nat \<Rightarrow> byte) \<Rightarrow> transaction \<Rightarrow> buffer option \<Rightarrow> nat option \<Rightarrow> (buffer \<times> buffer) result" where
  "toBuffer v junk tx buffer initialOffset = tx_toBuffer v junk tx buffer initialOffset True"

definition toHex :: "varuint \<Rightarrow> (nat \<Rightarrow> byte) \<Rightarrow> transaction \<Rightarrow> string result" where
  "toHex v junk tx = bindE (toBuffer v junk tx None None) (\<lambda>(_, b). Inr (buffer_hex b))"

definition getHash :: "hashes \<Rightarrow> varuint \<Rightarrow> (nat \<Rightarrow> byte) \<Rightarrow> transaction \<Rightarrow> buffer result" where
  "getHash h v junk tx = bindE (tx_toBuffer v junk tx None None False) (\<lambda>(_, b). Inr (hash256 h b))"

definition getId :: "hashes \<Rightarrow> varuint \<Rightarrow> (nat \<Rightarrow> byte) \<Rightarrow> transaction \<Rightarrow> string result" where
  "getId h v junk tx = bindE (getHash h v junk tx) (\<lambda>b. Inr (buffer_hex (rev b)))"

subsection \<open>Reading\<close>

definition read_txin :: "varuint \<Rightarrow> txin reader" where
  "read_txin v b =
     bindS (readSlice 32 b) (\<lambda>hash.
     bindS (r_UInt32 b) (\<lambda>index.
     bindS (readVarSlice v b) (\<lambda>script.
     bindS (r_UInt32 b) (\<lambda>sequence.
     retS \<lparr>in_hash = hash, in_index = int index, in_script = script, in_sequence = int sequence,
       in_witness = []\<rparr>))))"

definition read_txout :: "varuint \<Rightarrow> txout reader" where
  "read_txout v b =
     bindS (r_UInt64 b) (\<lambda>value.
     bindS (readVarSlice v b) (\<lambda>script.
     retS \<lparr>out_script = script, out_value = Some (int value), out_valueBuffer = None\<rparr>))"

definition read_marker :: "bool reader" where
  "read_marker b off =
     bindE (readUInt8 b off) (\<lambda>marker.
     bindE (readUInt8 b (off + 1)) (\<lambda>flag.
     if marker = ADVANCED_TRANSACTION_MARKER \<and> flag = ADVANCED_TRANSACTION_FLAG
     then Inr (True, off + 2) else Inr (False, off)))"

definition read_witnesses :: "varuint \<Rightarrow> bool \<Rightarrow> transaction \<Rightarrow> transaction reader" where
  "read_witnesses v marked tx b =
     (if marked then
        bindS (timesS (length (tx_ins tx)) (readVector v b)) (\<lambda>ws.
        let tx = tx\<lparr>tx_ins := map2 (\<lambda>input w. input\<lparr>in_witness := w\<rparr>) (tx_ins tx) ws\<rparr> in
        if \<not> hasWitnesses tx then throwS (Error ''Transaction has superfluous witness data'') else retS tx)
      else retS tx)"

definition read_body :: "varuint \<Rightarrow> int \<Rightarrow> bool \<Rightarrow> transaction reader" where
  "read_body v version marked b =
     bindS (r_VarInt v b) (\<lambda>vinLen.
     bindS (timesS vinLen (read_txin v b)) (\<lambda>ins.
     bindS (r_VarInt v b) (\<lambda>voutLen.
     bindS (timesS voutLen (read_txout v b)) (\<lambda>outs.
     bindS (read_witnesses v marked (new_Transaction\<lparr>tx_version := version, tx_ins := ins, tx_outs := outs\<rparr>) b) (\<lambda>tx.
     bindS (r_UInt32 b) (\<lambda>locktime.
     retS (tx\<lparr>tx_locktime := int locktime\<rparr>)))))))"

definition read_transaction :: "varuint \<Rightarrow> transaction reader" where
  "read_transaction v b =
     bindS (r_Int32 b) (\<lambda>version.
     bindS (read_marker b) (\<lambda>marked.
     read_body v version marked b))"

definition tx_fromBuffer :: "varuint \<Rightarrow> buffer \<Rightarrow> bool \<Rightarrow> transaction result" where
  "tx_fromBuffer v buffer noStrict =
     bindE (read_transaction v buffer 0) (\<lambda>(tx, offset).
       if noStrict then Inr tx
       else if offset \<noteq> length buffer then Inl (Error ''Transaction has unexpected data'')
       else Inr tx)"

definition tx_fromHex :: "varuint \<Rightarrow> string \<Rightarrow> transaction result" where
  "tx_fromHex v hex = tx_fromBuffer v (buffer_from_hex hex) False"

subsection \<open>The format\<close>

definition txin_bytes :: "txin \<Rightarrow> buffer" where
  "txin_bytes i = in_hash i @ le_bytes 4 (nat (in_index i)) @ varslice_bytes (in_script i) @ le_bytes 4 (nat (in_sequence i))"

definition txout_bytes :: "txout \<Rightarrow> buffer" where
  "txout_bytes o1 = (case out_valueBuffer o1 of Some b \<Rightarrow> b | None \<Rightarrow> le_bytes 8 (nat (the (out_value o1)))) @
     varslice_bytes (out_script o1)"

definition tx_wire :: "bool \<Rightarrow> transaction \<Rightarrow> buffer" where
  "tx_wire w tx =
     le_bytes 4 (nat (tx_version tx mod 2 ^ 32)) @ (if w then [0, 1] else []) @
     compactSize (length (tx_ins tx)) @ concat (map txin_bytes (tx_ins tx)) @
     compactSize (length (tx_outs tx)) @ concat (map txout_bytes (tx_outs tx)) @
     (if w then concat (map (vector_bytes \<circ> in_witness) (tx_ins tx)) else []) @
     le_bytes 4 (nat (tx_locktime tx))"

definition tx_bytes :: "bool \<Rightarrow> transaction \<Rightarrow> buffer" where
  "tx_bytes allowWitness tx = tx_wire (allowWitness \<and> hasWitnesses tx) tx"

definition txin_ok :: "txin \<Rightarrow> bool" where
  "txin_ok i \<longleftrightarrow> length (in_hash i) = 32 \<and> types_UInt32 (in_index i) \<and> varslice_ok (in_script i) \<and>
     types_UInt32 (in_sequence i) \<and> vector_ok (in_witness i)"

definition txout_ok :: "txout \<Rightarrow> bool" where
  "txout_ok o1 \<longleftrightarrow> varslice_ok (out_script o1) \<and>
     (case out_valueBuffer o1 of Some b \<Rightarrow> length b = 8
      | None \<Rightarrow> (case out_value o1 of Some x \<Rightarrow> types_UInt53 x | None \<Rightarrow> False))"

definition tx_ok :: "transaction \<Rightarrow> bool" where
  "tx_ok tx \<longleftrightarrow> - (2 ^ 31) \<le> tx_version tx \<and> tx_version tx < 2 ^ 31 \<and> types_UInt32 (tx_locktime tx) \<and>
     length (tx_ins tx) < 2 ^ 53 \<and> length (tx_outs tx) < 2 ^ 53 \<and>
     list_all txin_ok (tx_ins tx) \<and> list_all txout_ok (tx_outs tx)"

text \<open>Outputs with a number for their value, as \<open>addOutput\<close> and \<open>fromBuffer\<close> make them.\<close>

definition txout_plain :: "txout \<Rightarrow> bool" where
  "txout_plain o1 \<longleftrightarrow> txout_ok o1 \<and> out_valueBuffer o1 = None"

definition txin_bare :: "txin \<Rightarrow> bool" where
  "txin_bare i \<longleftrightarrow> txin_ok i \<and> in_witness i = []"

lemma hash_read: "length s = 32 \<Longrightarrow> reads (readSlice 32) s s"
  by (rule reads_slice) simp

context varuint_codec
begin

lemma writes_txin: "txin_ok i \<Longrightarrow> writes (write_txin v i) (txin_bytes i)"
  unfolding write_txin_def txin_bytes_def txin_ok_def types_UInt32_def
  by (intro writes_seq writes_slice writes_UInt32 vs.wr_enc) auto

lemma writes_txout: "txout_ok o1 \<Longrightarrow> writes (write_txout v o1) (txout_bytes o1)"
  unfolding write_txout_def txout_bytes_def txout_ok_def types_UInt53_def
  by (intro writes_seq vs.wr_enc) (auto split: option.splits intro!: wire_intros)

lemma reads_txin:
  assumes "txin_bare i"
  shows "reads (read_txin v) (txin_bytes i) i"
proof -
  have i: "length (in_hash i) = 32" "nat (in_index i) < 2 ^ 32" "varslice_ok (in_script i)"
    "nat (in_sequence i) < 2 ^ 32" "0 \<le> in_index i" "0 \<le> in_sequence i" "in_witness i = []"
    using assms by (auto simp: txin_bare_def txin_ok_def types_UInt32_def nat_less_iff)
  show ?thesis
    unfolding read_txin_def txin_bytes_def
    by (rule reads_bind, rule hash_read [OF i(1)], rule reads_bind, rule reads_UInt32 [OF i(2)],
        rule reads_bind, rule vs.rd_enc [OF i(3)], rule reads_map_eq, rule reads_UInt32 [OF i(4)]) (simp add: i)
qed

lemma reads_txout:
  assumes "txout_plain o1"
  shows "reads (read_txout v) (txout_bytes o1) o1"
proof -
  obtain x where x: "nat x < 2 ^ 53" "varslice_ok (out_script o1)" "out_value o1 = Some x" "0 \<le> x" "out_valueBuffer o1 = None"
    using assms by (auto simp: txout_plain_def txout_ok_def types_UInt53_def nat_less_iff split: option.splits)
  have "reads (read_txout v) (le_bytes 8 (nat x) @ varslice_bytes (out_script o1)) o1"
    unfolding read_txout_def
    by (rule reads_bind, rule reads_UInt64 [OF x(1)], rule reads_map_eq, rule vs.rd_enc [OF x(2)]) (simp add: x)
  then show ?thesis using x by (simp add: txout_bytes_def)
qed

lemma length_varslice: "varslice_ok s \<Longrightarrow> length (varslice_bytes s) = varSliceSize v s"
  by (simp add: varslice_bytes_def varSliceSize_def varslice_ok_def varuint_length)

lemma length_vector: "vector_ok xs \<Longrightarrow> length (vector_bytes xs) = vectorSize v xs"
proof -
  assume xs: "vector_ok xs"
  then have "length (concat (map varslice_bytes xs)) = (\<Sum>x\<leftarrow>xs. varSliceSize v x)"
    by (auto simp: vector_ok_def length_concat list_all_iff length_varslice comp_def intro!: arg_cong [where f = sum_list])
  then show ?thesis
    using xs by (simp add: vector_bytes_def vectorSize_def vector_ok_def varuint_length foldl_size)
qed

lemma length_txin: "txin_ok i \<Longrightarrow> length (txin_bytes i) = 40 + varSliceSize v (in_script i)"
  by (simp add: txin_bytes_def txin_ok_def length_varslice)

lemma length_txout: "txout_ok o1 \<Longrightarrow> length (txout_bytes o1) = 8 + varSliceSize v (out_script o1)"
  by (auto simp: txout_bytes_def txout_ok_def length_varslice split: option.splits)

lemma length_concat_ok:
  "list_all ok xs \<Longrightarrow> (\<And>x. ok x \<Longrightarrow> length (f x) = g x) \<Longrightarrow> length (concat (map f xs)) = (\<Sum>x\<leftarrow>xs. g x)"
  by (induction xs) auto

lemma tx_byteLength_bytes: "tx_ok tx \<Longrightarrow> tx_byteLength v w tx = length (tx_bytes w tx)"
proof -
  assume ok: "tx_ok tx"
  have ins: "length (concat (map txin_bytes (tx_ins tx))) = (\<Sum>i\<leftarrow>tx_ins tx. 40 + varSliceSize v (in_script i))"
    using ok by (intro length_concat_ok [of txin_ok]) (auto simp: tx_ok_def length_txin)
  have outs: "length (concat (map txout_bytes (tx_outs tx))) = (\<Sum>o1\<leftarrow>tx_outs tx. 8 + varSliceSize v (out_script o1))"
    using ok by (intro length_concat_ok [of txout_ok]) (auto simp: tx_ok_def length_txout)
  have wits: "length (concat (map (vector_bytes \<circ> in_witness) (tx_ins tx))) = (\<Sum>i\<leftarrow>tx_ins tx. vectorSize v (in_witness i))"
    using ok by (intro length_concat_ok [of txin_ok]) (auto simp: tx_ok_def txin_ok_def length_vector)
  show ?thesis
    using ok unfolding tx_byteLength_def tx_bytes_def tx_wire_def Let_def add.assoc foldl_size
    by (simp add: ins outs wits varuint_length tx_ok_def)
qed

lemma writes_transaction:
  assumes ok: "tx_ok tx"
  shows "writes (write_transaction v w tx) (tx_bytes w tx)"
proof -
  have mark: "writes (seqS (w_UInt8 0) (w_UInt8 1)) [0, 1]"
    using writes_seq [OF writes_UInt8 [of 0] writes_UInt8 [of 1]] by simp
  have wits: "writes (forS (\<lambda>i. writeVector v (in_witness i)) (tx_ins tx)) (concat (map (vector_bytes \<circ> in_witness) (tx_ins tx)))"
    using ok by (intro writes_for) (auto simp: tx_ok_def txin_ok_def list_all_iff intro: vec.wr_enc)
  have ins: "writes (forS (write_txin v) (tx_ins tx)) (concat (map txin_bytes (tx_ins tx)))"
    using ok by (intro writes_for writes_txin) (auto simp: tx_ok_def list_all_iff)
  have outs: "writes (forS (write_txout v) (tx_outs tx)) (concat (map txout_bytes (tx_outs tx)))"
    using ok by (intro writes_for writes_txout) (auto simp: tx_ok_def list_all_iff)
  have "tx_version tx < 2 ^ 31" "- (2 ^ 31) \<le> tx_version tx" "0 \<le> tx_locktime tx" "tx_locktime tx < 2 ^ 32"
    "length (tx_ins tx) < 2 ^ 53" "length (tx_outs tx) < 2 ^ 53"
    using ok by (auto simp: tx_ok_def types_UInt32_def)
  then show ?thesis
    unfolding write_transaction_def tx_bytes_def tx_wire_def Let_def
    by (intro writes_seq writes_Int32 writes_VarInt writes_UInt32 ins outs) (auto intro: mark wits writes_ret)
qed

text \<open>The result of \<open>__toBuffer\<close>, in a fresh buffer and in a given one.\<close>

lemma tx_toBuffer_fresh:
  assumes "tx_ok tx"
  shows "tx_toBuffer v junk tx None None w = Inr (tx_bytes w tx, tx_bytes w tx)"
proof -
  have "write_transaction v w tx (allocUnsafe junk (tx_byteLength v w tx), 0) = Inr ((), tx_bytes w tx, length (tx_bytes w tx))"
    using tx_byteLength_bytes [OF assms] by (intro writes_run writes_transaction assms) simp
  then show ?thesis by (simp add: tx_toBuffer_def)
qed

lemma tx_toBuffer_at:
  assumes "tx_ok tx" "i + length (tx_bytes w tx) \<le> length b"
  shows "tx_toBuffer v junk tx (Some b) (Some i) w = Inr (put b i (tx_bytes w tx), tx_bytes w tx)"
proof -
  have "write_transaction v w tx (b, i) = Inr ((), put b i (tx_bytes w tx), i + length (tx_bytes w tx))"
    by (intro writes_at writes_transaction assms)
  moreover have "slice (put b i (tx_bytes w tx)) i (i + length (tx_bytes w tx)) = tx_bytes w tx"
    using assms(2) by (simp add: slice_def put_def)
  ultimately show ?thesis by (simp add: tx_toBuffer_def)
qed

end

sublocale varuint_codec \<subseteq> tin: wire_codec "write_txin v" "read_txin v" txin_bytes txin_bare
proof (unfold_locales, goal_cases)
  case (1 x)
  then show ?case unfolding txin_bare_def by (intro writes_txin) simp
next
  case (2 x)
  then show ?case by (rule reads_txin)
qed

sublocale varuint_codec \<subseteq> tout: wire_codec "write_txout v" "read_txout v" txout_bytes txout_plain
proof (unfold_locales, goal_cases)
  case (1 x)
  then show ?case unfolding txout_plain_def by (intro writes_txout) simp
next
  case (2 x)
  then show ?case by (rule reads_txout)
qed

subsection \<open>Reading back\<close>

lemma reads_marker: "reads read_marker [0, 1] True"
  by (simp add: reads_def read_marker_def readUInt8_eq nth_append)

lemma reads_no_marker:
  assumes "reads (k False) (x # y # zs) r" "\<not> (x = 0 \<and> y = 1)"
  shows "reads (\<lambda>b. bindS (read_marker b) (\<lambda>w. k w b)) (x # y # zs) r"
  unfolding reads_def
proof (intro allI)
  fix pre suf :: buffer
  have "\<not> (unat x = 0 \<and> unat y = 1)"
    using assms(2) by (auto simp: word_unat_eq_iff)
  then have "read_marker (pre @ (x # y # zs) @ suf) (length pre) = Inr (False, length pre)"
    by (auto simp: read_marker_def readUInt8_eq nth_append)
  then show "bindS (read_marker (pre @ (x # y # zs) @ suf)) (\<lambda>w. k w (pre @ (x # y # zs) @ suf)) (length pre) =
      Inr (r, length pre + length (x # y # zs))"
    using readsD [OF assms(1), of pre suf] by (simp add: bindS_def del: append_Cons)
qed

text \<open>The marker cannot be mistaken for the number of inputs, unless there are none and one output.\<close>

definition tx_unmarked :: "transaction \<Rightarrow> bool" where
  "tx_unmarked tx \<longleftrightarrow> tx_ins tx \<noteq> [] \<or> length (tx_outs tx) \<noteq> 1"

lemma compactSize_first:
  assumes "\<not> (m = 0 \<and> n = 1)" "0 < length zs"
  obtains x y ws where "compactSize m @ (if m = 0 then [] else ys) @ compactSize n @ zs = x # y # ws" "\<not> (x = 0 \<and> y = 1)"
proof (cases "m = 0")
  case True
  obtain y ws where y: "compactSize n = y # ws" using compactSize_pos(2) list.exhaust by blast
  have "y \<noteq> 1" using assms(1) True compactSize_hd_eq [of 1 n] y by auto
  then show ?thesis using that [of 0 y "ws @ zs"] True y by (simp add: compactSize_def)
next
  case False
  obtain x ws where x: "compactSize m = x # ws" using compactSize_pos(2) list.exhaust by blast
  have "x \<noteq> 0" using False compactSize_hd_eq [of 0 m] x by auto
  moreover obtain y vs where "ws @ ys @ compactSize n @ zs = y # vs"
    using assms(2) by (cases "ws @ ys @ compactSize n @ zs") auto
  ultimately show ?thesis using that [of x y vs] False x by simp
qed

definition strip_witness :: "txin \<Rightarrow> txin" where
  "strip_witness i = i\<lparr>in_witness := []\<rparr>"

lemma txin_bytes_strip [simp]: "txin_bytes (strip_witness i) = txin_bytes i"
  by (simp add: strip_witness_def txin_bytes_def)

lemma txin_bare_strip: "txin_ok i \<Longrightarrow> txin_bare (strip_witness i)"
  by (simp add: txin_bare_def txin_ok_def strip_witness_def vector_ok_def)

lemma restore_witness: "map2 (\<lambda>i w. i\<lparr>in_witness := w\<rparr>) (map strip_witness ins) (map in_witness ins) = ins"
  by (induction ins) (auto simp: strip_witness_def)

lemma strip_bare: "\<not> hasWitnesses tx \<Longrightarrow> map strip_witness (tx_ins tx) = tx_ins tx"
  by (auto simp: hasWitnesses_def list_ex_iff strip_witness_def intro!: map_idI)

lemma le_nat_4: "le_nat (take 4 xs) < 4294967296"
  using le_nat_bound [of "take 4 xs"] power_increasing [of "length (take 4 xs)" 4 "256::nat"] by simp

context varuint_codec
begin

lemma reads_ins:
  assumes "list_all txin_ok ins"
  shows "reads (\<lambda>b. timesS (length ins) (read_txin v b)) (concat (map txin_bytes ins)) (map strip_witness ins)"
  using tin.codec_reads_list [of "map strip_witness ins"] assms
  by (simp add: list_all_iff txin_bare_strip comp_def)

lemma reads_vectors:
  assumes "list_all txin_ok ins"
  shows "reads (\<lambda>b. timesS (length ins) (readVector v b)) (concat (map (vector_bytes \<circ> in_witness) ins)) (map in_witness ins)"
  using vec.codec_reads_list [of "map in_witness ins"] assms by (simp add: list_all_iff txin_ok_def comp_def)

lemma reads_witnesses:
  assumes "list_all txin_ok (tx_ins tx)" "marked = hasWitnesses tx"
  shows "reads (read_witnesses v marked (tx\<lparr>tx_ins := map strip_witness (tx_ins tx)\<rparr>))
    (if marked then concat (map (vector_bytes \<circ> in_witness) (tx_ins tx)) else []) tx"
proof (cases marked)
  case True
  have "reads (\<lambda>b. bindS (timesS (length (tx_ins tx)) (readVector v b)) (\<lambda>ws.
      let tx = tx\<lparr>tx_ins := map2 (\<lambda>input w. input\<lparr>in_witness := w\<rparr>) (map strip_witness (tx_ins tx)) ws\<rparr> in
      if \<not> hasWitnesses tx then throwS (Error ''Transaction has superfluous witness data'') else retS tx))
      (concat (map (vector_bytes \<circ> in_witness) (tx_ins tx)) @ []) tx"
    by (rule reads_bind, rule reads_vectors [OF assms(1)])
      (use True assms(2) in \<open>simp add: restore_witness reads_ret\<close>)
  then show ?thesis using True by (simp add: read_witnesses_def [abs_def])
next
  case False
  then show ?thesis using assms(2) by (simp add: read_witnesses_def [abs_def] strip_bare reads_ret)
qed

lemma reads_body:
  assumes ok: "tx_ok tx" and outs: "list_all txout_plain (tx_outs tx)" and w: "w = hasWitnesses tx"
  shows "reads (read_body v (tx_version tx) w)
    (compactSize (length (tx_ins tx)) @ concat (map txin_bytes (tx_ins tx)) @
     compactSize (length (tx_outs tx)) @ concat (map txout_bytes (tx_outs tx)) @
     (if w then concat (map (vector_bytes \<circ> in_witness) (tx_ins tx)) else []) @
     le_bytes 4 (nat (tx_locktime tx))) tx"
proof -
  have b: "length (tx_ins tx) < 2 ^ 53" "length (tx_outs tx) < 2 ^ 53" "list_all txin_ok (tx_ins tx)"
    "nat (tx_locktime tx) < 2 ^ 32" "0 \<le> tx_locktime tx"
    using ok by (auto simp: tx_ok_def types_UInt32_def nat_less_iff)
  define tx0 where "tx0 = tx\<lparr>tx_locktime := 0\<rparr>"
  have tx0: "new_Transaction\<lparr>tx_version := tx_version tx, tx_ins := map strip_witness (tx_ins tx), tx_outs := tx_outs tx\<rparr> =
      tx0\<lparr>tx_ins := map strip_witness (tx_ins tx0)\<rparr>" "tx_ins tx0 = tx_ins tx" "hasWitnesses tx0 = hasWitnesses tx"
    by (simp_all add: tx0_def new_Transaction_def hasWitnesses_def)
  have wit: "reads (read_witnesses v w (tx0\<lparr>tx_ins := map strip_witness (tx_ins tx0)\<rparr>))
      (if w then concat (map (vector_bytes \<circ> in_witness) (tx_ins tx)) else []) tx0"
    using reads_witnesses [of tx0 w] b(3) w by (simp only: tx0)
  show ?thesis
    unfolding read_body_def
    by (rule reads_bind, rule reads_VarInt [OF b(1)], rule reads_bind, rule reads_ins [OF b(3)],
        rule reads_bind, rule reads_VarInt [OF b(2)], rule reads_bind, rule tout.codec_reads_list [OF outs],
        rule reads_bind, subst tx0(1), rule wit, rule reads_map_eq, rule reads_UInt32 [OF b(4)])
      (simp add: tx0_def b(5))
qed

lemma reads_transaction:
  assumes ok: "tx_ok tx" and outs: "list_all txout_plain (tx_outs tx)" and um: "tx_unmarked tx"
  shows "reads (read_transaction v) (tx_bytes True tx) tx"
proof -
  let ?tail = "(if hasWitnesses tx then concat (map (vector_bytes \<circ> in_witness) (tx_ins tx)) else []) @
     le_bytes 4 (nat (tx_locktime tx))"
  let ?body = "compactSize (length (tx_ins tx)) @ concat (map txin_bytes (tx_ins tx)) @
     compactSize (length (tx_outs tx)) @ concat (map txout_bytes (tx_outs tx)) @ ?tail"
  have body: "reads (read_body v (tx_version tx) (hasWitnesses tx)) ?body tx"
    by (rule reads_body [OF ok outs refl])
  have "reads (\<lambda>b. bindS (read_marker b) (\<lambda>marked. read_body v (tx_version tx) marked b))
      ((if hasWitnesses tx then [0, 1] else []) @ ?body) tx"
  proof (cases "hasWitnesses tx")
    case True
    show ?thesis
      by (simp only: True if_True, rule reads_bind, rule reads_marker) (use body True in simp)
  next
    case False
    have c: "\<not> (length (tx_ins tx) = 0 \<and> length (tx_outs tx) = 1)" using um by (auto simp: tx_unmarked_def)
    have "?body = compactSize (length (tx_ins tx)) @ (if length (tx_ins tx) = 0 then [] else concat (map txin_bytes (tx_ins tx))) @
        compactSize (length (tx_outs tx)) @ concat (map txout_bytes (tx_outs tx)) @ ?tail"
      by simp
    then obtain x y ws where xy: "?body = x # y # ws" "\<not> (x = 0 \<and> y = 1)"
      using compactSize_first [OF c, where zs = "concat (map txout_bytes (tx_outs tx)) @ ?tail"
          and ys = "concat (map txin_bytes (tx_ins tx))"] by auto
    show ?thesis
      using reads_no_marker [where k = "read_body v (tx_version tx)" and x = x and y = y and zs = ws and r = tx] body xy False by simp
  qed
  moreover have "reads r_Int32 (le_bytes 4 (nat (tx_version tx mod 2 ^ 32))) (tx_version tx)"
    using ok by (intro reads_Int32) (auto simp: tx_ok_def)
  ultimately show ?thesis
    unfolding read_transaction_def tx_bytes_def tx_wire_def by (simp add: reads_bind)
qed

text \<open>Witness data that is all empty is refused.\<close>

lemma fails_witnesses:
  assumes "list_all txin_ok (tx_ins tx)" "\<not> hasWitnesses tx"
  shows "fails (read_witnesses v True tx) (concat (map (vector_bytes \<circ> in_witness) (tx_ins tx)))
    (Error ''Transaction has superfluous witness data'')"
proof -
  have "map2 (\<lambda>input w. input\<lparr>in_witness := w\<rparr>) (tx_ins tx) (map in_witness (tx_ins tx)) = tx_ins tx"
    using restore_witness [of "tx_ins tx"] strip_bare [OF assms(2)] by simp
  then have "fails (\<lambda>b. bindS (timesS (length (tx_ins tx)) (readVector v b)) (\<lambda>ws.
      let tx = tx\<lparr>tx_ins := map2 (\<lambda>input w. input\<lparr>in_witness := w\<rparr>) (tx_ins tx) ws\<rparr> in
      if \<not> hasWitnesses tx then throwS (Error ''Transaction has superfluous witness data'') else retS tx))
      (concat (map (vector_bytes \<circ> in_witness) (tx_ins tx)) @ []) (Error ''Transaction has superfluous witness data'')"
    by - (rule fails_bind, rule reads_vectors [OF assms(1)], use assms(2) in \<open>simp add: fails_def\<close>)
  then show ?thesis by (simp add: read_witnesses_def [abs_def])
qed

lemma fails_superfluous:
  assumes ok: "tx_ok tx" and outs: "list_all txout_plain (tx_outs tx)" and w: "\<not> hasWitnesses tx"
  shows "fails (read_transaction v) (tx_wire True tx) (Error ''Transaction has superfluous witness data'')"
proof -
  have b: "length (tx_ins tx) < 2 ^ 53" "length (tx_outs tx) < 2 ^ 53" "list_all txin_ok (tx_ins tx)"
    "- (2 ^ 31) \<le> tx_version tx" "tx_version tx < 2 ^ 31"
    using ok by (auto simp: tx_ok_def)
  have tx0: "tx_ins (new_Transaction\<lparr>tx_version := tx_version tx, tx_ins := map strip_witness (tx_ins tx), tx_outs := tx_outs tx\<rparr>) = tx_ins tx"
    using strip_bare [OF w] by simp
  then have wit: "fails (read_witnesses v True (new_Transaction\<lparr>tx_version := tx_version tx,
      tx_ins := map strip_witness (tx_ins tx), tx_outs := tx_outs tx\<rparr>))
      (concat (map (vector_bytes \<circ> in_witness) (tx_ins tx))) (Error ''Transaction has superfluous witness data'')"
    using fails_witnesses [of "new_Transaction\<lparr>tx_version := tx_version tx,
      tx_ins := map strip_witness (tx_ins tx), tx_outs := tx_outs tx\<rparr>"] b(3) w by (simp add: hasWitnesses_def)
  show ?thesis
    unfolding read_transaction_def tx_wire_def read_body_def if_True
    by (rule fails_bind, rule reads_Int32 [OF b(4,5)], rule fails_bind, rule reads_marker,
        rule fails_bind, rule reads_VarInt [OF b(1)], rule fails_bind, rule reads_ins [OF b(3)],
        rule fails_bind, rule reads_VarInt [OF b(2)], rule fails_bind, rule tout.codec_reads_list [OF outs],
        rule fails_first, rule wit)
qed

subsection \<open>Everything that is read is well-formed\<close>

lemma readVarSlice_ok: "readVarSlice v b s = Inr (x, s') \<Longrightarrow> varslice_ok x"
  by (auto simp: readVarSlice_def bindS_Inr_iff r_VarInt_def readSlice_def varslice_ok_def slice_def
      dest!: varuint_range)

lemma readVector_ok: "readVector v b s = Inr (x, s') \<Longrightarrow> vector_ok x"
  by (auto simp: readVector_def bindS_Inr_iff r_VarInt_def vector_ok_def
      dest!: varuint_range dest: timesS_length timesS_all [OF _ readVarSlice_ok])

lemma read_txin_ok: "read_txin v b s = Inr (x, s') \<Longrightarrow> txin_bare x"
  by (auto simp: read_txin_def bindS_Inr_iff readSlice_def r_UInt32_def fetch_def readUInt32LE_def readUIntLE_def
      txin_bare_def txin_ok_def types_UInt32_def vector_ok_def slice_def le_nat_4
      split: if_splits dest: readVarSlice_ok)

lemma read_txout_ok: "read_txout v b s = Inr (x, s') \<Longrightarrow> txout_plain x"
  by (auto simp: read_txout_def bindS_Inr_iff r_UInt64_def fetch_def readUInt64LE_def verifuint_def Let_def
      txout_plain_def txout_ok_def types_UInt53_def split: if_splits dest: readVarSlice_ok)

lemma read_witnesses_ok:
  assumes "read_witnesses v marked tx b s = Inr (tx', s')" "tx_ok tx" "list_all txout_plain (tx_outs tx)"
  shows "tx_ok tx' \<and> list_all txout_plain (tx_outs tx')"
proof (cases marked)
  case True
  then obtain ws t where ws: "timesS (length (tx_ins tx)) (readVector v b) s = Inr (ws, t)"
    and tx': "tx' = tx\<lparr>tx_ins := map2 (\<lambda>input w. input\<lparr>in_witness := w\<rparr>) (tx_ins tx) ws\<rparr>"
    using assms(1) by (auto simp: read_witnesses_def bindS_Inr_iff Let_def split: if_splits)
  have "list_all vector_ok ws" "length ws = length (tx_ins tx)"
    using timesS_all [OF ws readVector_ok] timesS_length [OF ws] by auto
  then have "list_all txin_ok (tx_ins tx')"
    using assms(2) by (auto simp: tx' tx_ok_def list_all_length txin_ok_def)
  then show ?thesis
    using assms(2,3) \<open>length ws = _\<close> by (simp add: tx' tx_ok_def)
next
  case False
  then show ?thesis using assms by (simp add: read_witnesses_def)
qed

lemma timesS_r_VarInt: "r_VarInt v b s = Inr (n, s') \<Longrightarrow> n < 2 ^ 53"
  by (auto simp: r_VarInt_def dest: varuint_range)

lemma read_body_ok:
  assumes "read_body v version marked b s = Inr (tx, s')" "- (2 ^ 31) \<le> version" "version < 2 ^ 31"
  shows "tx_ok tx \<and> list_all txout_plain (tx_outs tx)"
proof -
  obtain m s1 ins s2 n s3 outs s4 tx1 s5 lt where
    m: "r_VarInt v b s = Inr (m, s1)" and ins: "timesS m (read_txin v b) s1 = Inr (ins, s2)" and
    n: "r_VarInt v b s2 = Inr (n, s3)" and outs: "timesS n (read_txout v b) s3 = Inr (outs, s4)" and
    w: "read_witnesses v marked (new_Transaction\<lparr>tx_version := version, tx_ins := ins, tx_outs := outs\<rparr>) b s4 = Inr (tx1, s5)" and
    lt: "r_UInt32 b s5 = Inr (lt, s')" and tx: "tx = tx1\<lparr>tx_locktime := int lt\<rparr>"
    using assms(1) unfolding read_body_def bindS_Inr_iff by auto
  have "list_all txin_bare ins" by (rule timesS_all [OF ins], rule read_txin_ok)
  moreover have "list_all txout_plain outs" by (rule timesS_all [OF outs], rule read_txout_ok)
  ultimately have "list_all txin_ok ins" "list_all txout_plain outs" "list_all txout_ok outs"
    by (auto simp: list_all_iff txin_bare_def txout_plain_def)
  moreover have "length ins < 2 ^ 53" "length outs < 2 ^ 53"
    using timesS_length [OF ins] timesS_length [OF outs] timesS_r_VarInt [OF m] timesS_r_VarInt [OF n] by auto
  ultimately have "tx_ok tx1 \<and> list_all txout_plain (tx_outs tx1)"
    using assms(2,3) by (intro read_witnesses_ok [OF w]) (simp_all add: tx_ok_def new_Transaction_def types_UInt32_def)
  moreover have "types_UInt32 (int lt)"
    using lt by (auto simp: r_UInt32_def fetch_def readUInt32LE_def readUIntLE_def types_UInt32_def le_nat_4 split: if_splits)
  ultimately show ?thesis by (simp add: tx tx_ok_def)
qed

lemma readInt32LE_range: "readInt32LE b off = Inr i \<Longrightarrow> - (2 ^ 31) \<le> i \<and> i < 2 ^ 31"
  using le_nat_4 [of "drop off b"] by (auto simp: readInt32LE_def readUIntLE_def split: if_splits)

lemma tx_fromBuffer_ok:
  assumes "tx_fromBuffer v b strict = Inr tx"
  shows "tx_ok tx \<and> list_all txout_plain (tx_outs tx)"
proof -
  obtain version s1 marked s2 s' where "r_Int32 b 0 = Inr (version, s1)" "read_body v version marked b s2 = Inr (tx, s')"
    using assms by (auto simp: tx_fromBuffer_def read_transaction_def bindS_Inr_iff split: if_splits)
  then show ?thesis
    using readInt32LE_range [of b 0 version] by (intro read_body_ok) (auto simp: r_Int32_def fetch_def)
qed

end

subsection \<open>Building a transaction keeps it well-formed\<close>

lemma tx_ok_new: "tx_ok new_Transaction"
  by (simp add: tx_ok_def new_Transaction_def types_UInt32_def)

lemma tx_ok_addInput:
  assumes "addInput tx hash index sequence scriptSig = Inr (i, tx')" "tx_ok tx"
    "pred_option varslice_ok scriptSig" "length (tx_ins tx) + 1 < 2 ^ 53"
  shows "tx_ok tx'"
  using assms by (auto simp: addInput_def assertE_def tx_ok_def txin_ok_def vector_ok_def varslice_ok_def types_UInt32_def
      split: if_splits option.splits)

lemma tx_ok_addOutput:
  assumes "addOutput tx script value = Inr (i, tx')" "tx_ok tx" "varslice_ok script" "length (tx_outs tx) + 1 < 2 ^ 53"
  shows "tx_ok tx'"
  using assms by (auto simp: addOutput_def assertE_def tx_ok_def txout_ok_def types_Satoshi_def split: if_splits)

lemma list_all_modify: "list_all P xs \<Longrightarrow> i < length xs \<Longrightarrow> (\<And>x. P x \<Longrightarrow> P (f x)) \<Longrightarrow> list_all P (xs[i := f (xs ! i)])"
  by (auto simp: list_all_length nth_list_update)

lemma tx_ok_setInputScript:
  assumes "setInputScript tx i script = Inr tx'" "tx_ok tx" "varslice_ok script"
  shows "tx_ok tx'"
proof -
  have "list_all txin_ok (tx_ins tx)" "i < length (tx_ins tx)"
    using assms by (auto simp: tx_ok_def setInputScript_def split: if_splits)
  then have "list_all txin_ok ((tx_ins tx)[i := (tx_ins tx ! i)\<lparr>in_script := script\<rparr>])"
    by (rule list_all_modify) (simp add: txin_ok_def assms(3))
  then show ?thesis using assms by (auto simp: setInputScript_def tx_ok_def split: if_splits)
qed

lemma tx_ok_setWitness:
  assumes "setWitness tx i witness = Inr tx'" "tx_ok tx" "vector_ok witness"
  shows "tx_ok tx'"
proof -
  have "list_all txin_ok (tx_ins tx)" "i < length (tx_ins tx)"
    using assms by (auto simp: tx_ok_def setWitness_def split: if_splits)
  then have "list_all txin_ok ((tx_ins tx)[i := (tx_ins tx ! i)\<lparr>in_witness := witness\<rparr>])"
    by (rule list_all_modify) (simp add: txin_ok_def assms(3))
  then show ?thesis using assms by (auto simp: setWitness_def tx_ok_def split: if_splits)
qed

text \<open>The transactions a caller can make: a new or a parsed one, changed by the methods of the class.\<close>

inductive tx_reachable :: "varuint \<Rightarrow> transaction \<Rightarrow> bool" for v where
  new: "tx_reachable v new_Transaction"
| parsed: "tx_fromBuffer v b noStrict = Inr tx \<Longrightarrow> tx_reachable v tx"
| add_input: "tx_reachable v tx \<Longrightarrow> addInput tx hash index sequence scriptSig = Inr (i, tx') \<Longrightarrow>
    pred_option varslice_ok scriptSig \<Longrightarrow> length (tx_ins tx) + 1 < 2 ^ 53 \<Longrightarrow> tx_reachable v tx'"
| add_output: "tx_reachable v tx \<Longrightarrow> addOutput tx script value = Inr (i, tx') \<Longrightarrow>
    varslice_ok script \<Longrightarrow> length (tx_outs tx) + 1 < 2 ^ 53 \<Longrightarrow> tx_reachable v tx'"
| scriptSig: "tx_reachable v tx \<Longrightarrow> setInputScript tx i script = Inr tx' \<Longrightarrow> varslice_ok script \<Longrightarrow> tx_reachable v tx'"
| witness: "tx_reachable v tx \<Longrightarrow> setWitness tx i ws = Inr tx' \<Longrightarrow> vector_ok ws \<Longrightarrow> tx_reachable v tx'"

lemma tx_outs_set: "setInputScript tx i script = Inr tx' \<Longrightarrow> tx_outs tx' = tx_outs tx"
  "setWitness tx i ws = Inr tx' \<Longrightarrow> tx_outs tx' = tx_outs tx"
  "addInput tx hash index sequence scriptSig = Inr (k, tx') \<Longrightarrow> tx_outs tx' = tx_outs tx"
  by (auto simp: setInputScript_def setWitness_def addInput_def split: if_splits)

lemma tx_plain_addOutput:
  "addOutput tx script value = Inr (i, tx') \<Longrightarrow> varslice_ok script \<Longrightarrow> list_all txout_plain (tx_outs tx) \<Longrightarrow>
     list_all txout_plain (tx_outs tx')"
  by (auto simp: addOutput_def assertE_def txout_plain_def txout_ok_def types_Satoshi_def split: if_splits)

lemma tx_reachable_ok:
  assumes "varuint_codec v" "tx_reachable v tx"
  shows "tx_ok tx \<and> list_all txout_plain (tx_outs tx)"
  using assms(2)
proof induction
  case new
  then show ?case using tx_ok_new by (simp add: new_Transaction_def)
next
  case parsed
  then show ?case by (rule varuint_codec.tx_fromBuffer_ok [OF assms(1)])
next
  case add_input
  then show ?case using tx_ok_addInput tx_outs_set(3) by metis
next
  case add_output
  then show ?case using tx_ok_addOutput tx_plain_addOutput by metis
next
  case scriptSig
  then show ?case using tx_ok_setInputScript tx_outs_set(1) by metis
next
  case witness
  then show ?case using tx_ok_setWitness tx_outs_set(2) by metis
qed

lemma tx_wire_base: "length (tx_bytes False tx) \<le> length (tx_bytes True tx)"
  by (simp add: tx_bytes_def tx_wire_def)

lemma tx_bytes_no_witness: "\<not> hasWitnesses tx \<Longrightarrow> tx_bytes True tx = tx_bytes False tx"
  by (simp add: tx_bytes_def)

subsection \<open>Properties\<close>

text \<open>A transaction with one input, two outputs and a witness, for the instances below.\<close>

definition sample_in :: txin where
  "sample_in = \<lparr>in_hash = replicate 32 7, in_index = 3, in_script = [1, 2], in_sequence = 0xfffffffe,
     in_witness = [[9], []]\<rparr>"

definition sample_tx :: transaction where
  "sample_tx = \<lparr>tx_version = -1, tx_locktime = 500000, tx_ins = [sample_in],
     tx_outs = [\<lparr>out_script = [0x6a], out_value = Some 0, out_valueBuffer = None\<rparr>,
       \<lparr>out_script = [], out_value = Some 5000000000, out_valueBuffer = None\<rparr>]\<rparr>"

lemma sample_tx_ok: "tx_ok sample_tx" "list_all txout_plain (tx_outs sample_tx)" "tx_unmarked sample_tx"
  by (simp_all add: sample_tx_def sample_in_def tx_ok_def txin_ok_def txout_plain_def txout_ok_def types_UInt32_def
      types_UInt53_def varslice_ok_def vector_ok_def tx_unmarked_def)

text \<open>C1. \<open>toBuffer\<close> refines the wire format: for every well-formed transaction, and whatever bytes the
  uninitialised buffer holds, it returns the transaction's byte string, whose length is
  \<open>byteLength()\<close>; given a buffer with room at an offset, it changes exactly those bytes and returns
  the view of them.\<close>

theorem transaction_toBuffer:
  assumes "varuint_codec v" "tx_ok tx"
  shows "toBuffer v junk tx None None = Inr (tx_bytes True tx, tx_bytes True tx) \<and>
    length (tx_bytes True tx) = byteLength v tx \<and>
    (i + byteLength v tx \<le> length b \<longrightarrow>
      toBuffer v junk tx (Some b) (Some i) = Inr (put b i (tx_bytes True tx), tx_bytes True tx))"
proof -
  from assms(1) have "tx_byteLength v True tx = length (tx_bytes True tx)"
    using varuint_codec.tx_byteLength_bytes assms(2) by blast
  then show ?thesis
    using varuint_codec.tx_toBuffer_fresh [OF assms] varuint_codec.tx_toBuffer_at [OF assms, of i True b]
    by (simp add: toBuffer_def byteLength_def)
qed

theorem transaction_toBuffer_witness:
  "toBuffer compactSize_varuint (\<lambda>_. 0xee) sample_tx None None = Inr (tx_bytes True sample_tx, tx_bytes True sample_tx) \<and>
   take 8 (tx_bytes True sample_tx) = [0xff, 0xff, 0xff, 0xff, 0, 1, 1, 7]"
proof -
  have "take 8 (tx_bytes True sample_tx) = [0xff, 0xff, 0xff, 0xff, 0, 1, 1, 7]"
    by (simp add: tx_bytes_def tx_wire_def sample_tx_def sample_in_def hasWitnesses_def txin_bytes_def compactSize_def
        le_bytes_numeral)
  then show ?thesis
    using transaction_toBuffer [OF cs.varuint_codec_axioms sample_tx_ok(1)] by simp
qed

text \<open>C2. Parsing what \<open>toBuffer\<close> or \<open>toHex\<close> printed gives back the same transaction, witnesses
  included, in strict mode or not, when every output has a number for its value, as \<open>addOutput\<close> and
  \<open>fromBuffer\<close> make them (this leaves out the blank outputs with a \<open>valueBuffer\<close> that \<open>hashForSignature\<close> puts into its
  temporary copy). The only such well-formed transactions left out have no input
  and exactly one output, so that their encoding starts like the segregated witness marker.\<close>

theorem transaction_roundtrip:
  assumes "varuint_codec v" "tx_ok tx" "list_all txout_plain (tx_outs tx)" "tx_unmarked tx"
  shows "bindE (toBuffer v junk tx None None) (\<lambda>(_, b). tx_fromBuffer v b noStrict) = Inr tx \<and>
    bindE (toHex v junk tx) (tx_fromHex v) = Inr tx"
proof -
  have "read_transaction v (tx_bytes True tx) 0 = Inr (tx, length (tx_bytes True tx))"
    using readsD [OF varuint_codec.reads_transaction [OF assms], of "[]" "[]"] by simp
  then have "tx_fromBuffer v (tx_bytes True tx) strict = Inr tx" for strict
    by (simp add: tx_fromBuffer_def)
  then show ?thesis
    using varuint_codec.tx_toBuffer_fresh [OF assms(1,2)]
    by (simp add: toBuffer_def toHex_def tx_fromHex_def buffer_from_hex_hex)
qed

theorem transaction_roundtrip_witness:
  "bindE (toBuffer compactSize_varuint (\<lambda>_. 0xee) sample_tx None None)
     (\<lambda>(_, b). tx_fromBuffer compactSize_varuint b False) = Inr sample_tx"
  using transaction_roundtrip [OF cs.varuint_codec_axioms sample_tx_ok] by simp

text \<open>C29. About the bytes that \<open>toBuffer\<close> writes for a well-formed transaction: bytes after them are an error in strict mode and are ignored when the caller asks for
  it, as \<open>Block.fromBuffer\<close> does (a transaction without input and with one output excepted, as it reads like the
  marker); the marker followed by witness lists that are all empty is refused
  in both modes.\<close>

theorem transaction_parse_errors:
  assumes "varuint_codec v" "tx_ok tx" "list_all txout_plain (tx_outs tx)"
  shows "(tx_unmarked tx \<and> extra \<noteq> [] \<longrightarrow>
      tx_fromBuffer v (tx_bytes True tx @ extra) False = Inl (Error ''Transaction has unexpected data'') \<and>
      tx_fromBuffer v (tx_bytes True tx @ extra) True = Inr tx) \<and>
    (\<not> hasWitnesses tx \<longrightarrow>
      tx_fromBuffer v (tx_wire True tx @ extra) noStrict = Inl (Error ''Transaction has superfluous witness data''))"
  using readsD [OF varuint_codec.reads_transaction [OF assms], of "[]" extra]
    failsD [OF varuint_codec.fails_superfluous [OF assms], of "[]" extra]
  by (auto simp: tx_fromBuffer_def)

theorem transaction_parse_errors_witness:
  "tx_fromBuffer compactSize_varuint (tx_bytes True sample_tx @ [0]) False =
     Inl (Error ''Transaction has unexpected data'') \<and>
   tx_fromBuffer compactSize_varuint (tx_wire True (sample_tx\<lparr>tx_ins := []\<rparr>)) True =
     Inl (Error ''Transaction has superfluous witness data'')"
proof -
  have "tx_ok (sample_tx\<lparr>tx_ins := []\<rparr>)" "list_all txout_plain (tx_outs (sample_tx\<lparr>tx_ins := []\<rparr>))"
    "\<not> hasWitnesses (sample_tx\<lparr>tx_ins := []\<rparr>)"
    using sample_tx_ok by (simp_all add: tx_ok_def hasWitnesses_def)
  then show ?thesis
    using transaction_parse_errors [OF cs.varuint_codec_axioms sample_tx_ok(1,2), of "[0]" False]
      transaction_parse_errors [OF cs.varuint_codec_axioms, of "sample_tx\<lparr>tx_ins := []\<rparr>" "[]" True] sample_tx_ok(3)
    by simp
qed

text \<open>C24. Every transaction that a caller can make by parsing bytes and by the methods of the class is
  well-formed: hashes have 32 bytes, indexes, sequence numbers, lock time and version fit their fields,
  values are exact; so serialising it never throws.\<close>

theorem transaction_reachable_serialises:
  assumes "varuint_codec v" "tx_reachable v tx"
  shows "tx_ok tx \<and> (\<exists>b. toBuffer v junk tx None None = Inr (b, b) \<and> length b = byteLength v tx)"
proof -
  have ok: "tx_ok tx" using tx_reachable_ok [OF assms] by simp
  then show ?thesis
    using varuint_codec.tx_toBuffer_fresh [OF assms(1) ok] varuint_codec.tx_byteLength_bytes [OF assms(1) ok]
    by (simp add: toBuffer_def byteLength_def)
qed

theorem transaction_reachable_serialises_witness:
  "\<exists>b. toBuffer compactSize_varuint (\<lambda>_. 0) (new_Transaction\<lparr>tx_outs :=
     [\<lparr>out_script = [0x51], out_value = Some 7, out_valueBuffer = None\<rparr>]\<rparr>) None None = Inr (b, b)"
proof -
  have "addOutput new_Transaction [0x51] 7 = Inr (0, new_Transaction\<lparr>tx_outs :=
     [\<lparr>out_script = [0x51], out_value = Some 7, out_valueBuffer = None\<rparr>]\<rparr>)"
    by (simp add: addOutput_def assertE_def types_Satoshi_def types_UInt53_def new_Transaction_def)
  then have "tx_reachable compactSize_varuint (new_Transaction\<lparr>tx_outs :=
     [\<lparr>out_script = [0x51], out_value = Some 7, out_valueBuffer = None\<rparr>]\<rparr>)"
    by (rule tx_reachable.add_output [OF tx_reachable.new]) (simp_all add: varslice_ok_def new_Transaction_def)
  from transaction_reachable_serialises [OF cs.varuint_codec_axioms this] show ?thesis by blast
qed

text \<open>The virtual size lies between the sizes without and with witnesses, and all three agree when
  there are no witnesses.\<close>

theorem transaction_virtualSize:
  assumes "varuint_codec v" "tx_ok tx"
  shows "tx_byteLength v False tx \<le> virtualSize v tx \<and> virtualSize v tx \<le> byteLength v tx \<and>
    (\<not> hasWitnesses tx \<longrightarrow> virtualSize v tx = byteLength v tx)"
  using varuint_codec.tx_byteLength_bytes [OF assms, of False] varuint_codec.tx_byteLength_bytes [OF assms, of True]
    tx_wire_base [of tx] tx_bytes_no_witness [of tx]
  by (auto simp: virtualSize_def weight_def byteLength_def Let_def)

theorem transaction_virtualSize_witness:
  "tx_byteLength compactSize_varuint False sample_tx < virtualSize compactSize_varuint sample_tx \<and>
   virtualSize compactSize_varuint sample_tx \<le> byteLength compactSize_varuint sample_tx"
proof -
  have "tx_byteLength compactSize_varuint False sample_tx = 72" "virtualSize compactSize_varuint sample_tx = 74"
    by (simp_all add: virtualSize_def weight_def tx_byteLength_def sample_tx_def sample_in_def compactSize_varuint_def
        compactSize_def hasWitnesses_def varSliceSize_def vectorSize_def)
  then show ?thesis
    using transaction_virtualSize [OF cs.varuint_codec_axioms sample_tx_ok(1)] by simp
qed

end
