(* ===== verification/Block.thy ===== *)
theory Block
  imports Transaction
begin

text \<open>
  \<open>ecashjs-lib/src/block.js\<close>: block headers and blocks, their wire format, the difficulty target and
  the proof-of-work check. The package \<open>merkle-lib\<close> is a parameter of the Merkle root check. The
  transactions of a block are a codec of their own (an extension of \<open>varuint_codec\<close>), built on
  \<open>Transaction.fromBuffer\<close> and \<open>toBuffer\<close>.
\<close>

subsection \<open>State\<close>

record block =
  blk_version :: int
  blk_prevHash :: "buffer option"
  blk_merkleRoot :: "buffer option"
  blk_timestamp :: int
  blk_bits :: int
  blk_nonce :: int
  blk_transactions :: "transaction list option"

definition new_Block :: block where
  "new_Block = \<lparr>blk_version = 1, blk_prevHash = None, blk_merkleRoot = None, blk_timestamp = 0, blk_bits = 0,
     blk_nonce = 0, blk_transactions = None\<rparr>"

subsection \<open>Reading\<close>

definition block_readTransaction :: "varuint \<Rightarrow> transaction reader" where
  "block_readTransaction v buffer offset =
     bindE (tx_fromBuffer v (drop offset buffer) True) (\<lambda>tx. Inr (tx, offset + byteLength v tx))"

definition read_header :: "block reader" where
  "read_header b =
     bindS (r_Int32 b) (\<lambda>version.
     bindS (readSlice 32 b) (\<lambda>prevHash.
     bindS (readSlice 32 b) (\<lambda>merkleRoot.
     bindS (r_UInt32 b) (\<lambda>timestamp.
     bindS (r_UInt32 b) (\<lambda>bits.
     bindS (r_UInt32 b) (\<lambda>nonce.
     retS (new_Block\<lparr>blk_version := version, blk_prevHash := Some prevHash, blk_merkleRoot := Some merkleRoot,
       blk_timestamp := int timestamp, blk_bits := int bits, blk_nonce := int nonce\<rparr>)))))))"

definition read_transactions :: "varuint \<Rightarrow> transaction list reader" where
  "read_transactions v b =
     bindS (r_VarInt v b) (\<lambda>nTransactions. timesS nTransactions (block_readTransaction v b))"

definition block_fromBuffer :: "varuint \<Rightarrow> buffer \<Rightarrow> block result" where
  "block_fromBuffer v buffer =
     (if length buffer < 80 then Inl (Error ''Buffer too small (< 80 bytes)'')
      else
        bindE (read_header buffer 0) (\<lambda>(block, offset).
        if length buffer = 80 then Inr block
        else
          bindE (read_transactions v buffer offset) (\<lambda>(transactions, _).
          Inr (block\<lparr>blk_transactions := Some transactions\<rparr>))))"

definition block_fromHex :: "varuint \<Rightarrow> string \<Rightarrow> block result" where
  "block_fromHex v hex = block_fromBuffer v (buffer_from_hex hex)"

subsection \<open>Writing\<close>

definition block_byteLength :: "varuint \<Rightarrow> block \<Rightarrow> bool \<Rightarrow> nat" where
  "block_byteLength v block headersOnly =
     (case blk_transactions block of
        None \<Rightarrow> 80
      | Some transactions \<Rightarrow>
          if headersOnly then 80
          else 80 + vu_encodingLength v (length transactions) + foldl (\<lambda>a x. a + byteLength v x) 0 transactions)"

text \<open>This \<open>writeSlice\<close> advances by the length of the slice, and a hash that was never set is
  \<open>null\<close>.\<close>

definition block_writeSlice :: "buffer option \<Rightarrow> writer" where
  "block_writeSlice s = (case s of
     None \<Rightarrow> throwS (TypeError ''null'')
   | Some s \<Rightarrow> (\<lambda>(b, off). Inr ((), fst (copy s b off), off + length s)))"

definition write_header :: "block \<Rightarrow> writer" where
  "write_header block =
     seqS (w_Int32 (blk_version block))
    (seqS (block_writeSlice (blk_prevHash block))
    (seqS (block_writeSlice (blk_merkleRoot block))
    (seqS (w_UInt32 (blk_timestamp block))
    (seqS (w_UInt32 (blk_bits block))
          (w_UInt32 (blk_nonce block))))))"

definition block_writeTransaction :: "varuint \<Rightarrow> (nat \<Rightarrow> byte) \<Rightarrow> transaction \<Rightarrow> writer" where
  "block_writeTransaction v junk tx =
     (\<lambda>(buffer, offset).
        let txSize = byteLength v tx in
        bindE (toBuffer v junk tx (Some buffer) (Some offset)) (\<lambda>(buffer, _). Inr ((), buffer, offset + txSize)))"

definition write_block :: "varuint \<Rightarrow> (nat \<Rightarrow> byte) \<Rightarrow> block \<Rightarrow> bool \<Rightarrow> writer" where
  "write_block v junk block headersOnly =
     seqS (write_header block)
       (case blk_transactions block of
          None \<Rightarrow> retS ()
        | Some transactions \<Rightarrow>
            if headersOnly then retS ()
            else seqS (w_VarInt v (length transactions)) (forS (block_writeTransaction v junk) transactions))"

definition block_toBuffer :: "varuint \<Rightarrow> (nat \<Rightarrow> byte) \<Rightarrow> block \<Rightarrow> bool \<Rightarrow> buffer result" where
  "block_toBuffer v junk block headersOnly =
     bindE (write_block v junk block headersOnly (allocUnsafe junk (block_byteLength v block headersOnly), 0))
       (\<lambda>(_, buffer, _). Inr buffer)"

definition block_toHex :: "varuint \<Rightarrow> (nat \<Rightarrow> byte) \<Rightarrow> block \<Rightarrow> bool \<Rightarrow> string result" where
  "block_toHex v junk block headersOnly = bindE (block_toBuffer v junk block headersOnly) (\<lambda>b. Inr (buffer_hex b))"

definition block_getHash :: "hashes \<Rightarrow> varuint \<Rightarrow> (nat \<Rightarrow> byte) \<Rightarrow> block \<Rightarrow> buffer result" where
  "block_getHash h v junk block = bindE (block_toBuffer v junk block True) (\<lambda>b. Inr (hash256 h b))"

definition block_getId :: "hashes \<Rightarrow> varuint \<Rightarrow> (nat \<Rightarrow> byte) \<Rightarrow> block \<Rightarrow> string result" where
  "block_getId h v junk block = bindE (block_getHash h v junk block) (\<lambda>b. Inr (buffer_hex (rev b)))"

text \<open>The time value, in milliseconds, of the \<open>Date\<close> object.\<close>

definition getUTCDate :: "block \<Rightarrow> int" where
  "getUTCDate block = blk_timestamp block * 1000"

subsection \<open>Proof of work and Merkle root\<close>

text \<open>\<open>Buffer.compare\<close>.\<close>

fun buffer_compare :: "buffer \<Rightarrow> buffer \<Rightarrow> int" where
  "buffer_compare [] [] = 0"
| "buffer_compare [] (_ # _) = -1"
| "buffer_compare (_ # _) [] = 1"
| "buffer_compare (x # xs) (y # ys) =
     (if unat x < unat y then -1 else if unat y < unat x then 1 else buffer_compare xs ys)"

definition calculateTarget :: "int \<Rightarrow> buffer result" where
  "calculateTarget bits =
     (let exponent = js_sar (js_and bits 0xff000000) 24 - 3;
          mantissa = js_and bits 0x007fffff;
          target = replicate 32 0 in
      if 28 - exponent < 0 then Inl ERR_OUT_OF_RANGE
      else writeUInt32BE target mantissa (nat (28 - exponent)))"

definition calculateMerkleRoot ::
    "hashes \<Rightarrow> varuint \<Rightarrow> (buffer list \<Rightarrow> (buffer \<Rightarrow> buffer) \<Rightarrow> buffer) \<Rightarrow> (nat \<Rightarrow> byte) \<Rightarrow> transaction list \<Rightarrow> buffer result" where
  "calculateMerkleRoot h v fastMerkleRoot junk transactions =
     (if length transactions = 0 then Inl (TypeError ''Cannot compute merkle root for zero transactions'')
      else bindE (mapE (getHash h v junk) transactions) (\<lambda>hashes. Inr (fastMerkleRoot hashes (hash256 h))))"

definition checkMerkleRoot ::
    "hashes \<Rightarrow> varuint \<Rightarrow> (buffer list \<Rightarrow> (buffer \<Rightarrow> buffer) \<Rightarrow> buffer) \<Rightarrow> (nat \<Rightarrow> byte) \<Rightarrow> block \<Rightarrow> bool result" where
  "checkMerkleRoot h v fastMerkleRoot junk block =
     (case blk_transactions block of
        None \<Rightarrow> Inr False
      | Some transactions \<Rightarrow>
          bindE (calculateMerkleRoot h v fastMerkleRoot junk transactions) (\<lambda>actualMerkleRoot.
          case blk_merkleRoot block of
            None \<Rightarrow> Inl (TypeError ''null'')
          | Some merkleRoot \<Rightarrow> Inr (buffer_compare merkleRoot actualMerkleRoot = 0)))"

definition checkProofOfWork :: "hashes \<Rightarrow> varuint \<Rightarrow> (nat \<Rightarrow> byte) \<Rightarrow> block \<Rightarrow> bool result" where
  "checkProofOfWork h v junk block =
     bindE (block_getHash h v junk block) (\<lambda>hash.
     bindE (calculateTarget (blk_bits block)) (\<lambda>target.
     Inr (buffer_compare (rev hash) target \<le> 0)))"

subsection \<open>The format\<close>

definition header_bytes :: "block \<Rightarrow> buffer" where
  "header_bytes b = le_bytes 4 (nat (blk_version b mod 2 ^ 32)) @ the (blk_prevHash b) @ the (blk_merkleRoot b) @
     le_bytes 4 (nat (blk_timestamp b)) @ le_bytes 4 (nat (blk_bits b)) @ le_bytes 4 (nat (blk_nonce b))"

definition block_bytes :: "bool \<Rightarrow> block \<Rightarrow> buffer" where
  "block_bytes headersOnly b = header_bytes b @
     (case blk_transactions b of None \<Rightarrow> []
      | Some txs \<Rightarrow> if headersOnly then [] else compactSize (length txs) @ concat (map (tx_bytes True) txs))"

definition hash_set :: "buffer option \<Rightarrow> bool" where
  "hash_set x \<longleftrightarrow> (case x of None \<Rightarrow> False | Some b \<Rightarrow> length b = 32)"

definition tx_in_block :: "transaction \<Rightarrow> bool" where
  "tx_in_block tx \<longleftrightarrow> tx_ok tx \<and> list_all txout_plain (tx_outs tx) \<and> tx_unmarked tx"

definition block_ok :: "block \<Rightarrow> bool" where
  "block_ok b \<longleftrightarrow> - (2 ^ 31) \<le> blk_version b \<and> blk_version b < 2 ^ 31 \<and> hash_set (blk_prevHash b) \<and>
     hash_set (blk_merkleRoot b) \<and> types_UInt32 (blk_timestamp b) \<and> types_UInt32 (blk_bits b) \<and> types_UInt32 (blk_nonce b) \<and>
     (case blk_transactions b of None \<Rightarrow> True | Some txs \<Rightarrow> length txs < 2 ^ 53 \<and> list_all tx_in_block txs)"

lemma length_header_bytes: "block_ok b \<Longrightarrow> length (header_bytes b) = 80"
  by (auto simp: header_bytes_def block_ok_def hash_set_def split: option.splits)

lemma writes_block_slice: "writes (block_writeSlice (Some s)) s"
  by (simp add: writes_def block_writeSlice_def copy_append)

lemma writes_header: "block_ok b \<Longrightarrow> writes (write_header b) (header_bytes b)"
proof -
  assume ok: "block_ok b"
  then obtain p m where pm: "blk_prevHash b = Some p" "blk_merkleRoot b = Some m"
    by (auto simp: block_ok_def hash_set_def split: option.splits)
  show ?thesis
    using ok unfolding write_header_def header_bytes_def pm option.sel
    by (intro writes_seq writes_Int32 writes_UInt32 writes_block_slice) (auto simp: block_ok_def types_UInt32_def)
qed

lemma reads_header: "block_ok b \<Longrightarrow> reads read_header (header_bytes b) (b\<lparr>blk_transactions := None\<rparr>)"
proof -
  assume ok: "block_ok b"
  then obtain p m where pm: "blk_prevHash b = Some p" "blk_merkleRoot b = Some m" "length p = 32" "length m = 32"
    by (auto simp: block_ok_def hash_set_def split: option.splits)
  have n: "nat (blk_timestamp b) < 2 ^ 32" "nat (blk_bits b) < 2 ^ 32" "nat (blk_nonce b) < 2 ^ 32"
    "- (2 ^ 31) \<le> blk_version b" "blk_version b < 2 ^ 31"
    "0 \<le> blk_timestamp b" "0 \<le> blk_bits b" "0 \<le> blk_nonce b"
    using ok by (auto simp: block_ok_def types_UInt32_def nat_less_iff)
  show ?thesis
    unfolding read_header_def header_bytes_def pm option.sel
    by (rule reads_bind, rule reads_Int32 [OF n(4,5)], rule reads_bind, rule hash_read [OF pm(3)],
        rule reads_bind, rule hash_read [OF pm(4)], rule reads_bind, rule reads_UInt32 [OF n(1)],
        rule reads_bind, rule reads_UInt32 [OF n(2)], rule reads_map_eq, rule reads_UInt32 [OF n(3)])
      (simp add: new_Block_def pm n)
qed

locale block_codec = varuint_codec v for v :: varuint +
  fixes junk :: "nat \<Rightarrow> byte"
begin

lemma byteLength_bytes: "tx_ok tx \<Longrightarrow> byteLength v tx = length (tx_bytes True tx)"
  by (simp add: byteLength_def tx_byteLength_bytes)

lemma writes_block_tx: "tx_ok tx \<Longrightarrow> writes (block_writeTransaction v junk tx) (tx_bytes True tx)"
  by (simp add: writes_def block_writeTransaction_def toBuffer_def tx_toBuffer_at byteLength_bytes)

lemma reads_block_tx: "tx_in_block tx \<Longrightarrow> reads (block_readTransaction v) (tx_bytes True tx) tx"
  unfolding reads_def
proof (intro allI)
  fix pre suf
  assume tx: "tx_in_block tx"
  then have "tx_fromBuffer v (tx_bytes True tx @ suf) True = Inr tx"
    using readsD [OF reads_transaction, of tx "[]" suf] by (simp add: tx_in_block_def tx_fromBuffer_def)
  then show "block_readTransaction v (pre @ tx_bytes True tx @ suf) (length pre) = Inr (tx, length pre + length (tx_bytes True tx))"
    using tx by (simp add: block_readTransaction_def byteLength_bytes tx_in_block_def)
qed

end

sublocale block_codec \<subseteq> btx: wire_codec "block_writeTransaction v junk" "block_readTransaction v" "tx_bytes True" tx_in_block
proof (unfold_locales, goal_cases)
  case (1 x)
  then show ?case unfolding tx_in_block_def by (intro writes_block_tx) simp
next
  case (2 x)
  then show ?case by (rule reads_block_tx)
qed

interpretation bc: block_codec compactSize_varuint junk for junk
  by unfold_locales

context block_codec
begin

lemma reads_block_txs:
  assumes "length txs < 2 ^ 53" "list_all tx_in_block txs"
  shows "reads (read_transactions v) (compactSize (length txs) @ concat (map (tx_bytes True) txs)) txs"
  unfolding read_transactions_def
  by (rule reads_bind, rule reads_VarInt [OF assms(1)], rule btx.codec_reads_list [OF assms(2)])

lemma writes_block:
  assumes "block_ok b"
  shows "writes (write_block v junk b headersOnly) (block_bytes headersOnly b)"
proof (cases "blk_transactions b")
  case None
  then show ?thesis
    using writes_seq [OF writes_header [OF assms] writes_ret] by (simp add: write_block_def block_bytes_def)
next
  case (Some txs)
  then have txs: "length txs < 2 ^ 53" "list_all tx_in_block txs" using assms by (simp_all add: block_ok_def)
  have "writes (seqS (w_VarInt v (length txs)) (forS (block_writeTransaction v junk) txs))
      (compactSize (length txs) @ concat (map (tx_bytes True) txs))"
    by (intro writes_seq writes_VarInt txs btx.codec_writes_list)
  then show ?thesis
    using Some writes_seq [OF writes_header [OF assms]] writes_ret by (simp add: write_block_def block_bytes_def)
qed

lemma block_byteLength_bytes:
  assumes "block_ok b"
  shows "block_byteLength v b headersOnly = length (block_bytes headersOnly b)"
proof (cases "blk_transactions b")
  case (Some txs)
  then have txs: "length txs < 2 ^ 53" "list_all tx_in_block txs" using assms by (simp_all add: block_ok_def)
  then have "length (concat (map (tx_bytes True) txs)) = (\<Sum>tx\<leftarrow>txs. byteLength v tx)"
    by (intro length_concat_ok [of tx_in_block]) (auto simp: tx_in_block_def byteLength_bytes)
  then show ?thesis
    using Some txs(1) assms
    by (simp add: block_byteLength_def block_bytes_def foldl_size varuint_length length_header_bytes)
qed (simp add: block_byteLength_def block_bytes_def length_header_bytes assms)

lemma block_toBuffer_bytes: "block_ok b \<Longrightarrow> block_toBuffer v junk b headersOnly = Inr (block_bytes headersOnly b)"
  using writes_run [OF writes_block, of b "allocUnsafe junk (block_byteLength v b headersOnly)" headersOnly]
  by (simp add: block_toBuffer_def block_byteLength_bytes)

lemma block_fromBuffer_bytes:
  assumes ok: "block_ok b"
  shows "block_fromBuffer v (block_bytes False b) = Inr b"
proof -
  have hd: "read_header (block_bytes False b) 0 = Inr (b\<lparr>blk_transactions := None\<rparr>, 80)"
    using readsD [OF reads_header [OF ok], of "[]"] by (simp add: block_bytes_def length_header_bytes [OF ok])
  show ?thesis
  proof (cases "blk_transactions b")
    case None
    then have "b\<lparr>blk_transactions := None\<rparr> = b" by (cases b) simp
    then show ?thesis
      using hd None by (simp add: block_fromBuffer_def block_bytes_def length_header_bytes [OF ok])
  next
    case (Some txs)
    then have txs: "length txs < 2 ^ 53" "list_all tx_in_block txs" using ok by (simp_all add: block_ok_def)
    have "read_transactions v (block_bytes False b) 80 = Inr (txs, length (block_bytes False b))"
      using readsD [OF reads_block_txs [OF txs], of "header_bytes b" "[]"] Some
      by (simp add: block_bytes_def length_header_bytes [OF ok])
    moreover have "80 < length (block_bytes False b)"
      using Some by (simp add: block_bytes_def length_header_bytes [OF ok])
    moreover have "b\<lparr>blk_transactions := Some txs\<rparr> = b" using Some by (cases b) simp
    ultimately show ?thesis using hd by (simp add: block_fromBuffer_def)
  qed
qed

end

subsection \<open>The target\<close>

lemma le_nat_zeros [simp]: "le_nat (replicate n 0) = 0"
  by (induction n) auto

lemma be_nat_Cons: "be_nat (x # xs) = unat x * 256 ^ length xs + be_nat xs"
  by (simp add: be_nat_def le_nat_append)

lemma be_nat_bound: "be_nat xs < 256 ^ length xs"
  using le_nat_bound [of "rev xs"] by (simp add: be_nat_def)

lemma buffer_compare_nat:
  "length xs = length ys \<Longrightarrow> buffer_compare xs ys \<le> 0 \<longleftrightarrow> be_nat xs \<le> be_nat ys"
proof (induction xs ys rule: list_induct2)
  case Nil
  then show ?case by simp
next
  case (Cons x xs y ys)
  consider "unat x < unat y" | "unat y < unat x" | "unat x = unat y" by linarith
  then show ?case
  proof cases
    case 1
    then have "unat x * 256 ^ length xs + 256 ^ length xs \<le> unat y * 256 ^ length ys"
      using Cons.hyps mult_le_mono1 [of "Suc (unat x)" "unat y" "256 ^ length xs"] by simp
    then show ?thesis using 1 be_nat_bound [of xs] by (simp add: be_nat_Cons)
  next
    case 2
    then have "unat y * 256 ^ length ys + 256 ^ length ys \<le> unat x * 256 ^ length xs"
      using Cons.hyps mult_le_mono1 [of "Suc (unat y)" "unat x" "256 ^ length ys"] by simp
    then show ?thesis using 2 be_nat_bound [of ys] by (simp add: be_nat_Cons)
  next
    case 3
    then show ?thesis using Cons by (simp add: be_nat_Cons)
  qed
qed

lemma buffer_compare_eq: "buffer_compare xs ys = 0 \<longleftrightarrow> xs = ys"
  by (induction xs ys rule: buffer_compare.induct) (auto simp: word_unat_eq_iff)

lemma target_exponent: "js_sar (js_and bits 0xff000000) 24 = toInt32 bits div 2 ^ 24"
proof -
  have c: "toInt32 0xff000000 = - (2 ^ 24)" by (simp add: toInt32_def)
  have "toInt32 (toInt32 bits AND - (2 ^ 24)) = toInt32 bits AND toInt32 (- (2 ^ 24))"
    unfolding toInt32_def minus_exp_eq_not_mask
    by (rule bit_eqI) (auto simp: bit_signed_take_bit_iff bit_and_iff bit_not_iff bit_mask_iff min_def)
  then have "js_sar (js_and bits 0xff000000) 24 = drop_bit 24 (toInt32 bits AND - (2 ^ 24))"
    by (simp add: js_sar_def js_and_def c toInt32_small)
  also have "\<dots> = drop_bit 24 (toInt32 bits)"
    by (simp only: drop_bit_and) (simp add: drop_bit_eq_div)
  finally show ?thesis by (simp add: drop_bit_eq_div)
qed

lemma toInt32_unsigned: "0 \<le> x \<Longrightarrow> x < 2 ^ 32 \<Longrightarrow> toInt32 x = (if x < 2 ^ 31 then x else x - 2 ^ 32)"
proof -
  assume x: "0 \<le> x" "x < 2 ^ 32"
  let ?t = "toInt32 x"
  have t: "?t mod 2 ^ 32 = x" using toInt32_mod [of 32 x] x by simp
  have "?t = x \<or> ?t + 2 ^ 32 = x"
  proof (cases "0 \<le> ?t")
    case True
    then show ?thesis using t toInt32_bounds [of x] by simp
  next
    case False
    then have "(?t + 2 ^ 32) mod 2 ^ 32 = ?t + 2 ^ 32" using toInt32_bounds [of x] by (intro mod_pos_pos_trivial) auto
    then show ?thesis using t by simp
  qed
  then show ?thesis using toInt32_bounds [of x] x by auto
qed

lemma calculateTarget_value:
  assumes "types_UInt32 bits"
  defines "e \<equiv> bits div 2 ^ 24"
  shows "if 3 \<le> e \<and> e \<le> 31
    then \<exists>t. calculateTarget bits = Inr t \<and> length t = 32 \<and> be_nat t = nat (bits mod 2 ^ 23) * 256 ^ (nat e - 3)
    else calculateTarget bits = Inl ERR_OUT_OF_RANGE"
proof -
  have b: "0 \<le> bits" "bits < 2 ^ 32" using assms by (auto simp: types_UInt32_def)
  have "bits mod 2 ^ 23 < 2 ^ 23" "0 \<le> bits mod 2 ^ 23" by simp_all
  then have mb: "0 \<le> bits mod 2 ^ 23" "bits mod 2 ^ 23 < 2 ^ 32" by auto
  have m: "js_and bits 0x007fffff = bits mod 2 ^ 23" using js_and_mask [of 23 bits] by simp
  have x: "js_sar (js_and bits 0xff000000) 24 = (if e < 128 then e else e - 256)"
    using b unfolding target_exponent toInt32_unsigned [OF b] e_def by auto
  show ?thesis
  proof (cases "3 \<le> e \<and> e \<le> 31")
    case True
    define k where "k = nat (31 - e)"
    have k: "k + 4 \<le> 32" "28 - k = nat e - 3" using True by (auto simp: k_def)
    let ?m = "nat (bits mod 2 ^ 23)"
    have t: "calculateTarget bits = Inr (put (replicate 32 0) k (be_bytes 4 ?m))"
      using True k(1) mb by (simp add: calculateTarget_def x m writeUInt32BE_def k_def Let_def not_less not_le)
    have "put (replicate 32 0) k (be_bytes 4 ?m) = replicate k 0 @ be_bytes 4 ?m @ replicate (28 - k) 0"
      using k(1) by (simp add: put_def)
    moreover have "?m < 256 ^ 4" using mb by (simp add: nat_less_iff)
    ultimately have "be_nat (put (replicate 32 0) k (be_bytes 4 ?m)) = ?m * 256 ^ (28 - k)"
      "length (put (replicate 32 0) k (be_bytes 4 ?m)) = 32"
      using k(1) by (simp_all add: be_nat_def be_bytes_def le_nat_append le_nat_le_bytes)
    then show ?thesis using t k(2) True by auto
  next
    case False
    have "e < 256" "0 \<le> e" using b by (auto simp: e_def)
    then show ?thesis
      using False by (auto simp: calculateTarget_def x m writeUInt32BE_def Let_def)
  qed
qed

subsection \<open>Properties\<close>

definition sample_block :: block where
  "sample_block = \<lparr>blk_version = 4, blk_prevHash = Some (replicate 32 1), blk_merkleRoot = Some (replicate 32 2),
     blk_timestamp = 1600000000, blk_bits = 0x1d00ffff, blk_nonce = 77, blk_transactions = Some [sample_tx, sample_tx]\<rparr>"

lemma sample_block_ok: "block_ok sample_block"
  using sample_tx_ok by (simp add: sample_block_def block_ok_def hash_set_def types_UInt32_def tx_in_block_def)

text \<open>C8. A well-formed block, with or without its transactions, is written to exactly \<open>byteLength()\<close>
  bytes, none of them uninitialised, and read back as the same block; its header alone is the first
  80 bytes.\<close>

theorem block_roundtrip:
  assumes "varuint_codec v" "block_ok b"
  shows "\<exists>bytes. block_toBuffer v junk b False = Inr bytes \<and> length bytes = block_byteLength v b False \<and>
    block_fromBuffer v bytes = Inr b \<and> block_toBuffer v junk b True = Inr (take 80 bytes)"
proof -
  have c: "block_codec v" using assms(1) by (simp add: block_codec_def)
  have "take 80 (block_bytes False b) = block_bytes True b"
    by (auto simp: block_bytes_def length_header_bytes [OF assms(2)] split: option.splits)
  then show ?thesis
    using block_codec.block_toBuffer_bytes [OF c assms(2), of junk] block_codec.block_fromBuffer_bytes [OF c assms(2)]
      block_codec.block_byteLength_bytes [OF c assms(2), of False]
    by simp
qed

theorem block_roundtrip_witness:
  "\<exists>bytes. block_toBuffer compactSize_varuint (\<lambda>_. 0xee) sample_block False = Inr bytes \<and>
     block_fromBuffer compactSize_varuint bytes = Inr sample_block"
  using block_roundtrip [OF cs.varuint_codec_axioms sample_block_ok, of "\<lambda>_. 0xee"] by blast

text \<open>C32. The target of compact difficulty bits is the mantissa shifted by the exponent as a 256-bit
  big-endian number, for exponents from 3 to 31; every other exponent throws, among them 32, the
  exponent of the easiest regression-test difficulty \<open>0x207fffff\<close>.\<close>

theorem calculateTarget_spec:
  assumes "types_UInt32 bits"
  shows "if 3 \<le> bits div 2 ^ 24 \<and> bits div 2 ^ 24 \<le> 31
    then \<exists>t. calculateTarget bits = Inr t \<and> length t = 32 \<and>
      be_nat t = nat (bits mod 2 ^ 23) * 256 ^ (nat (bits div 2 ^ 24) - 3)
    else calculateTarget bits = Inl ERR_OUT_OF_RANGE"
  using calculateTarget_value [OF assms] .

theorem calculateTarget_spec_witness:
  "calculateTarget 0x207fffff = Inl ERR_OUT_OF_RANGE \<and> (\<exists>t. calculateTarget 0x1d00ffff = Inr t \<and> be_nat t = 0xffff * 256 ^ 26)"
  using calculateTarget_spec [of "0x207fffff"] calculateTarget_spec [of "0x1d00ffff"] by (auto simp: types_UInt32_def)

text \<open>C31. \<open>checkProofOfWork\<close> compares the header's hash, read as a little-endian number, with the target:
  the byte-wise comparison of the reversed hash with the target buffer is the numeric one.\<close>

theorem checkProofOfWork_numeric:
  assumes "varuint_codec v" "digest_lengths h" "block_ok b" "3 \<le> blk_bits b div 2 ^ 24" "blk_bits b div 2 ^ 24 \<le> 31"
  shows "checkProofOfWork h v junk b =
    Inr (le_nat (hash256 h (header_bytes b)) \<le> nat (blk_bits b mod 2 ^ 23) * 256 ^ (nat (blk_bits b div 2 ^ 24) - 3))"
proof -
  have c: "block_codec v" using assms(1) by (simp add: block_codec_def)
  have bits: "types_UInt32 (blk_bits b)" using assms(3) by (simp add: block_ok_def)
  obtain t where t: "calculateTarget (blk_bits b) = Inr t" "length t = 32"
      "be_nat t = nat (blk_bits b mod 2 ^ 23) * 256 ^ (nat (blk_bits b div 2 ^ 24) - 3)"
    using calculateTarget_value [OF bits] assms(4,5) by auto
  have "block_toBuffer v junk b True = Inr (header_bytes b)"
    using block_codec.block_toBuffer_bytes [OF c assms(3), of junk True]
    by (simp add: block_bytes_def split: option.splits)
  moreover have "length (rev (hash256 h (header_bytes b))) = length t"
    using digest_lengths.length_hash256 [OF assms(2)] t(2) by simp
  ultimately show ?thesis
    using t buffer_compare_nat by (simp add: checkProofOfWork_def block_getHash_def be_nat_def)
qed

theorem checkProofOfWork_numeric_witness:
  "checkProofOfWork padded_hashes compactSize_varuint (\<lambda>_. 0) sample_block =
     Inr (le_nat (hash256 padded_hashes (header_bytes sample_block)) \<le> 0xffff * 256 ^ 26)"
  using checkProofOfWork_numeric [OF cs.varuint_codec_axioms padded.digest_lengths_axioms sample_block_ok, of "\<lambda>_. 0"]
  by (simp add: sample_block_def)

end
