(* ===== verification/Templates.thy ===== *)
theory Templates
  imports Script Crypto
begin

text \<open>
  \<open>ecashjs-lib/src/templates\<close>: the standard output and input scripts (pay to public key, public key
  hash, script hash, multiple signatures, their witness forms, data carrier, witness commitment) and
  their classification. Each template is a group of \<open>check\<close>, \<open>encode\<close> and \<open>decode\<close>. The check
  of a DER signature, package \<open>bip66\<close>, is a parameter. A \<open>typeforce\<close> check that fails throws a
  type error.
\<close>

datatype script_type =
    MULTISIG | NONSTANDARD | NULLDATA | P2PK | P2PKH | P2SH | P2WPKH | P2WSH | WITNESS_COMMITMENT

text \<open>The conjunction of the source, which does not evaluate its second operand when the first is
  false.\<close>

definition andE :: "bool result \<Rightarrow> bool result \<Rightarrow> bool result" where
  "andE a b = bindE a (\<lambda>x. if x then b else Inr False)"

definition orE :: "bool result \<Rightarrow> bool result \<Rightarrow> bool result" where
  "orE a b = bindE a (\<lambda>x. if x then Inr True else b)"

definition typeforce_check :: "bool result \<Rightarrow> unit result" where
  "typeforce_check c = bindE c (\<lambda>ok. assertE ok typeforce_error)"

abbreviation (input) byte_is :: "buffer \<Rightarrow> nat \<Rightarrow> nat \<Rightarrow> bool" where
  "byte_is b i x \<equiv> byte_at b i = Some x"

subsection \<open>Public key hash\<close>

definition p2pkh_output_check :: "(nat \<Rightarrow> byte) \<Rightarrow> script \<Rightarrow> bool result" where
  "p2pkh_output_check junk script = bindE (compile junk script) (\<lambda>buffer.
     Inr (length buffer = 25 \<and> byte_is buffer 0 OP_DUP \<and> byte_is buffer 1 OP_HASH160 \<and> byte_is buffer 2 0x14 \<and>
       byte_is buffer 23 OP_EQUALVERIFY \<and> byte_is buffer 24 OP_CHECKSIG))"

definition p2pkh_output_encode :: "(nat \<Rightarrow> byte) \<Rightarrow> buffer \<Rightarrow> buffer result" where
  "p2pkh_output_encode junk pubKeyHash =
     bindE (assertE (length pubKeyHash = 20) typeforce_error) (\<lambda>_.
       compile junk (Chunks [Op OP_DUP, Op OP_HASH160, Data pubKeyHash, Op OP_EQUALVERIFY, Op OP_CHECKSIG]))"

definition p2pkh_output_decode :: "(nat \<Rightarrow> byte) \<Rightarrow> buffer \<Rightarrow> buffer result" where
  "p2pkh_output_decode junk buffer =
     bindE (typeforce_check (p2pkh_output_check junk (Raw buffer))) (\<lambda>_. Inr (slice buffer 3 23))"

definition p2pkh_input_check :: "(buffer \<Rightarrow> bool) \<Rightarrow> script \<Rightarrow> bool result" where
  "p2pkh_input_check bip66 script = bindE (decompile script) (\<lambda>chunks.
     Inr (length chunks = 2 \<and> isCanonicalSignature bip66 (chunks ! 0) \<and> isCanonicalPubKey (chunks ! 1)))"

definition p2pkh_input_encodeStack :: "(buffer \<Rightarrow> bool) \<Rightarrow> chunk \<Rightarrow> chunk \<Rightarrow> chunk list result" where
  "p2pkh_input_encodeStack bip66 signature pubKey =
     bindE (assertE (isCanonicalSignature bip66 signature \<and> isCanonicalPubKey pubKey) typeforce_error) (\<lambda>_.
       Inr [signature, pubKey])"

definition p2pkh_input_encode :: "(buffer \<Rightarrow> bool) \<Rightarrow> (nat \<Rightarrow> byte) \<Rightarrow> chunk \<Rightarrow> chunk \<Rightarrow> buffer result" where
  "p2pkh_input_encode bip66 junk signature pubKey =
     bindE (p2pkh_input_encodeStack bip66 signature pubKey) (\<lambda>stack. compile junk (Chunks stack))"

definition p2pkh_input_decodeStack :: "(buffer \<Rightarrow> bool) \<Rightarrow> chunk list \<Rightarrow> (chunk \<times> chunk) result" where
  "p2pkh_input_decodeStack bip66 stack =
     bindE (typeforce_check (p2pkh_input_check bip66 (Chunks stack))) (\<lambda>_. Inr (stack ! 0, stack ! 1))"

definition p2pkh_input_decode :: "(buffer \<Rightarrow> bool) \<Rightarrow> buffer \<Rightarrow> (chunk \<times> chunk) result" where
  "p2pkh_input_decode bip66 buffer = bindE (decompile (Raw buffer)) (p2pkh_input_decodeStack bip66)"

subsection \<open>Public key\<close>

definition p2pk_output_check :: "script \<Rightarrow> bool result" where
  "p2pk_output_check script = bindE (decompile script) (\<lambda>chunks.
     Inr (length chunks = 2 \<and> isCanonicalPubKey (chunks ! 0) \<and> chunks ! 1 = Op OP_CHECKSIG))"

definition p2pk_output_encode :: "(nat \<Rightarrow> byte) \<Rightarrow> buffer \<Rightarrow> buffer result" where
  "p2pk_output_encode junk pubKey =
     bindE (assertE (isCanonicalPubKey (Data pubKey)) typeforce_error) (\<lambda>_.
       compile junk (Chunks [Data pubKey, Op OP_CHECKSIG]))"

definition p2pk_output_decode :: "buffer \<Rightarrow> chunk result" where
  "p2pk_output_decode buffer = bindE (decompile (Raw buffer)) (\<lambda>chunks.
     bindE (typeforce_check (p2pk_output_check (Chunks chunks))) (\<lambda>_. Inr (chunks ! 0)))"

definition p2pk_input_check :: "(buffer \<Rightarrow> bool) \<Rightarrow> script \<Rightarrow> bool result" where
  "p2pk_input_check bip66 script = bindE (decompile script) (\<lambda>chunks.
     Inr (length chunks = 1 \<and> isCanonicalSignature bip66 (chunks ! 0)))"

definition p2pk_input_encodeStack :: "(buffer \<Rightarrow> bool) \<Rightarrow> chunk \<Rightarrow> chunk list result" where
  "p2pk_input_encodeStack bip66 signature =
     bindE (assertE (isCanonicalSignature bip66 signature) typeforce_error) (\<lambda>_. Inr [signature])"

definition p2pk_input_encode :: "(buffer \<Rightarrow> bool) \<Rightarrow> (nat \<Rightarrow> byte) \<Rightarrow> chunk \<Rightarrow> buffer result" where
  "p2pk_input_encode bip66 junk signature =
     bindE (p2pk_input_encodeStack bip66 signature) (\<lambda>stack. compile junk (Chunks stack))"

definition p2pk_input_decodeStack :: "(buffer \<Rightarrow> bool) \<Rightarrow> chunk list \<Rightarrow> chunk result" where
  "p2pk_input_decodeStack bip66 stack =
     bindE (typeforce_check (p2pk_input_check bip66 (Chunks stack))) (\<lambda>_. Inr (stack ! 0))"

definition p2pk_input_decode :: "(buffer \<Rightarrow> bool) \<Rightarrow> buffer \<Rightarrow> chunk result" where
  "p2pk_input_decode bip66 buffer = bindE (decompile (Raw buffer)) (p2pk_input_decodeStack bip66)"

subsection \<open>Multiple signatures\<close>

definition p2ms_output_check :: "script \<Rightarrow> bool \<Rightarrow> bool result" where
  "p2ms_output_check script allowIncomplete = bindE (decompile script) (\<lambda>chunks.
     Inr (if length chunks < 4 then False
          else if chunks ! (length chunks - 1) \<noteq> Op OP_CHECKMULTISIG then False
          else
            (case (chunks ! 0, chunks ! (length chunks - 2)) of
               (Op c0, Op cn) \<Rightarrow>
                 let m = c0 - OP_INT_BASE; n = cn - OP_INT_BASE in
                 if m \<le> 0 then False
                 else if n > 16 then False
                 else if m > n then False
                 else if n \<noteq> int (length chunks) - 3 then False
                 else if allowIncomplete then True
                 else list_all isCanonicalPubKey (take (length chunks - 3) (drop 1 chunks))
             | _ \<Rightarrow> False)))"

definition p2ms_output_encode :: "(nat \<Rightarrow> byte) \<Rightarrow> int \<Rightarrow> buffer list \<Rightarrow> buffer result" where
  "p2ms_output_encode junk m pubKeys =
     bindE (assertE (list_all (\<lambda>k. isCanonicalPubKey (Data k)) pubKeys) typeforce_error) (\<lambda>_.
       let n = int (length pubKeys) in
       if n < m then Inl (TypeError ''Not enough pubKeys provided'')
       else compile junk (Chunks ([Op (OP_INT_BASE + m)] @ map Data pubKeys @ [Op (OP_INT_BASE + n), Op OP_CHECKMULTISIG])))"

definition p2ms_output_decode :: "buffer \<Rightarrow> bool \<Rightarrow> (int \<times> chunk list) result" where
  "p2ms_output_decode buffer allowIncomplete = bindE (decompile (Raw buffer)) (\<lambda>chunks.
     bindE (typeforce_check (p2ms_output_check (Chunks chunks) allowIncomplete)) (\<lambda>_.
       Inr ((case chunks ! 0 of Op c \<Rightarrow> c - OP_INT_BASE | Data _ \<Rightarrow> 0), take (length chunks - 3) (drop 1 chunks))))"

definition partialSignature :: "(buffer \<Rightarrow> bool) \<Rightarrow> chunk \<Rightarrow> bool" where
  "partialSignature bip66 chunk \<longleftrightarrow> chunk = Op OP_0 \<or> isCanonicalSignature bip66 chunk"

definition p2ms_input_check :: "(buffer \<Rightarrow> bool) \<Rightarrow> script \<Rightarrow> bool \<Rightarrow> bool result" where
  "p2ms_input_check bip66 script allowIncomplete = bindE (decompile script) (\<lambda>chunks.
     Inr (if length chunks < 2 then False
          else if chunks ! 0 \<noteq> Op OP_0 then False
          else if allowIncomplete then list_all (partialSignature bip66) (drop 1 chunks)
          else list_all (isCanonicalSignature bip66) (drop 1 chunks)))"

definition p2ms_input_encodeStack :: "(buffer \<Rightarrow> bool) \<Rightarrow> chunk list \<Rightarrow> buffer option \<Rightarrow> chunk list result" where
  "p2ms_input_encodeStack bip66 signatures scriptPubKey =
     bindE (assertE (list_all (partialSignature bip66) signatures) typeforce_error) (\<lambda>_.
     bindE (case scriptPubKey of
        None \<Rightarrow> Inr ()
      | Some scriptPubKey \<Rightarrow>
          bindE (p2ms_output_decode scriptPubKey False) (\<lambda>(m, pubKeys).
          if int (length signatures) < m then Inl (TypeError ''Not enough signatures provided'')
          else if length signatures > length pubKeys then Inl (TypeError ''Too many signatures provided'')
          else Inr ())) (\<lambda>_.
     Inr (Data [] # map (\<lambda>sig. if sig = Op OP_0 then Data [] else sig) signatures)))"

definition p2ms_input_encode :: "(buffer \<Rightarrow> bool) \<Rightarrow> (nat \<Rightarrow> byte) \<Rightarrow> chunk list \<Rightarrow> buffer option \<Rightarrow> buffer result" where
  "p2ms_input_encode bip66 junk signatures scriptPubKey =
     bindE (p2ms_input_encodeStack bip66 signatures scriptPubKey) (\<lambda>stack. compile junk (Chunks stack))"

definition p2ms_input_decodeStack :: "(buffer \<Rightarrow> bool) \<Rightarrow> chunk list \<Rightarrow> bool \<Rightarrow> chunk list result" where
  "p2ms_input_decodeStack bip66 stack allowIncomplete =
     bindE (typeforce_check (p2ms_input_check bip66 (Chunks stack) allowIncomplete)) (\<lambda>_. Inr (drop 1 stack))"

definition p2ms_input_decode :: "(buffer \<Rightarrow> bool) \<Rightarrow> buffer \<Rightarrow> bool \<Rightarrow> chunk list result" where
  "p2ms_input_decode bip66 buffer allowIncomplete =
     bindE (decompile (Raw buffer)) (\<lambda>stack. p2ms_input_decodeStack bip66 stack allowIncomplete)"

subsection \<open>Script hash\<close>

definition p2wpkh_output_check :: "(nat \<Rightarrow> byte) \<Rightarrow> script \<Rightarrow> bool result" where
  "p2wpkh_output_check junk script = bindE (compile junk script) (\<lambda>buffer.
     Inr (length buffer = 22 \<and> byte_is buffer 0 OP_0 \<and> byte_is buffer 1 0x14))"

definition p2wpkh_output_encode :: "(nat \<Rightarrow> byte) \<Rightarrow> buffer \<Rightarrow> buffer result" where
  "p2wpkh_output_encode junk pubKeyHash =
     bindE (assertE (length pubKeyHash = 20) typeforce_error) (\<lambda>_. compile junk (Chunks [Op OP_0, Data pubKeyHash]))"

definition p2wpkh_output_decode :: "(nat \<Rightarrow> byte) \<Rightarrow> buffer \<Rightarrow> buffer result" where
  "p2wpkh_output_decode junk buffer =
     bindE (typeforce_check (p2wpkh_output_check junk (Raw buffer))) (\<lambda>_. Inr (drop 2 buffer))"

definition p2wsh_output_check :: "(nat \<Rightarrow> byte) \<Rightarrow> script \<Rightarrow> bool result" where
  "p2wsh_output_check junk script = bindE (compile junk script) (\<lambda>buffer.
     Inr (length buffer = 34 \<and> byte_is buffer 0 OP_0 \<and> byte_is buffer 1 0x20))"

definition p2wsh_output_encode :: "(nat \<Rightarrow> byte) \<Rightarrow> buffer \<Rightarrow> buffer result" where
  "p2wsh_output_encode junk scriptHash =
     bindE (assertE (length scriptHash = 32) typeforce_error) (\<lambda>_. compile junk (Chunks [Op OP_0, Data scriptHash]))"

definition p2wsh_output_decode :: "(nat \<Rightarrow> byte) \<Rightarrow> buffer \<Rightarrow> buffer result" where
  "p2wsh_output_decode junk buffer =
     bindE (typeforce_check (p2wsh_output_check junk (Raw buffer))) (\<lambda>_. Inr (drop 2 buffer))"

definition p2sh_output_check :: "(nat \<Rightarrow> byte) \<Rightarrow> script \<Rightarrow> bool result" where
  "p2sh_output_check junk script = bindE (compile junk script) (\<lambda>buffer.
     Inr (length buffer = 23 \<and> byte_is buffer 0 OP_HASH160 \<and> byte_is buffer 1 0x14 \<and> byte_is buffer 22 OP_EQUAL))"

definition p2sh_output_encode :: "(nat \<Rightarrow> byte) \<Rightarrow> buffer \<Rightarrow> buffer result" where
  "p2sh_output_encode junk scriptHash =
     bindE (assertE (length scriptHash = 20) typeforce_error) (\<lambda>_.
       compile junk (Chunks [Op OP_HASH160, Data scriptHash, Op OP_EQUAL]))"

definition p2sh_output_decode :: "(nat \<Rightarrow> byte) \<Rightarrow> buffer \<Rightarrow> buffer result" where
  "p2sh_output_decode junk buffer =
     bindE (typeforce_check (p2sh_output_check junk (Raw buffer))) (\<lambda>_. Inr (slice buffer 2 22))"

definition p2sh_input_check :: "(buffer \<Rightarrow> bool) \<Rightarrow> (nat \<Rightarrow> byte) \<Rightarrow> script \<Rightarrow> bool \<Rightarrow> bool result" where
  "p2sh_input_check bip66 junk script allowIncomplete = bindE (decompile script) (\<lambda>chunks.
     if length chunks < 1 then Inr False
     else
       (case chunks ! (length chunks - 1) of
          Op _ \<Rightarrow> Inr False
        | Data lastChunk \<Rightarrow>
            bindE (compile junk (Chunks (take (length chunks - 1) chunks))) (\<lambda>scriptSig.
            bindE (decompile (Raw scriptSig)) (\<lambda>scriptSigChunks.
            bindE (decompile (Raw lastChunk)) (\<lambda>redeemScriptChunks.
            if length redeemScriptChunks = 0 then Inr False
            else if \<not> isPushOnly scriptSigChunks then Inr False
            else if length chunks = 1 then
              orE (p2wsh_output_check junk (Chunks redeemScriptChunks)) (p2wpkh_output_check junk (Chunks redeemScriptChunks))
            else
              orE (andE (p2pkh_input_check bip66 (Chunks scriptSigChunks)) (p2pkh_output_check junk (Chunks redeemScriptChunks)))
             (orE (andE (p2ms_input_check bip66 (Chunks scriptSigChunks) allowIncomplete)
                        (p2ms_output_check (Chunks redeemScriptChunks) False))
                  (andE (p2pk_input_check bip66 (Chunks scriptSigChunks)) (p2pk_output_check (Chunks redeemScriptChunks)))))))))"

definition p2sh_input_encodeStack :: "(nat \<Rightarrow> byte) \<Rightarrow> chunk list \<Rightarrow> script \<Rightarrow> chunk list result" where
  "p2sh_input_encodeStack junk redeemScriptStack redeemScript =
     bindE (compile junk redeemScript) (\<lambda>serializedScriptPubKey. Inr (redeemScriptStack @ [Data serializedScriptPubKey]))"

definition p2sh_input_encode :: "(nat \<Rightarrow> byte) \<Rightarrow> script \<Rightarrow> script \<Rightarrow> buffer result" where
  "p2sh_input_encode junk redeemScriptSig redeemScript =
     bindE (decompile redeemScriptSig) (\<lambda>redeemScriptStack.
     bindE (p2sh_input_encodeStack junk redeemScriptStack redeemScript) (\<lambda>stack.
     compile junk (Chunks stack)))"

definition p2sh_input_decodeStack :: "(buffer \<Rightarrow> bool) \<Rightarrow> (nat \<Rightarrow> byte) \<Rightarrow> chunk list \<Rightarrow> (chunk list \<times> chunk) result" where
  "p2sh_input_decodeStack bip66 junk stack =
     bindE (typeforce_check (p2sh_input_check bip66 junk (Chunks stack) False)) (\<lambda>_.
       Inr (take (length stack - 1) stack, stack ! (length stack - 1)))"

definition p2sh_input_decode :: "(buffer \<Rightarrow> bool) \<Rightarrow> (nat \<Rightarrow> byte) \<Rightarrow> buffer \<Rightarrow> (buffer \<times> chunk) result" where
  "p2sh_input_decode bip66 junk buffer =
     bindE (decompile (Raw buffer)) (\<lambda>stack.
     bindE (p2sh_input_decodeStack bip66 junk stack) (\<lambda>(redeemScriptStack, redeemScript).
     bindE (compile junk (Chunks redeemScriptStack)) (\<lambda>redeemScriptSig.
     Inr (redeemScriptSig, redeemScript))))"

subsection \<open>Witnesses\<close>

definition isCompressedCanonicalPubKey :: "chunk \<Rightarrow> bool" where
  "isCompressedCanonicalPubKey pubKey \<longleftrightarrow>
     isCanonicalPubKey pubKey \<and> (case pubKey of Data b \<Rightarrow> length b = 33 | Op _ \<Rightarrow> False)"

definition p2wpkh_input_check :: "(buffer \<Rightarrow> bool) \<Rightarrow> script \<Rightarrow> bool result" where
  "p2wpkh_input_check bip66 script = bindE (decompile script) (\<lambda>chunks.
     Inr (length chunks = 2 \<and> isCanonicalSignature bip66 (chunks ! 0) \<and> isCompressedCanonicalPubKey (chunks ! 1)))"

definition p2wpkh_input_encodeStack :: "(buffer \<Rightarrow> bool) \<Rightarrow> chunk \<Rightarrow> chunk \<Rightarrow> chunk list result" where
  "p2wpkh_input_encodeStack bip66 signature pubKey =
     bindE (assertE (isCanonicalSignature bip66 signature \<and> isCompressedCanonicalPubKey pubKey) typeforce_error) (\<lambda>_.
       Inr [signature, pubKey])"

definition p2wpkh_input_decodeStack :: "(buffer \<Rightarrow> bool) \<Rightarrow> chunk list \<Rightarrow> (chunk \<times> chunk) result" where
  "p2wpkh_input_decodeStack bip66 stack =
     bindE (typeforce_check (p2wpkh_input_check bip66 (Chunks stack))) (\<lambda>_. Inr (stack ! 0, stack ! 1))"

definition p2wsh_input_check :: "(buffer \<Rightarrow> bool) \<Rightarrow> (nat \<Rightarrow> byte) \<Rightarrow> chunk list \<Rightarrow> bool \<Rightarrow> bool result" where
  "p2wsh_input_check bip66 junk chunks allowIncomplete =
     (if length chunks < 1 then Inr False
      else
        (case chunks ! (length chunks - 1) of
           Op _ \<Rightarrow> Inr False
         | Data witnessScript \<Rightarrow>
             bindE (decompile (Raw witnessScript)) (\<lambda>witnessScriptChunks.
             if length witnessScriptChunks = 0 then Inr False
             else
               bindE (compile junk (Chunks (take (length chunks - 1) chunks))) (\<lambda>witnessRawScriptSig.
               orE (andE (p2pkh_input_check bip66 (Raw witnessRawScriptSig)) (p2pkh_output_check junk (Chunks witnessScriptChunks)))
              (orE (andE (p2ms_input_check bip66 (Raw witnessRawScriptSig) allowIncomplete)
                         (p2ms_output_check (Chunks witnessScriptChunks) False))
                   (andE (p2pk_input_check bip66 (Raw witnessRawScriptSig)) (p2pk_output_check (Chunks witnessScriptChunks))))))))"

definition p2wsh_input_encodeStack :: "buffer list \<Rightarrow> buffer \<Rightarrow> buffer list" where
  "p2wsh_input_encodeStack witnessData witnessScript = witnessData @ [witnessScript]"

definition p2wsh_input_decodeStack :: "(buffer \<Rightarrow> bool) \<Rightarrow> (nat \<Rightarrow> byte) \<Rightarrow> chunk list \<Rightarrow> (chunk list \<times> chunk) result" where
  "p2wsh_input_decodeStack bip66 junk stack =
     bindE (typeforce_check (p2wsh_input_check bip66 junk stack False)) (\<lambda>_.
       Inr (take (length stack - 1) stack, stack ! (length stack - 1)))"

subsection \<open>Data carriers\<close>

definition nulldata_check :: "(nat \<Rightarrow> byte) \<Rightarrow> script \<Rightarrow> bool result" where
  "nulldata_check junk script = bindE (compile junk script) (\<lambda>buffer.
     Inr (length buffer > 1 \<and> byte_is buffer 0 OP_RETURN))"

definition nulldata_encode :: "(nat \<Rightarrow> byte) \<Rightarrow> buffer \<Rightarrow> buffer result" where
  "nulldata_encode junk data = compile junk (Chunks [Op OP_RETURN, Data data])"

definition nulldata_decode :: "(nat \<Rightarrow> byte) \<Rightarrow> buffer \<Rightarrow> buffer result" where
  "nulldata_decode junk buffer = bindE (typeforce_check (nulldata_check junk (Raw buffer))) (\<lambda>_. Inr (drop 2 buffer))"

definition witnesscommitment_HEADER :: buffer where
  "witnesscommitment_HEADER = [0xaa, 0x21, 0xa9, 0xed]"

definition witnesscommitment_check :: "(nat \<Rightarrow> byte) \<Rightarrow> script \<Rightarrow> bool result" where
  "witnesscommitment_check junk script = bindE (compile junk script) (\<lambda>buffer.
     Inr (length buffer > 37 \<and> byte_is buffer 0 OP_RETURN \<and> byte_is buffer 1 0x24 \<and>
       slice buffer 2 6 = witnesscommitment_HEADER))"

definition witnesscommitment_encode :: "(nat \<Rightarrow> byte) \<Rightarrow> buffer \<Rightarrow> buffer result" where
  "witnesscommitment_encode junk commitment =
     bindE (assertE (length commitment = 32) typeforce_error) (\<lambda>_.
       let buffer = allocUnsafe junk 36;
           buffer = fst (copy witnesscommitment_HEADER buffer 0);
           buffer = fst (copy commitment buffer 4) in
       compile junk (Chunks [Op OP_RETURN, Data buffer]))"

definition witnesscommitment_decode :: "(nat \<Rightarrow> byte) \<Rightarrow> buffer \<Rightarrow> buffer result" where
  "witnesscommitment_decode junk buffer =
     bindE (typeforce_check (witnesscommitment_check junk (Raw buffer))) (\<lambda>_.
     bindE (decompile (Raw buffer)) (\<lambda>chunks.
     if length chunks < 2 then Inl (TypeError ''undefined'')
     else (case chunks ! 1 of Data b \<Rightarrow> Inr (slice b 4 36) | Op _ \<Rightarrow> Inl (TypeError ''slice''))))"

subsection \<open>Classification\<close>

definition classifyOutput :: "(nat \<Rightarrow> byte) \<Rightarrow> script \<Rightarrow> script_type result" where
  "classifyOutput junk script =
     bindE (p2wpkh_output_check junk script) (\<lambda>c. if c then Inr P2WPKH else
     bindE (p2wsh_output_check junk script) (\<lambda>c. if c then Inr P2WSH else
     bindE (p2pkh_output_check junk script) (\<lambda>c. if c then Inr P2PKH else
     bindE (p2sh_output_check junk script) (\<lambda>c. if c then Inr P2SH else
     bindE (decompile script) (\<lambda>chunks.
     bindE (p2ms_output_check (Chunks chunks) False) (\<lambda>c. if c then Inr MULTISIG else
     bindE (p2pk_output_check (Chunks chunks)) (\<lambda>c. if c then Inr P2PK else
     bindE (witnesscommitment_check junk (Chunks chunks)) (\<lambda>c. if c then Inr WITNESS_COMMITMENT else
     bindE (nulldata_check junk (Chunks chunks)) (\<lambda>c. if c then Inr NULLDATA else
     Inr NONSTANDARD)))))))))"

definition classifyInput :: "(buffer \<Rightarrow> bool) \<Rightarrow> (nat \<Rightarrow> byte) \<Rightarrow> script \<Rightarrow> bool \<Rightarrow> script_type result" where
  "classifyInput bip66 junk script allowIncomplete =
     bindE (decompile script) (\<lambda>chunks.
     bindE (p2pkh_input_check bip66 (Chunks chunks)) (\<lambda>c. if c then Inr P2PKH else
     bindE (p2sh_input_check bip66 junk (Chunks chunks) allowIncomplete) (\<lambda>c. if c then Inr P2SH else
     bindE (p2ms_input_check bip66 (Chunks chunks) allowIncomplete) (\<lambda>c. if c then Inr MULTISIG else
     bindE (p2pk_input_check bip66 (Chunks chunks)) (\<lambda>c. if c then Inr P2PK else
     Inr NONSTANDARD)))))"

definition classifyWitness :: "(buffer \<Rightarrow> bool) \<Rightarrow> (nat \<Rightarrow> byte) \<Rightarrow> script \<Rightarrow> bool \<Rightarrow> script_type result" where
  "classifyWitness bip66 junk script allowIncomplete =
     bindE (decompile script) (\<lambda>chunks.
     bindE (p2wpkh_input_check bip66 (Chunks chunks)) (\<lambda>c. if c then Inr P2WPKH else
     bindE (p2wsh_input_check bip66 junk chunks allowIncomplete) (\<lambda>c. if c then Inr P2WSH else
     Inr NONSTANDARD)))"

subsection \<open>The laws of a template that frames a hash\<close>

lemma byte_is_iff: "n < 256 \<Longrightarrow> byte_is b i n \<longleftrightarrow> i < length b \<and> b ! i = word_of_nat n"
  by (auto simp: byte_at_def unat_word_of_nat_byte dest: byte_eqI)

lemma typeforce_check_simps [simp]:
  "typeforce_check (Inr True) = Inr ()"
  "typeforce_check (Inr False) = Inl typeforce_error"
  "typeforce_check (Inl e) = Inl e"
  by (simp_all add: typeforce_check_def)

locale hash_template =
  fixes check :: "script \<Rightarrow> bool result"
    and enc :: "buffer \<Rightarrow> buffer result"
    and dec :: "buffer \<Rightarrow> buffer result"
    and pre suf :: buffer
    and n :: nat
  assumes check_raw: "check (Raw b) =
      Inr (length b = length pre + n + length suf \<and> take (length pre) b = pre \<and> drop (length pre + n) b = suf)"
    and enc_bytes: "length h = n \<Longrightarrow> enc h = Inr (pre @ h @ suf)"
    and enc_error: "length h \<noteq> n \<Longrightarrow> enc h = Inl typeforce_error"
    and dec_slice: "check (Raw b) = Inr True \<Longrightarrow> dec b = Inr (slice b (length pre) (length pre + n))"
    and dec_error: "check (Raw b) = Inr False \<Longrightarrow> dec b = Inl typeforce_error"
begin

lemma check_iff: "check (Raw b) = Inr True \<longleftrightarrow> (\<exists>h. length h = n \<and> b = pre @ h @ suf)"
proof
  assume "check (Raw b) = Inr True"
  then have b: "length b = length pre + n + length suf" "take (length pre) b = pre" "drop (length pre + n) b = suf"
    by (simp_all add: check_raw)
  let ?h = "slice b (length pre) (length pre + n)"
  have "b = take (length pre) b @ take n (drop (length pre) b) @ drop n (drop (length pre) b)"
    by (metis append_take_drop_id)
  then have "b = pre @ ?h @ suf" using b by (simp add: slice_def add.commute)
  moreover have "length ?h = n" using b(1) by (simp add: slice_def)
  ultimately show "\<exists>h. length h = n \<and> b = pre @ h @ suf" by blast
qed (auto simp: check_raw)

lemma decode_framed: "length h = n \<Longrightarrow> dec (pre @ h @ suf) = Inr h"
  using dec_slice [of "pre @ h @ suf"] by (auto simp: check_raw slice_def)

lemma decode_iff: "dec b = Inr h \<longleftrightarrow> enc h = Inr b"
proof (cases "check (Raw b) = Inr True")
  case True
  then obtain g where "length g = n" "b = pre @ g @ suf" by (auto simp: check_iff)
  then show ?thesis by (cases "length h = n") (auto simp: decode_framed enc_bytes enc_error)
next
  case False
  then have "check (Raw b) = Inr False" by (auto simp: check_raw)
  then show ?thesis using False by (cases "length h = n") (auto simp: dec_error enc_bytes enc_error check_raw)
qed

lemma encodable_iff: "(\<exists>h. enc h = Inr b) \<longleftrightarrow> check (Raw b) = Inr True"
  unfolding check_iff by (metis Inl_Inr_False Inr_inject enc_bytes enc_error)

end

lemma push_hash: "length h = n \<Longrightarrow> 2 \<le> n \<Longrightarrow> n \<le> 75 \<Longrightarrow> chunk_bytes (Data h) = word_of_nat n # h"
  by (simp add: chunk_bytes_def push_bytes_def pushdata_bytes_def asMinimalOP_def)

lemma compile_Raw [simp]: "compile junk (Raw b) = Inr b"
  by simp

lemma drop_two: "length b = Suc (Suc k) \<Longrightarrow> drop k b = [b ! k, b ! Suc k]"
  by (metis Cons_nth_drop_Suc drop_all le_refl lessI less_Suc_eq)

lemma drop_one: "length b = Suc k \<Longrightarrow> drop k b = [b ! k]"
  by (metis Cons_nth_drop_Suc drop_all le_refl lessI)

lemma take_two: "2 \<le> length b \<Longrightarrow> take 2 b = [b ! 0, b ! 1]"
  by (auto simp: numeral_2_eq_2 Suc_le_length_iff)

lemma take_three: "3 \<le> length b \<Longrightarrow> take 3 b = [b ! 0, b ! 1, b ! 2]"
  by (auto simp: numeral_3_eq_3 numeral_2_eq_2 Suc_le_length_iff)

interpretation p2pkh: hash_template "p2pkh_output_check junk" "p2pkh_output_encode junk" "p2pkh_output_decode junk"
  "[0x76, 0xa9, 0x14]" "[0x88, 0xac]" 20 for junk
proof
  fix b h :: buffer
  show c: "p2pkh_output_check junk (Raw b) = Inr (length b = length [0x76, 0xa9, 0x14 :: byte] + 20 + length [0x88, 0xac :: byte] \<and>
      take (length [0x76, 0xa9, 0x14 :: byte]) b = [0x76, 0xa9, 0x14] \<and> drop (length [0x76, 0xa9, 0x14 :: byte] + 20) b = [0x88, 0xac])"
    using drop_two [of b 23] take_three [of b]
    by (auto simp: p2pkh_output_check_def byte_is_iff numeral_3_eq_3 [symmetric])
  show "length h = 20 \<Longrightarrow> p2pkh_output_encode junk h = Inr ([0x76, 0xa9, 0x14] @ h @ [0x88, 0xac])"
    by (simp add: p2pkh_output_encode_def compile_bytes chunk_simps(1-3) push_hash del: compile.simps)
  show "length h \<noteq> 20 \<Longrightarrow> p2pkh_output_encode junk h = Inl typeforce_error"
    by (simp add: p2pkh_output_encode_def)
qed (simp_all add: p2pkh_output_decode_def numeral_eq_Suc)

interpretation p2sh: hash_template "p2sh_output_check junk" "p2sh_output_encode junk" "p2sh_output_decode junk"
  "[0xa9, 0x14]" "[0x87]" 20 for junk
proof
  fix b h :: buffer
  show "p2sh_output_check junk (Raw b) = Inr (length b = length [0xa9, 0x14 :: byte] + 20 + length [0x87 :: byte] \<and>
      take (length [0xa9, 0x14 :: byte]) b = [0xa9, 0x14] \<and> drop (length [0xa9, 0x14 :: byte] + 20) b = [0x87])"
    using drop_one [of b 22] take_two [of b]
    by (auto simp: p2sh_output_check_def byte_is_iff numeral_2_eq_2 [symmetric])
  show "length h = 20 \<Longrightarrow> p2sh_output_encode junk h = Inr ([0xa9, 0x14] @ h @ [0x87])"
    by (simp add: p2sh_output_encode_def compile_bytes chunk_simps(1-3) push_hash del: compile.simps)
  show "length h \<noteq> 20 \<Longrightarrow> p2sh_output_encode junk h = Inl typeforce_error"
    by (simp add: p2sh_output_encode_def)
qed (simp_all add: p2sh_output_decode_def numeral_eq_Suc)

interpretation p2wpkh: hash_template "p2wpkh_output_check junk" "p2wpkh_output_encode junk" "p2wpkh_output_decode junk"
  "[0, 0x14]" "[]" 20 for junk
proof
  fix b h :: buffer
  show c: "p2wpkh_output_check junk (Raw b) = Inr (length b = length [0, 0x14 :: byte] + 20 + length ([] :: buffer) \<and>
      take (length [0, 0x14 :: byte]) b = [0, 0x14] \<and> drop (length [0, 0x14 :: byte] + 20) b = [])"
    using take_two [of b] by (auto simp: p2wpkh_output_check_def byte_is_iff numeral_2_eq_2 [symmetric])
  show "length h = 20 \<Longrightarrow> p2wpkh_output_encode junk h = Inr ([0, 0x14] @ h @ [])"
    by (simp add: p2wpkh_output_encode_def compile_bytes chunk_simps(1-3) push_hash del: compile.simps)
  show "length h \<noteq> 20 \<Longrightarrow> p2wpkh_output_encode junk h = Inl typeforce_error"
    by (simp add: p2wpkh_output_encode_def)
  show "p2wpkh_output_check junk (Raw b) = Inr True \<Longrightarrow>
      p2wpkh_output_decode junk b = Inr (slice b (length [0, 0x14 :: byte]) (length [0, 0x14 :: byte] + 20))"
    using c by (auto simp: p2wpkh_output_decode_def slice_def numeral_2_eq_2)
qed (simp add: p2wpkh_output_decode_def)

interpretation p2wsh: hash_template "p2wsh_output_check junk" "p2wsh_output_encode junk" "p2wsh_output_decode junk"
  "[0, 0x20]" "[]" 32 for junk
proof
  fix b h :: buffer
  show c: "p2wsh_output_check junk (Raw b) = Inr (length b = length [0, 0x20 :: byte] + 32 + length ([] :: buffer) \<and>
      take (length [0, 0x20 :: byte]) b = [0, 0x20] \<and> drop (length [0, 0x20 :: byte] + 32) b = [])"
    using take_two [of b] by (auto simp: p2wsh_output_check_def byte_is_iff numeral_2_eq_2 [symmetric])
  show "length h = 32 \<Longrightarrow> p2wsh_output_encode junk h = Inr ([0, 0x20] @ h @ [])"
    by (simp add: p2wsh_output_encode_def compile_bytes chunk_simps(1-3) push_hash del: compile.simps)
  show "length h \<noteq> 32 \<Longrightarrow> p2wsh_output_encode junk h = Inl typeforce_error"
    by (simp add: p2wsh_output_encode_def)
  show "p2wsh_output_check junk (Raw b) = Inr True \<Longrightarrow>
      p2wsh_output_decode junk b = Inr (slice b (length [0, 0x20 :: byte]) (length [0, 0x20 :: byte] + 32))"
    using c by (auto simp: p2wsh_output_decode_def slice_def numeral_2_eq_2)
qed (simp add: p2wsh_output_decode_def)

subsection \<open>The chunks of the framed hashes\<close>

lemma decompile_framed:
  "length h = 20 \<Longrightarrow> decompile (Raw (0x76 # 0xa9 # 0x14 # h @ [0x88, 0xac])) =
     Inr [Op 0x76, Op 0xa9, Data h, Op 0x88, Op 0xac]"
  "length h = 20 \<Longrightarrow> decompile (Raw (0xa9 # 0x14 # h @ [0x87])) = Inr [Op 0xa9, Data h, Op 0x87]"
  "length h = 20 \<Longrightarrow> decompile (Raw (0 # 0x14 # h)) = Inr [Op 0, Data h]"
  "length h = 32 \<Longrightarrow> decompile (Raw (0 # 0x20 # h)) = Inr [Op 0, Data h]"
  using decompile_bytes(1) [of "[Op 0x76, Op 0xa9, Data h, Op 0x88, Op 0xac]"]
    decompile_bytes(1) [of "[Op 0xa9, Data h, Op 0x87]"] decompile_bytes(1) [of "[Op 0, Data h]"]
  by (simp_all add: chunk_simps(1-3) push_hash chunk_plain_def normal_chunk_def minimal_chunk_def asMinimalOP_def
      del: decompile.simps)

subsection \<open>Classification of outputs\<close>

lemma recompile:
  "decompile (Raw b) = Inr cs \<Longrightarrow> compile junk (Chunks cs) = Inr (concat (map chunk_bytes cs))"
  using decompile_normal [of b cs] by (intro compile_bytes) (simp add: list_all_iff chunk_normal_def del: decompile.simps)

lemma byte_of_int_inject:
  assumes "0 \<le> n" "n < 256" "0 \<le> m" "m < 256"
  shows "(word_of_int n :: byte) = word_of_int m \<longleftrightarrow> n = m"
  using assms by (simp add: word_of_int_eq_iff take_bit_int_eq_self)

lemma chunk_bytes_first:
  assumes "chunk_normal c"
  shows "\<exists>x xs. chunk_bytes c = x # xs \<and> (x = 0x6a \<longleftrightarrow> c = Op 0x6a)" and "c = Op n \<Longrightarrow> length (chunk_bytes c) = 1"
proof -
  show "\<exists>x xs. chunk_bytes c = x # xs \<and> (x = 0x6a \<longleftrightarrow> c = Op 0x6a)"
  proof (cases c)
    case (Op n)
    then have "0 \<le> n" "n < 256" using assms by (auto simp: chunk_normal_def chunk_ok_def)
    then have "(word_of_int n :: byte) = 0x6a \<longleftrightarrow> n = 0x6a"
      using byte_of_int_inject [of n "0x6a"] by simp
    then show ?thesis using Op by (simp add: chunk_bytes_def)
  next
    case (Data d)
    then have "asMinimalOP d = None" using assms
      by (auto simp: chunk_normal_def normal_chunk_def minimal_chunk_def split: option.splits)
    moreover have "word_of_nat (length d) = (0x6a :: byte) \<longleftrightarrow> False" if "length d < 76"
      using that byte_of_int_inject [of "int (length d)" "0x6a"] by simp
    ultimately show ?thesis using Data
      by (auto simp: chunk_bytes_def push_bytes_def pushdata_bytes_def)
  qed
qed (simp add: chunk_bytes_def)

lemma carrier_chunks:
  assumes "list_all chunk_normal cs"
  shows "length (concat (map chunk_bytes cs)) > 1 \<and> byte_is (concat (map chunk_bytes cs)) 0 0x6a \<longleftrightarrow>
    length cs > 1 \<and> cs ! 0 = Op 0x6a"
proof (cases cs)
  case (Cons c ds)
  obtain x xs where c: "chunk_bytes c = x # xs" "x = 0x6a \<longleftrightarrow> c = Op 0x6a"
    using chunk_bytes_first(1) [of c] assms Cons by auto
  have "chunk_bytes d \<noteq> []" if "d \<in> set ds" for d
    using chunk_bytes_first(1) [of d] assms Cons that by (auto simp: list_all_iff)
  then have "concat (map chunk_bytes ds) = [] \<longleftrightarrow> ds = []" by (cases ds) auto
  then show ?thesis using c Cons by (auto simp: byte_is_iff chunk_bytes_def)
qed simp

lemma p2ms_check_chunks:
  assumes "p2ms_output_check (Chunks cs) a = Inr True"
  shows "4 \<le> length cs" "cs ! (length cs - 1) = Op OP_CHECKMULTISIG"
    "\<exists>c. cs ! 0 = Op c \<and> OP_RESERVED < c \<and> c \<le> OP_16"
  using assms by (auto simp: p2ms_output_check_def Let_def split: if_splits chunk.splits)

lemma p2pk_check_chunks:
  "p2pk_output_check (Chunks cs) = Inr True \<longleftrightarrow> (\<exists>k. cs = [Data k, Op OP_CHECKSIG] \<and> isCanonicalPubKey (Data k))"
proof -
  have "length cs = 2 \<and> isCanonicalPubKey (cs ! 0) \<and> cs ! 1 = Op OP_CHECKSIG \<longleftrightarrow>
      (\<exists>c. cs = [c, Op OP_CHECKSIG] \<and> isCanonicalPubKey c)"
    by (auto simp: length_Suc_conv numeral_2_eq_2)
  moreover have "isCanonicalPubKey c \<Longrightarrow> \<exists>k. c = Data k" for c
    by (cases c) (simp_all add: isCanonicalPubKey_def)
  ultimately show ?thesis by (auto simp: p2pk_output_check_def)
qed

lemma decode_checks:
  assumes "decompile (Raw b) = Inr cs"
  shows "(\<exists>x. p2ms_output_decode b a = Inr x) \<longleftrightarrow> p2ms_output_check (Chunks cs) a = Inr True"
    and "(\<exists>k. p2pk_output_decode b = Inr k) \<longleftrightarrow> p2pk_output_check (Chunks cs) = Inr True"
proof -
  obtain m k where "p2ms_output_check (Chunks cs) a = Inr m" "p2pk_output_check (Chunks cs) = Inr k"
    by (simp add: p2ms_output_check_def p2pk_output_check_def)
  then show "(\<exists>x. p2ms_output_decode b a = Inr x) \<longleftrightarrow> p2ms_output_check (Chunks cs) a = Inr True"
    "(\<exists>k. p2pk_output_decode b = Inr k) \<longleftrightarrow> p2pk_output_check (Chunks cs) = Inr True"
    using assms by (cases m; cases k; simp add: p2ms_output_decode_def p2pk_output_decode_def del: decompile.simps)+
qed

lemma carrier_checks:
  assumes "decompile (Raw b) = Inr cs"
  shows "\<exists>w n. witnesscommitment_check junk (Chunks cs) = Inr w \<and> nulldata_check junk (Chunks cs) = Inr n \<and>
    (w \<or> n \<longleftrightarrow> length cs > 1 \<and> cs ! 0 = Op OP_RETURN)"
  using carrier_chunks [OF decompile_normal [OF assms]] recompile [OF assms, of junk]
  by (auto simp: witnesscommitment_check_def nulldata_check_def simp del: compile.simps)

lemma framed_not_bare:
  assumes "p2pkh_output_check junk (Raw b) = Inr True \<or> p2sh_output_check junk (Raw b) = Inr True \<or>
      p2wpkh_output_check junk (Raw b) = Inr True \<or> p2wsh_output_check junk (Raw b) = Inr True"
    and "decompile (Raw b) = Inr cs"
  shows "p2ms_output_check (Chunks cs) False \<noteq> Inr True" "p2pk_output_check (Chunks cs) \<noteq> Inr True"
    "cs ! 0 \<noteq> Op OP_RETURN"
proof -
  from assms(1) have "cs \<in> {[Op 0x76, Op 0xa9, Data h, Op 0x88, Op 0xac] | h. True} \<union> {[Op 0xa9, Data h, Op 0x87] | h. True} \<union>
      {[Op 0, Data h] | h. True}"
    unfolding p2pkh.check_iff p2sh.check_iff p2wpkh.check_iff p2wsh.check_iff
    using assms(2) by (elim disjE exE conjE) (auto simp: decompile_framed simp del: decompile.simps)
  then show "p2ms_output_check (Chunks cs) False \<noteq> Inr True" "p2pk_output_check (Chunks cs) \<noteq> Inr True"
    "cs ! 0 \<noteq> Op OP_RETURN"
    using p2ms_check_chunks(1,2) [of cs False] by (auto simp: p2pk_check_chunks)
qed

lemma framed_disjoint:
  "p2wpkh_output_check junk (Raw b) = Inr True \<Longrightarrow> length b = 22"
  "p2sh_output_check junk (Raw b) = Inr True \<Longrightarrow> length b = 23"
  "p2pkh_output_check junk (Raw b) = Inr True \<Longrightarrow> length b = 25"
  "p2wsh_output_check junk (Raw b) = Inr True \<Longrightarrow> length b = 34"
  unfolding p2pkh.check_iff p2sh.check_iff p2wpkh.check_iff p2wsh.check_iff by auto

lemma bare_disjoint:
  "p2ms_output_check (Chunks cs) a = Inr True \<Longrightarrow> p2pk_output_check (Chunks cs) \<noteq> Inr True \<and> cs ! 0 \<noteq> Op OP_RETURN"
  "p2pk_output_check (Chunks cs) = Inr True \<Longrightarrow> cs ! 0 \<noteq> Op OP_RETURN"
  using p2ms_check_chunks [of cs a] by (auto simp: p2pk_check_chunks)

lemma classifyOutput_cases:
  assumes "decompile (Raw b) = Inr cs"
  shows "\<exists>w n. (w \<or> n \<longleftrightarrow> length cs > 1 \<and> cs ! 0 = Op OP_RETURN) \<and>
    classifyOutput junk (Raw b) = Inr (
      if p2wpkh_output_check junk (Raw b) = Inr True then P2WPKH
      else if p2wsh_output_check junk (Raw b) = Inr True then P2WSH
      else if p2pkh_output_check junk (Raw b) = Inr True then P2PKH
      else if p2sh_output_check junk (Raw b) = Inr True then P2SH
      else if p2ms_output_check (Chunks cs) False = Inr True then MULTISIG
      else if p2pk_output_check (Chunks cs) = Inr True then P2PK
      else if w then WITNESS_COMMITMENT else if n then NULLDATA else NONSTANDARD)"
proof -
  obtain w n where "witnesscommitment_check junk (Chunks cs) = Inr w" "nulldata_check junk (Chunks cs) = Inr n"
    "w \<or> n \<longleftrightarrow> length cs > 1 \<and> cs ! 0 = Op OP_RETURN"
    using carrier_checks [OF assms] by blast
  moreover obtain m k where "p2ms_output_check (Chunks cs) False = Inr m" "p2pk_output_check (Chunks cs) = Inr k"
    by (simp add: p2ms_output_check_def p2pk_output_check_def)
  ultimately show ?thesis
    using assms by (intro exI [of _ w] exI [of _ n])
      (simp add: classifyOutput_def p2wpkh.check_raw p2wsh.check_raw p2pkh.check_raw p2sh.check_raw del: decompile.simps)
qed

text \<open>C23. For each of the four templates that frame a hash (\<open>pubkeyhash\<close>, \<open>scripthash\<close> and their
  witness forms), decoding is exactly the inverse of encoding: \<open>decode\<close> returns \<open>h\<close> for a script if
  and only if the script is the encoding of \<open>h\<close>. So no other script decodes, and \<open>encode\<close> is
  injective.\<close>

theorem hash_templates_inverse:
  "(p2pkh_output_decode junk b = Inr h \<longleftrightarrow> p2pkh_output_encode junk h = Inr b) \<and>
   (p2sh_output_decode junk b = Inr h \<longleftrightarrow> p2sh_output_encode junk h = Inr b) \<and>
   (p2wpkh_output_decode junk b = Inr h \<longleftrightarrow> p2wpkh_output_encode junk h = Inr b) \<and>
   (p2wsh_output_decode junk b = Inr h \<longleftrightarrow> p2wsh_output_encode junk h = Inr b)"
  using p2pkh.decode_iff p2sh.decode_iff p2wpkh.decode_iff p2wsh.decode_iff by simp

text \<open>C19. \<open>classifyOutput\<close> returns a type for every byte string, and the order of its tests does not
  matter for the types it names: a script is classified as one of the hash templates exactly when it is
  an encoding of that template, as \<open>multisig\<close> or \<open>pubkey\<close> exactly when that template decodes it, and
  as a commitment or data carrier exactly when it parses to \<open>OP_RETURN\<close> and at least one more chunk.\<close>

theorem classifyOutput_spec:
  "\<exists>t. classifyOutput junk (Raw b) = Inr t \<and>
     (t = P2PKH \<longleftrightarrow> (\<exists>h. p2pkh_output_encode junk h = Inr b)) \<and>
     (t = P2SH \<longleftrightarrow> (\<exists>h. p2sh_output_encode junk h = Inr b)) \<and>
     (t = P2WPKH \<longleftrightarrow> (\<exists>h. p2wpkh_output_encode junk h = Inr b)) \<and>
     (t = P2WSH \<longleftrightarrow> (\<exists>h. p2wsh_output_encode junk h = Inr b)) \<and>
     (t = MULTISIG \<longleftrightarrow> (\<exists>x. p2ms_output_decode b False = Inr x)) \<and>
     (t = P2PK \<longleftrightarrow> (\<exists>k. p2pk_output_decode b = Inr k)) \<and>
     (t = WITNESS_COMMITMENT \<or> t = NULLDATA \<longleftrightarrow>
       (\<exists>c cs. decompile (Raw b) = Inr (Op OP_RETURN # c # cs)))"
proof -
  obtain cs where cs: "decompile (Raw b) = Inr cs" using decompile_total by blast
  have ret: "(\<exists>d ds. decompile (Raw b) = Inr (Op OP_RETURN # d # ds)) \<longleftrightarrow> length cs > 1 \<and> cs ! 0 = Op OP_RETURN"
    unfolding cs by (cases cs rule: remdups_adj.cases) auto
  show ?thesis
    unfolding p2pkh.encodable_iff p2sh.encodable_iff p2wpkh.encodable_iff p2wsh.encodable_iff decode_checks [OF cs] ret
    using classifyOutput_cases [OF cs, of junk] framed_not_bare [OF _ cs, of junk] framed_disjoint [of junk b]
      bare_disjoint [of cs]
    by (elim exE conjE) (intro exI conjI, assumption, auto)
qed

lemma canonical_key:
  assumes "isCanonicalPubKey (Data k)"
  shows "33 \<le> length k" "length k < 2 ^ 32" "asMinimalOP k = None"
  using assms by (auto simp: isCanonicalPubKey_def asMinimalOP_def split: if_splits)

lemma multisig_chunks:
  assumes "list_all (\<lambda>k. isCanonicalPubKey (Data k)) keys"
  shows "list_all chunk_data_ok ([Op c] @ map Data keys @ [Op e, Op OP_CHECKMULTISIG])"
    and "list_all chunk_ok ([Op c] @ map Data keys @ [Op e, Op OP_CHECKMULTISIG]) \<longleftrightarrow>
      0 \<le> c \<and> c < 256 \<and> 0 \<le> e \<and> e < 256"
    and "list_all chunk_plain ([Op c] @ map Data keys @ [Op e, Op OP_CHECKMULTISIG]) \<longleftrightarrow>
      (c = 0 \<or> 78 < c) \<and> (e = 0 \<or> 78 < e)"
    and "map normal_chunk ([Op c] @ map Data keys @ [Op e, Op OP_CHECKMULTISIG]) =
      [Op c] @ map Data keys @ [Op e, Op OP_CHECKMULTISIG]"
proof -
  have "chunk_ok (Data k) \<and> chunk_data_ok (Data k) \<and> normal_chunk (Data k) = Data k" if "k \<in> set keys" for k
    using canonical_key [of k] assms that
    by (simp add: list_all_iff chunk_ok_def chunk_data_ok_def normal_chunk_def minimal_chunk_def)
  then show "list_all chunk_data_ok ([Op c] @ map Data keys @ [Op e, Op OP_CHECKMULTISIG])"
    "list_all chunk_ok ([Op c] @ map Data keys @ [Op e, Op OP_CHECKMULTISIG]) \<longleftrightarrow>
      0 \<le> c \<and> c < 256 \<and> 0 \<le> e \<and> e < 256"
    "list_all chunk_plain ([Op c] @ map Data keys @ [Op e, Op OP_CHECKMULTISIG]) \<longleftrightarrow>
      (c = 0 \<or> 78 < c) \<and> (e = 0 \<or> 78 < e)"
    "map normal_chunk ([Op c] @ map Data keys @ [Op e, Op OP_CHECKMULTISIG]) =
      [Op c] @ map Data keys @ [Op e, Op OP_CHECKMULTISIG]"
    by (auto simp: list_all_iff chunk_data_ok_def chunk_plain_def normal_chunk_def chunk_ok_def)
qed

lemma p2ms_encode_bytes:
  assumes "list_all (\<lambda>k. isCanonicalPubKey (Data k)) keys"
  shows "p2ms_output_encode junk m keys =
    (if int (length keys) < m then Inl (TypeError ''Not enough pubKeys provided'')
     else if -80 \<le> m \<and> length keys < 176
     then Inr (concat (map chunk_bytes ([Op (80 + m)] @ map Data keys @ [Op (80 + int (length keys)), Op OP_CHECKMULTISIG])))
     else Inl ERR_OUT_OF_RANGE)"
proof -
  let ?cs = "[Op (80 + m)] @ map Data keys @ [Op (80 + int (length keys)), Op OP_CHECKMULTISIG]"
  have "compile junk (Chunks ?cs) = (if list_all chunk_ok ?cs then Inr (concat (map chunk_bytes ?cs)) else Inl ERR_OUT_OF_RANGE)"
    using compile_bytes [of ?cs junk] compile_loop_fails [OF multisig_chunks(1) [OF assms], of "80 + m" "80 + int (length keys)" "allocUnsafe junk _" "[]"]
    by (simp add: foldl_size)
  then show ?thesis
    using assms unfolding p2ms_output_encode_def multisig_chunks(2) [OF assms]
    by (auto simp: Let_def simp del: compile.simps)
qed

lemma p2ms_decode_sound:
  assumes "p2ms_output_decode b False = Inr (m, ks)"
  shows "1 \<le> m" "m \<le> int (length ks)" "length ks \<le> 16"
  using assms by (auto simp: p2ms_output_decode_def typeforce_check_def assertE_def p2ms_output_check_def Let_def
      simp del: decompile.simps(2) split: if_splits chunk.splits)

lemma p2ms_decode_bytes:
  assumes "list_all (\<lambda>k. isCanonicalPubKey (Data k)) keys" "1 \<le> m" "m \<le> int (length keys)" "length keys \<le> 16"
  shows "p2ms_output_decode (concat (map chunk_bytes
      ([Op (80 + m)] @ map Data keys @ [Op (80 + int (length keys)), Op OP_CHECKMULTISIG]))) a = Inr (m, map Data keys)"
proof -
  let ?cs = "[Op (80 + m)] @ map Data keys @ [Op (80 + int (length keys)), Op OP_CHECKMULTISIG]"
  have "decompile (Raw (concat (map chunk_bytes ?cs))) = Inr ?cs"
    using decompile_bytes(1) [of ?cs] assms multisig_chunks(2-4) [OF assms(1), of "80 + m" "80 + int (length keys)"] by simp
  moreover have "p2ms_output_check (Chunks ?cs) a = Inr True"
    using assms by (auto simp: p2ms_output_check_def Let_def nth_append list_all_iff Suc_le_eq length_greater_0_conv [symmetric]
        simp del: length_greater_0_conv)
  ultimately show ?thesis by (simp add: p2ms_output_decode_def del: decompile.simps)
qed

text \<open>C36. A \<open>multisig\<close> script decodes to the threshold and the keys it was encoded from if and only if
  the threshold is at least 1 and there are at most 16 keys; but \<open>encode\<close> only rejects thresholds above
  the number of keys, and otherwise fails only when an opcode does not fit in a byte, so it also returns
  scripts that \<open>check\<close> rejects.\<close>

theorem multisig_encode_decode:
  assumes "list_all (\<lambda>k. isCanonicalPubKey (Data k)) keys"
  shows "((\<exists>b. p2ms_output_encode junk m keys = Inr b) \<longleftrightarrow> -80 \<le> m \<and> m \<le> int (length keys) \<and> length keys < 176) \<and>
    (bindE (p2ms_output_encode junk m keys) (\<lambda>b. p2ms_output_decode b False) = Inr (m, map Data keys) \<longleftrightarrow>
       1 \<le> m \<and> m \<le> int (length keys) \<and> length keys \<le> 16)"
  using p2ms_decode_bytes [OF assms, of m False] p2ms_decode_sound [of _ m "map Data keys"]
  unfolding p2ms_encode_bytes [OF assms] by auto

theorem multisig_encode_decode_witness:
  "(\<exists>b. p2ms_output_encode (\<lambda>_. 0) 0 [2 # replicate 32 7] = Inr b) \<and>
   bindE (p2ms_output_encode (\<lambda>_. 0) 0 [2 # replicate 32 7]) (\<lambda>b. p2ms_output_decode b False) \<noteq> Inr (0, [Data (2 # replicate 32 7)]) \<and>
   bindE (p2ms_output_encode (\<lambda>_. 0) 1 [2 # replicate 32 7]) (\<lambda>b. p2ms_output_decode b False) = Inr (1, [Data (2 # replicate 32 7)])"
proof -
  have k: "list_all (\<lambda>k. isCanonicalPubKey (Data k)) [2 # replicate 32 7]" by (simp add: isCanonicalPubKey_def)
  show ?thesis
    using multisig_encode_decode [OF k, of "\<lambda>_. 0" 0] multisig_encode_decode [OF k, of "\<lambda>_. 0" 1]
    by (simp del: bindE_Inr_iff)
qed

text \<open>C37. \<open>decode\<close> of the \<open>nulldata\<close> template cuts two bytes off the script. It returns the encoded data
  exactly when the data is empty, or is pushed with a one-byte size: not for data of more than 75 bytes,
  whose size prefix is longer, and not for a single byte that \<open>compile\<close> writes as an opcode.\<close>

theorem nulldata_decode_inverse:
  assumes "length d < 2 ^ 32"
  shows "bindE (nulldata_encode junk d) (nulldata_decode junk') = Inr d \<longleftrightarrow>
    d = [] \<or> asMinimalOP d = None \<and> length d \<le> 75"
proof -
  have enc: "nulldata_encode junk d = Inr (0x6a # chunk_bytes (Data d))"
    using assms by (simp add: nulldata_encode_def compile_bytes chunk_simps(1-3) del: compile.simps)
  have "chunk_bytes (Data d) \<noteq> []"
    by (auto simp: chunk_bytes_def push_bytes_def pushdata_bytes_def split: option.splits)
  then have "nulldata_decode junk' (0x6a # chunk_bytes (Data d)) = Inr (drop 1 (chunk_bytes (Data d)))"
    by (simp add: nulldata_decode_def nulldata_check_def byte_is_iff)
  moreover have "drop 1 (chunk_bytes (Data d)) = d \<longleftrightarrow> d = [] \<or> asMinimalOP d = None \<and> length d \<le> 75"
  proof (cases "asMinimalOP d")
    case None
    have "drop 1 (push_bytes d) = d \<Longrightarrow> length (push_bytes d) = length d + 1"
      by (metis Suc_eq_plus1 Suc_pred' add.commute length_0_conv length_drop length_greater_0_conv drop_Nil
          None asMinimalOP_None_pos)
    then show ?thesis using None by (auto simp: chunk_bytes_def push_bytes_def pushdata_bytes_def split: if_splits)
  qed (auto simp: chunk_bytes_def)
  ultimately show ?thesis using enc by simp
qed

theorem nulldata_decode_inverse_witness:
  "bindE (nulldata_encode (\<lambda>_. 0) [1, 2]) (nulldata_decode (\<lambda>_. 0)) = Inr [1, 2] \<and>
   bindE (nulldata_encode (\<lambda>_. 0) [5]) (nulldata_decode (\<lambda>_. 0)) \<noteq> Inr [5] \<and>
   bindE (nulldata_encode (\<lambda>_. 0) (replicate 76 5)) (nulldata_decode (\<lambda>_. 0)) \<noteq> Inr (replicate 76 5)"
  using nulldata_decode_inverse [of "[1, 2]"] nulldata_decode_inverse [of "[5]"] nulldata_decode_inverse [of "replicate 76 5"]
  by (simp add: asMinimalOP_def del: bindE_Inr_iff)

end
