(* ===== verification/Address.thy ===== *)
theory Address
  imports Templates Script_Asm
begin

text \<open>
  \<open>ecashjs-lib/src/address.js\<close>: addresses of the hash templates. The packages \<open>bs58check\<close> and
  \<open>bech32\<close> are parameters; what the round trip needs of them is the locale \<open>address_codecs\<close>.
\<close>

record codecs =
  bs58check_encode :: "buffer \<Rightarrow> string"
  bs58check_decode :: "string \<Rightarrow> buffer result"
  bech32_encode :: "string option \<Rightarrow> nat list \<Rightarrow> string result"
  bech32_decode :: "string \<Rightarrow> (string \<times> nat list) result"
  bech32_toWords :: "buffer \<Rightarrow> nat list"
  bech32_fromWords :: "nat list \<Rightarrow> buffer result"

record base58_address =
  b58_version :: nat
  b58_hash :: buffer

record bech32_address =
  b32_version :: "nat option"
  b32_prefix :: string
  b32_data :: buffer

definition fromBase58Check :: "codecs \<Rightarrow> string \<Rightarrow> base58_address result" where
  "fromBase58Check c address =
     bindE (bs58check_decode c address) (\<lambda>payload.
     if length payload < 21 then Inl (TypeError (address @ '' is too short''))
     else if length payload > 21 then Inl (TypeError (address @ '' is too long''))
     else
       bindE (readUInt8 payload 0) (\<lambda>version.
       Inr \<lparr>b58_version = version, b58_hash = drop 1 payload\<rparr>))"

text \<open>The version of an address without words is \<open>undefined\<close>.\<close>

definition fromBech32 :: "codecs \<Rightarrow> string \<Rightarrow> bech32_address result" where
  "fromBech32 c address =
     bindE (bech32_decode c address) (\<lambda>(prefix, words).
     bindE (bech32_fromWords c (drop 1 words)) (\<lambda>data.
     Inr \<lparr>b32_version = (if words = [] then None else Some (words ! 0)), b32_prefix = prefix, b32_data = data\<rparr>))"

definition toBase58Check :: "codecs \<Rightarrow> (nat \<Rightarrow> byte) \<Rightarrow> buffer \<Rightarrow> int \<Rightarrow> string result" where
  "toBase58Check c junk hash version =
     bindE (assertE (length hash = 20 \<and> 0 \<le> version \<and> version \<le> 255) typeforce_error) (\<lambda>_.
     bindE (writeUInt8 (allocUnsafe junk 21) version 0) (\<lambda>payload.
     Inr (bs58check_encode c (fst (copy hash payload 1)))))"

definition toBech32 :: "codecs \<Rightarrow> buffer \<Rightarrow> nat \<Rightarrow> string option \<Rightarrow> string result" where
  "toBech32 c data version prefix = bech32_encode c prefix (version # bech32_toWords c data)"

definition fromOutputScript ::
    "codecs \<Rightarrow> (nat \<Rightarrow> byte) \<Rightarrow> script \<Rightarrow> network option \<Rightarrow> string result" where
  "fromOutputScript c junk outputScript network =
     (let network = (case network of None \<Rightarrow> network_bitcoin | Some n \<Rightarrow> n) in
      bindE (p2pkh_output_check junk outputScript) (\<lambda>ok. if ok then
        bindE (compile junk outputScript) (\<lambda>b. toBase58Check c junk (slice b 3 23) (int (net_pubKeyHash network))) else
      bindE (p2sh_output_check junk outputScript) (\<lambda>ok. if ok then
        bindE (compile junk outputScript) (\<lambda>b. toBase58Check c junk (slice b 2 22) (int (net_scriptHash network))) else
      bindE (p2wpkh_output_check junk outputScript) (\<lambda>ok. if ok then
        bindE (compile junk outputScript) (\<lambda>b. toBech32 c (slice b 2 22) 0 (net_bech32 network)) else
      bindE (p2wsh_output_check junk outputScript) (\<lambda>ok. if ok then
        bindE (compile junk outputScript) (\<lambda>b. toBech32 c (slice b 2 34) 0 (net_bech32 network)) else
      bindE (toASM outputScript) (\<lambda>asm. Inl (Error (asm @ '' has no matching Address''))))))))"

text \<open>An exception of one of the decoders is caught; the address is then tried as the other kind.\<close>

definition toOutputScript ::
    "codecs \<Rightarrow> (nat \<Rightarrow> byte) \<Rightarrow> string \<Rightarrow> network option \<Rightarrow> buffer result" where
  "toOutputScript c junk address network =
     (let network = (case network of None \<Rightarrow> network_bitcoin | Some n \<Rightarrow> n);
          no_match = Inl (Error (address @ '' has no matching Script'')) in
      case fromBase58Check c address of
        Inr decode \<Rightarrow>
          if b58_version decode = net_pubKeyHash network then p2pkh_output_encode junk (b58_hash decode)
          else if b58_version decode = net_scriptHash network then p2sh_output_encode junk (b58_hash decode)
          else no_match
      | Inl _ \<Rightarrow>
          (case fromBech32 c address of
             Inr decode \<Rightarrow>
               if Some (b32_prefix decode) \<noteq> net_bech32 network then Inl (Error (address @ '' has an invalid prefix''))
               else if b32_version decode = Some 0 \<and> length (b32_data decode) = 20
                 then p2wpkh_output_encode junk (b32_data decode)
               else if b32_version decode = Some 0 \<and> length (b32_data decode) = 32
                 then p2wsh_output_encode junk (b32_data decode)
               else no_match
           | Inl _ \<Rightarrow> no_match))"

subsection \<open>What the codecs promise\<close>

definition lower_case :: "string \<Rightarrow> bool" where
  "lower_case s = list_all (\<lambda>x. \<not> (65 \<le> (of_char x :: nat) \<and> (of_char x :: nat) \<le> 90)) s"

locale address_codecs =
  fixes c :: codecs
  assumes bs58check: "bs58check_decode c (bs58check_encode c b) = Inr b"
    and bech32: "bech32_encode c p ws = Inr s \<Longrightarrow> pred_option lower_case p \<Longrightarrow> \<exists>q. p = Some q \<and> bech32_decode c s = Inr (q, ws)"
    and words: "bech32_fromWords c (bech32_toWords c b) = Inr b"
    and length_words: "length (bech32_toWords c b) = (8 * length b + 4) div 5"
    and bech32_long: "bech32_encode c p ws = Inr s \<Longrightarrow> 32 < length ws \<Longrightarrow> bs58check_decode c s = Inr b \<Longrightarrow> 21 < length b"
begin

lemma base58_roundtrip:
  assumes "toBase58Check c junk hash version = Inr a"
  shows "fromBase58Check c a = Inr \<lparr>b58_version = nat version, b58_hash = hash\<rparr>" "length hash = 20"
proof -
  from assms have h: "length hash = 20" "0 \<le> version" "version \<le> 255"
    by (auto simp: toBase58Check_def assertE_def split: if_splits)
  then have "writeUInt8 (allocUnsafe junk 21) version 0 = Inr (word_of_nat (nat version) # drop 1 (allocUnsafe junk 21))"
    using writeUInt8_fits [of version 0 "allocUnsafe junk 21"] by (simp add: put_def)
  moreover have "fst (copy hash (x # drop 1 (allocUnsafe junk 21)) 1) = x # hash" for x
    using copy_append [of hash "drop 1 (allocUnsafe junk 21)" "[x]"] h by simp
  ultimately have "a = bs58check_encode c (word_of_nat (nat version) # hash)"
    using assms h by (simp add: toBase58Check_def)
  then show "fromBase58Check c a = Inr \<lparr>b58_version = nat version, b58_hash = hash\<rparr>" "length hash = 20"
    using h unat_word_of_nat_byte [of "nat version"] by (simp_all add: fromBase58Check_def bs58check readUInt8_eq)
qed

lemma bech32_roundtrip:
  assumes "toBech32 c data v p = Inr a" "pred_option lower_case p" "20 \<le> length data"
  shows "\<exists>e. fromBase58Check c a = Inl e"
    and "\<exists>q. p = Some q \<and> fromBech32 c a = Inr \<lparr>b32_version = Some v, b32_prefix = q, b32_data = data\<rparr>"
proof -
  have "32 < length (v # bech32_toWords c data)" using assms(3) by (simp add: length_words)
  then show "\<exists>e. fromBase58Check c a = Inl e"
    using bech32_long [OF assms(1) [unfolded toBech32_def]] by (cases "bs58check_decode c a") (auto simp: fromBase58Check_def)
  show "\<exists>q. p = Some q \<and> fromBech32 c a = Inr \<lparr>b32_version = Some v, b32_prefix = q, b32_data = data\<rparr>"
    using bech32 [OF assms(1) [unfolded toBech32_def] assms(2)] by (auto simp: fromBech32_def words simp del: bindE_Inr_iff)
qed

end

text \<open>Stand-ins that satisfy the laws: base58check strings are marked with a first character, words are bytes,
  and the checksum of a bech32 string holds the number of its words.\<close>

definition plain_chars :: "buffer \<Rightarrow> string" where
  "plain_chars b = map (\<lambda>x. char_of (unat x)) b"

definition plain_bytes :: "string \<Rightarrow> buffer" where
  "plain_bytes s = map (\<lambda>x. word_of_nat (of_char x)) s"

lemma plain_inverse [simp]: "plain_bytes (plain_chars b) = b" "length (plain_chars b) = length b" "length (plain_bytes s) = length s"
  by (simp_all add: plain_bytes_def plain_chars_def o_def of_char_of)

definition plain_codecs :: codecs where
  "plain_codecs = \<lparr>
     bs58check_encode = (\<lambda>b. CHR 0x01 # plain_chars b),
     bs58check_decode = (\<lambda>s. case s of x # t \<Rightarrow> if x = CHR 0x01 then Inr (plain_bytes t) else Inl (Error ''Non-base58 character'')
        | [] \<Rightarrow> Inl (Error ''Invalid checksum'')),
     bech32_encode = (\<lambda>p ws. case p of None \<Rightarrow> Inl (TypeError ''undefined'') | Some p \<Rightarrow>
        if length ws < 256 ^ 6 \<and> list_all (\<lambda>w. w < 256) ws
        then Inr (p @ ''1'' @ plain_chars (map word_of_nat ws) @ plain_chars (le_bytes 6 (length ws))) else Inl (Error ''Non 5-bit word'')),
     bech32_decode = (\<lambda>s.
        let body = take (length s - 6) s; n = le_nat (plain_bytes (drop (length s - 6) s)) in
        Inr (take (length body - n - 1) body, map unat (plain_bytes (drop (length body - n) body)))),
     bech32_toWords = (\<lambda>b. map unat b @ replicate ((8 * length b + 4) div 5 - length b) 0),
     bech32_fromWords = (\<lambda>ws. Inr (map word_of_nat (take (5 * length ws div 8) ws)))\<rparr>"

lemma plain_words: "length b \<le> (8 * length b + 4) div 5" "5 * ((8 * length b + 4) div 5) div 8 = length b"
  by linarith+

interpretation plain: address_codecs plain_codecs
proof
  fix b s p ws
  show "bs58check_decode plain_codecs (bs58check_encode plain_codecs b) = Inr b"
    by (simp add: plain_codecs_def)
  show "\<exists>q. p = Some q \<and> bech32_decode plain_codecs s = Inr (q, ws)"
    if "bech32_encode plain_codecs p ws = Inr s" "pred_option lower_case p"
  proof -
    from that(1) obtain q where p: "p = Some q" "length ws < 256 ^ 6" "list_all (\<lambda>w. w < 256) ws"
        "s = (q @ ''1'' @ plain_chars (map word_of_nat ws)) @ plain_chars (le_bytes 6 (length ws))"
      by (auto simp: plain_codecs_def split: option.splits if_splits)
    define body where "body = q @ ''1'' @ plain_chars (map word_of_nat ws)"
    have body: "length body = Suc (length q + length ws)" "take (length q) body = q"
      "drop (Suc (length q)) body = plain_chars (map word_of_nat ws)"
      by (simp_all add: body_def)
    have s: "take (length s - 6) s = body" "drop (length s - 6) s = plain_chars (le_bytes 6 (length ws))"
      using p(4) by (simp_all add: body_def)
    have "map unat (map word_of_nat ws :: buffer) = ws"
      using p(3) by (simp add: list_all_iff unat_word_of_nat_byte map_idI)
    then have "bech32_decode plain_codecs s = Inr (q, ws)"
      using p(2) unfolding plain_codecs_def codecs.simps Let_def s by (simp add: le_nat_le_bytes body del: map_map)
    then show ?thesis using p(1) by simp
  qed
  show "bech32_fromWords plain_codecs (bech32_toWords plain_codecs b) = Inr b"
    using plain_words [of b] by (simp add: plain_codecs_def o_def word_of_nat_unat_byte)
  show "length (bech32_toWords plain_codecs b) = (8 * length b + 4) div 5"
    using plain_words [of b] by (simp add: plain_codecs_def)
  show "21 < length b" if "bech32_encode plain_codecs p ws = Inr s" "32 < length ws" "bs58check_decode plain_codecs s = Inr b"
    using that by (auto simp: plain_codecs_def split: option.splits if_splits list.splits dest: arg_cong [where f = length])
qed

text \<open>C27. An address that \<open>fromOutputScript\<close> returns for a script is turned back into the same script by
  \<open>toOutputScript\<close> on the same network, for all four templates, provided the network gives the two
  base58 kinds different version bytes and its bech32 prefix, if it has one, is in lower case.\<close>

theorem address_roundtrip:
  assumes "address_codecs c" "net_pubKeyHash net \<noteq> net_scriptHash net" "pred_option lower_case (net_bech32 net)"
    "fromOutputScript c junk (Raw b) (Some net) = Inr a"
  shows "toOutputScript c junk' a (Some net) = Inr b"
proof -
  note laws = address_codecs.base58_roundtrip [OF assms(1)] address_codecs.bech32_roundtrip [OF assms(1) _ assms(3)]
  note frames = p2pkh.check_iff p2sh.check_iff p2wpkh.check_iff p2wsh.check_iff
  note encs = p2pkh.enc_bytes p2sh.enc_bytes p2wpkh.enc_bytes p2wsh.enc_bytes
  consider "p2pkh_output_check junk (Raw b) = Inr True" "toBase58Check c junk (slice b 3 23) (int (net_pubKeyHash net)) = Inr a"
    | "p2sh_output_check junk (Raw b) = Inr True" "toBase58Check c junk (slice b 2 22) (int (net_scriptHash net)) = Inr a"
    | "p2wpkh_output_check junk (Raw b) = Inr True" "toBech32 c (slice b 2 22) 0 (net_bech32 net) = Inr a"
    | "p2wsh_output_check junk (Raw b) = Inr True" "toBech32 c (slice b 2 34) 0 (net_bech32 net) = Inr a"
    using assms(4) by (auto simp: fromOutputScript_def Let_def split: if_splits)
  then show ?thesis
  proof cases
    case 1
    then obtain h where h: "length h = 20" "b = [0x76, 0xa9, 0x14] @ h @ [0x88, 0xac]" by (auto simp: frames)
    then have "slice b 3 23 = h" by (simp add: slice_def)
    then show ?thesis using laws(1) [OF 1(2)] h encs(1) [of h junk'] by (simp add: toOutputScript_def)
  next
    case 2
    then obtain h where h: "length h = 20" "b = [0xa9, 0x14] @ h @ [0x87]" by (auto simp: frames)
    then have "slice b 2 22 = h" by (simp add: slice_def)
    then show ?thesis using laws(1) [OF 2(2)] h encs(2) [of h junk'] assms(2) by (simp add: toOutputScript_def)
  next
    case 3
    then obtain h where h: "length h = 20" "b = [0, 0x14] @ h @ []" by (auto simp: frames)
    then have "slice b 2 22 = h" by (simp add: slice_def)
    then show ?thesis using laws(3,4) [OF 3(2)] h encs(3) [of h junk'] by (auto simp: toOutputScript_def)
  next
    case 4
    then obtain h where h: "length h = 32" "b = [0, 0x20] @ h @ []" by (auto simp: frames)
    then have "slice b 2 34 = h" by (simp add: slice_def)
    then show ?thesis using laws(3,4) [OF 4(2)] h encs(4) [of h junk'] by (auto simp: toOutputScript_def)
  qed
qed

theorem address_roundtrip_witness:
  "\<exists>a. fromOutputScript plain_codecs (\<lambda>_. 0) (Raw (0xa9 # 0x14 # replicate 20 0x61 @ [0x87])) (Some network_bitcoin) = Inr a \<and>
     toOutputScript plain_codecs (\<lambda>_. 1) a (Some network_bitcoin) = Inr (0xa9 # 0x14 # replicate 20 0x61 @ [0x87])"
proof -
  let ?b = "0xa9 # 0x14 # replicate 20 0x61 @ [0x87] :: buffer"
  have "p2pkh_output_check (\<lambda>_. 0) (Raw ?b) = Inr False" "p2sh_output_check (\<lambda>_. 0) (Raw ?b) = Inr True"
    by (simp_all add: p2pkh.check_raw p2sh.check_raw)
  moreover have "\<exists>a. toBase58Check plain_codecs (\<lambda>_. 0) (slice ?b 2 22) 5 = Inr a"
    using writeUInt8_fits [of 5 0 "allocUnsafe (\<lambda>_. 0) 21"] by (simp add: toBase58Check_def slice_def)
  ultimately obtain a where a: "fromOutputScript plain_codecs (\<lambda>_. 0) (Raw ?b) (Some network_bitcoin) = Inr a"
    by (auto simp: fromOutputScript_def network_bitcoin_def)
  from address_roundtrip [OF plain.address_codecs_axioms _ _ a, of "\<lambda>_. 1"] a show ?thesis
    by (simp add: network_bitcoin_def lower_case_def)
qed

end
