(* ===== verification/Signature.thy ===== *)
theory Signature
  imports Script Crypto
begin

text \<open>
  \<open>ecashjs-lib/src/ecsignature.js\<close>: signatures and their compact, DER and script forms. A number of the
  package \<open>bigi\<close> is read as an integer; its conversions and the package \<open>bip66\<close> are parameters, and
  the locale \<open>signature_codecs\<close> states what the library relies on.
\<close>

record bigi =
  bi_fromBuffer :: "buffer \<Rightarrow> int"
  bi_toBuffer :: "int \<Rightarrow> nat \<Rightarrow> buffer"
  bi_fromDERInteger :: "buffer \<Rightarrow> int"
  bi_toDERInteger :: "int \<Rightarrow> buffer"
  bi_modInverse :: "int \<Rightarrow> int \<Rightarrow> int"
  bi_modPow :: "int \<Rightarrow> int \<Rightarrow> int \<Rightarrow> int"
  bi_intValue :: "int \<Rightarrow> int"

record bip66 =
  bip66_check :: "buffer \<Rightarrow> bool"
  bip66_encode :: "buffer \<Rightarrow> buffer \<Rightarrow> buffer result"
  bip66_decode :: "buffer \<Rightarrow> (buffer \<times> buffer) result"

record ecsignature =
  sig_r :: int
  sig_s :: int

abbreviation (input) ECSignature_ECDSA :: int where
  "ECSignature_ECDSA \<equiv> 0x00"

abbreviation (input) ECSignature_SCHNORR :: int where
  "ECSignature_SCHNORR \<equiv> 0x01"

definition fromRSBuffer :: "bigi \<Rightarrow> buffer \<Rightarrow> ecsignature result" where
  "fromRSBuffer bi buffer =
     bindE (assertE (length buffer = 64) typeforce_error) (\<lambda>_.
     Inr \<lparr>sig_r = bi_fromBuffer bi (slice buffer 0 32), sig_s = bi_fromBuffer bi (slice buffer 32 64)\<rparr>)"

record compact_signature =
  cs_compressed :: bool
  cs_i :: int
  cs_signature :: ecsignature

definition parseCompact :: "bigi \<Rightarrow> buffer \<Rightarrow> compact_signature result" where
  "parseCompact bi buffer =
     bindE (assertE (length buffer = 65) typeforce_error) (\<lambda>_.
     bindE (readUInt8 buffer 0) (\<lambda>b.
     let flagByte = int b - 27 in
     if flagByte \<noteq> js_and flagByte 7 then Inl (Error ''Invalid signature parameter'')
     else
       bindE (fromRSBuffer bi (drop 1 buffer)) (\<lambda>signature.
       Inr \<lparr>cs_compressed = (js_and flagByte 4 \<noteq> 0), cs_i = js_and flagByte 3, cs_signature = signature\<rparr>)))"

definition fromDER :: "bigi \<Rightarrow> bip66 \<Rightarrow> buffer \<Rightarrow> ecsignature result" where
  "fromDER bi b66 buffer =
     bindE (bip66_decode b66 buffer) (\<lambda>(r, s).
     Inr \<lparr>sig_r = bi_fromDERInteger bi r, sig_s = bi_fromDERInteger bi s\<rparr>)"

definition parseScriptSignature :: "bigi \<Rightarrow> bip66 \<Rightarrow> buffer \<Rightarrow> (ecsignature \<times> int) result" where
  "parseScriptSignature bi b66 buffer =
     (if buffer = [] then Inl ERR_OUT_OF_RANGE
      else
        bindE (readUInt8 buffer (length buffer - 1)) (\<lambda>hashType.
        let hashTypeMod = js_and (int hashType) (js_not 0xc0) in
        if hashTypeMod \<le> 0x00 \<or> hashTypeMod \<ge> 0x04 then Inl (Error ''Invalid hashType'')
        else bindE (fromDER bi b66 (butlast buffer)) (\<lambda>signature. Inr (signature, int hashType))))"

definition toRSBuffer :: "bigi \<Rightarrow> ecsignature \<Rightarrow> buffer option \<Rightarrow> nat option \<Rightarrow> buffer" where
  "toRSBuffer bi sig buffer offset =
     (let offset = (case offset of None \<Rightarrow> 0 | Some i \<Rightarrow> i);
          buffer = (case buffer of None \<Rightarrow> replicate 64 0 | Some b \<Rightarrow> b);
          buffer = fst (copy (bi_toBuffer bi (sig_r sig) 32) buffer offset);
          buffer = fst (copy (bi_toBuffer bi (sig_s sig) 32) buffer (offset + 32)) in
      buffer)"

definition toCompact :: "bigi \<Rightarrow> ecsignature \<Rightarrow> int \<Rightarrow> bool \<Rightarrow> buffer result" where
  "toCompact bi sig i compressed =
     (let i = (if compressed then i + 4 else i); i = i + 27 in
      bindE (writeUInt8 (replicate 65 0) i 0) (\<lambda>buffer. Inr (toRSBuffer bi sig (Some buffer) (Some 1))))"

definition toDER :: "bigi \<Rightarrow> bip66 \<Rightarrow> ecsignature \<Rightarrow> buffer result" where
  "toDER bi b66 sig = bip66_encode b66 (bi_toDERInteger bi (sig_r sig)) (bi_toDERInteger bi (sig_s sig))"

definition toScriptSignature :: "bigi \<Rightarrow> bip66 \<Rightarrow> ecsignature \<Rightarrow> int \<Rightarrow> int option \<Rightarrow> buffer result" where
  "toScriptSignature bi b66 sig hashType signatureAlgorithm =
     (let signatureAlgorithm = (case signatureAlgorithm of None \<Rightarrow> ECSignature_ECDSA | Some a \<Rightarrow> a);
          hashTypeMod = js_and hashType (js_not 0xc0) in
      if hashTypeMod \<le> 0 \<or> hashTypeMod \<ge> 4 then Inl (Error ''Invalid hashType'')
      else
        bindE (writeUInt8 (replicate 1 0) hashType 0) (\<lambda>hashTypeBuffer.
        if signatureAlgorithm = ECSignature_ECDSA then
          bindE (toDER bi b66 sig) (\<lambda>der. Inr (der @ hashTypeBuffer))
        else if signatureAlgorithm = ECSignature_SCHNORR then Inr (toRSBuffer bi sig None None @ hashTypeBuffer)
        else Inl (Error ''Invalid signature Algorithm'')))"

subsection \<open>What the packages promise\<close>

locale signature_codecs =
  fixes bi :: bigi
    and b66 :: bip66
  assumes fromBuffer: "bi_fromBuffer bi b = int (be_nat b)"
    and toBuffer: "0 \<le> x \<Longrightarrow> x < 256 ^ k \<Longrightarrow> bi_toBuffer bi x k = be_bytes k (nat x)"
    and der_integer: "0 \<le> x \<Longrightarrow> bi_fromDERInteger bi (bi_toDERInteger bi x) = x"
    and bip66: "bip66_encode b66 r s = Inr d \<Longrightarrow> bip66_decode b66 d = Inr (r, s) \<and> bip66_check b66 d"
begin

lemma toRSBuffer_bytes:
  assumes "0 \<le> sig_r sig" "sig_r sig < 2 ^ 256" "0 \<le> sig_s sig" "sig_s sig < 2 ^ 256"
  shows "toRSBuffer bi sig (Some (pre @ replicate 64 x)) (Some (length pre)) =
      pre @ be_bytes 32 (nat (sig_r sig)) @ be_bytes 32 (nat (sig_s sig))"
    and "toRSBuffer bi sig None None = be_bytes 32 (nat (sig_r sig)) @ be_bytes 32 (nat (sig_s sig))"
proof -
  let ?r = "be_bytes 32 (nat (sig_r sig))" and ?s = "be_bytes 32 (nat (sig_s sig))"
  have b: "bi_toBuffer bi (sig_r sig) 32 = ?r" "bi_toBuffer bi (sig_s sig) 32 = ?s"
    using assms by (simp_all add: toBuffer)
  have "fst (copy ?s (fst (copy ?r (pre @ replicate 64 x) (length pre))) (length pre + 32)) = pre @ ?r @ ?s" for pre x
    using copy_append [of ?r "replicate 64 x" pre] copy_append [of ?s "replicate 32 x" "pre @ ?r"] by simp
  from this [of pre x] this [of "[]" 0] show
    "toRSBuffer bi sig (Some (pre @ replicate 64 x)) (Some (length pre)) = pre @ ?r @ ?s"
    "toRSBuffer bi sig None None = ?r @ ?s"
    by (simp_all add: toRSBuffer_def b)
qed

lemma fromRSBuffer_bytes:
  assumes "0 \<le> r" "r < 2 ^ 256" "0 \<le> s" "s < 2 ^ 256"
  shows "fromRSBuffer bi (be_bytes 32 (nat r) @ be_bytes 32 (nat s)) = Inr \<lparr>sig_r = r, sig_s = s\<rparr>"
proof -
  have "int (nat x mod 256 ^ 32) = x" if "0 \<le> x" "x < 2 ^ 256" for x
    using that by (simp add: nat_mod_distrib [symmetric] zmod_int)
  then show ?thesis using assms by (simp add: fromRSBuffer_def slice_def fromBuffer be_nat_be_bytes)
qed

lemma parseCompact_toCompact:
  assumes "0 \<le> sig_r sig" "sig_r sig < 2 ^ 256" "0 \<le> sig_s sig" "sig_s sig < 2 ^ 256" "0 \<le> i" "i \<le> 3"
  shows "bindE (toCompact bi sig i compressed) (parseCompact bi) =
    Inr \<lparr>cs_compressed = compressed, cs_i = i, cs_signature = sig\<rparr>"
proof -
  define f where "f = (if compressed then i + 4 else i)"
  have f: "0 \<le> f" "f \<le> 7" using assms by (auto simp: f_def)
  define x :: byte where "x = word_of_nat (nat (f + 27))"
  have u: "int (unat x) = f + 27"
    unfolding x_def by (subst unat_word_of_nat_byte) (use f in simp)
  have "writeUInt8 (replicate 65 0) (f + 27) 0 = Inr ([x] @ replicate 64 0)"
    using writeUInt8_fits [of "f + 27" 0 "replicate 65 0"] f by (simp add: put_def x_def)
  then have c: "toCompact bi sig i compressed =
      Inr ([x] @ be_bytes 32 (nat (sig_r sig)) @ be_bytes 32 (nat (sig_s sig)))"
    using toRSBuffer_bytes(1) [OF assms(1-4), of "[x]" 0] by (simp add: toCompact_def f_def Let_def)
  have "f \<in> {0, 1, 2, 3, 4, 5, 6, 7}" "i \<in> {0, 1, 2, 3}" using f assms by auto
  moreover have "js_and f 7 = f" using js_and_mask [of 3 f] f by simp
  moreover have "js_and f 3 = i" using js_and_mask [of 2 f] assms by (simp add: f_def)
  moreover have "js_and f 4 \<noteq> 0 \<longleftrightarrow> compressed"
  proof -
    have "(i + 4) div 4 = 1" "i div 4 = 0" using assms(5,6) by linarith+
    then show ?thesis using js_and_bit [of 2 f] by (simp add: f_def bit_iff_odd)
  qed
  ultimately show ?thesis
    using f assms unfolding c
    by (simp add: parseCompact_def readUInt8_eq u fromRSBuffer_bytes [simplified] Let_def del: of_nat_unat)
qed

lemma script_signature:
  assumes "toScriptSignature bi b66 sig hashType algorithm = Inr buf"
    and "0 \<le> sig_r sig" "sig_r sig < 2 ^ 256" "0 \<le> sig_s sig" "sig_s sig < 2 ^ 256"
  shows "isCanonicalSignature (bip66_check b66) (Data buf)"
    and "buf \<noteq> [] \<and> int (unat (last buf)) = hashType"
    and "algorithm \<noteq> Some ECSignature_SCHNORR \<Longrightarrow> parseScriptSignature bi b66 buf = Inr (sig, hashType)"
    and "algorithm = Some ECSignature_SCHNORR \<Longrightarrow> fromRSBuffer bi (butlast buf) = Inr sig"
proof -
  let ?m = "js_and hashType (js_not 0xc0)"
  have h: "0 \<le> hashType" "hashType < 256" "0 < ?m" "?m < 4"
    using assms(1) by (auto simp: toScriptSignature_def Let_def writeUInt8_def writeUIntLE_def split: if_splits)
  define x :: byte where "x = word_of_nat (nat hashType)"
  have w: "writeUInt8 [0] hashType 0 = Inr [x]"
    using writeUInt8_fits [of hashType 0 "[0]"] h by (simp add: put_def x_def)
  have u: "int (unat x) = hashType"
    unfolding x_def by (subst unat_word_of_nat_byte) (use h in simp)
  obtain body where body: "buf = body @ [x]"
    "algorithm \<noteq> Some ECSignature_SCHNORR \<Longrightarrow> toDER bi b66 sig = Inr body"
    "algorithm = Some ECSignature_SCHNORR \<Longrightarrow> body = toRSBuffer bi sig None None"
    using assms(1) h by (auto simp: toScriptSignature_def Let_def w split: if_splits option.splits)
  have rs: "length (toRSBuffer bi sig None None) = 64"
    using toRSBuffer_bytes(2) [OF assms(2-5)] by simp
  show "isCanonicalSignature (bip66_check b66) (Data buf)"
    using h body rs bip66 by (auto simp: isCanonicalSignature_def isDefinedHashType_def u Let_def toDER_def simp del: of_nat_unat)
  show "buf \<noteq> [] \<and> int (unat (last buf)) = hashType" using body(1) u by simp
  show "parseScriptSignature bi b66 buf = Inr (sig, hashType)" if "algorithm \<noteq> Some ECSignature_SCHNORR"
    using body(1) body(2) [OF that] h bip66 der_integer assms(2,4) u
    by (auto simp: parseScriptSignature_def readUInt8_eq nth_append fromDER_def toDER_def Let_def simp del: bindE_Inr_iff of_nat_unat)
  show "fromRSBuffer bi (butlast buf) = Inr sig" if "algorithm = Some ECSignature_SCHNORR"
  proof -
    have "butlast buf = toRSBuffer bi sig None None" using body(1) body(3) [OF that] by simp
    then show ?thesis
      using toRSBuffer_bytes(2) [OF assms(2-5)] fromRSBuffer_bytes [of "sig_r sig" "sig_s sig"] assms(2-5) by simp
  qed
qed

end

text \<open>A stand-in for the packages: DER integers in unary, a pair of buffers marked with the length of the
  first, the inverse found by search.\<close>

definition unary_bigi :: bigi where
  "unary_bigi = \<lparr>
     bi_fromBuffer = (\<lambda>b. int (be_nat b)),
     bi_toBuffer = (\<lambda>x k. be_bytes k (nat x)),
     bi_fromDERInteger = (\<lambda>b. int (length b)),
     bi_toDERInteger = (\<lambda>x. replicate (nat x) 0),
     bi_modInverse = (\<lambda>a n. case filter (\<lambda>x. (a * x) mod n = 1) [0..n - 1] of [] \<Rightarrow> 0 | x # _ \<Rightarrow> x),
     bi_modPow = (\<lambda>a e p. a ^ nat e mod p),
     bi_intValue = toInt32\<rparr>"

definition paired_bip66 :: bip66 where
  "paired_bip66 = \<lparr>
     bip66_check = (\<lambda>d. d \<noteq> []),
     bip66_encode = (\<lambda>r s. if length r < 256 then Inr (word_of_nat (length r) # r @ s) else Inl (Error ''R length'')),
     bip66_decode = (\<lambda>d. case d of [] \<Rightarrow> Inl (Error ''DER sequence'') | n # b \<Rightarrow> Inr (take (unat n) b, drop (unat n) b))\<rparr>"

interpretation unary: signature_codecs unary_bigi paired_bip66
  by unfold_locales (auto simp: unary_bigi_def paired_bip66_def unat_word_of_nat_byte split: if_splits)

text \<open>A signature survives its compact form with the recovery index and the compression flag: for
  every 256-bit \<open>r\<close> and \<open>s\<close> and every index from 0 to 3, \<open>toCompact\<close> succeeds and
  \<open>parseCompact\<close> returns what went in.\<close>

theorem compact_signature_roundtrip:
  assumes "signature_codecs bi b66" "0 \<le> sig_r sig" "sig_r sig < 2 ^ 256" "0 \<le> sig_s sig" "sig_s sig < 2 ^ 256"
    "0 \<le> i" "i \<le> 3"
  shows "bindE (toCompact bi sig i compressed) (parseCompact bi) =
    Inr \<lparr>cs_compressed = compressed, cs_i = i, cs_signature = sig\<rparr>"
  using signature_codecs.parseCompact_toCompact [OF assms] .

theorem compact_signature_roundtrip_witness:
  "bindE (toCompact unary_bigi \<lparr>sig_r = 5, sig_s = 77\<rparr> 2 True) (parseCompact unary_bigi) =
    Inr \<lparr>cs_compressed = True, cs_i = 2, cs_signature = \<lparr>sig_r = 5, sig_s = 77\<rparr>\<rparr>"
  by (rule compact_signature_roundtrip [OF unary.signature_codecs_axioms]) simp_all

text \<open>A script signature ends in its hash type and passes the script module's check of canonical
  signatures, for both algorithms; \<open>parseScriptSignature\<close> gives an ECDSA signature back, and the 64
  bytes before the hash type of a Schnorr signature are its \<open>r\<close> and \<open>s\<close>.\<close>

theorem script_signature_forms:
  assumes "signature_codecs bi b66" "toScriptSignature bi b66 sig hashType algorithm = Inr buf"
    "0 \<le> sig_r sig" "sig_r sig < 2 ^ 256" "0 \<le> sig_s sig" "sig_s sig < 2 ^ 256"
  shows "isCanonicalSignature (bip66_check b66) (Data buf) \<and> int (unat (last buf)) = hashType \<and>
    (if algorithm = Some ECSignature_SCHNORR then fromRSBuffer bi (butlast buf) = Inr sig
     else parseScriptSignature bi b66 buf = Inr (sig, hashType))"
  using signature_codecs.script_signature [OF assms] by simp

theorem script_signature_forms_witness:
  "parseScriptSignature unary_bigi paired_bip66 [2, 0, 0, 0, 0x41] = Inr (\<lparr>sig_r = 2, sig_s = 1\<rparr>, 0x41)"
proof -
  have "toScriptSignature unary_bigi paired_bip66 \<lparr>sig_r = 2, sig_s = 1\<rparr> 0x41 None = Inr [2, 0, 0, 0, 0x41]" by code_simp
  from script_signature_forms [OF unary.signature_codecs_axioms this] show ?thesis by simp
qed

end
