(* ===== verification/Curve.thy ===== *)
theory Curve
  imports Signature
begin

text \<open>
  \<open>ecashjs-lib/src/rfc6979.js\<close>, \<open>ecdsa.js\<close> and \<open>schnorr.js\<close>: the nonce and the two signature
  schemes. The curve of the package \<open>ecurve\<close> and the function of \<open>create-hmac\<close> are parameters. The loop
  that looks for a nonce may not end; \<open>None\<close> is the result of a call that does not return. The locale
  \<open>ec_group\<close> states that the points that the library computes with are the multiples of a generator of
  order \<open>n\<close>.
\<close>

record 'p curve =
  c_n :: int
  c_p :: int
  c_G :: 'p
  c_isInfinity :: "'p \<Rightarrow> bool"
  c_isOnCurve :: "'p \<Rightarrow> bool"
  c_validate :: "'p \<Rightarrow> unit result"
  c_affineX :: "'p \<Rightarrow> int"
  c_affineY :: "'p \<Rightarrow> int"
  c_multiply :: "'p \<Rightarrow> int \<Rightarrow> 'p"
  c_multiplyTwo :: "'p \<Rightarrow> int \<Rightarrow> 'p \<Rightarrow> int \<Rightarrow> 'p"
  c_add :: "'p \<Rightarrow> 'p \<Rightarrow> 'p"
  c_pointFromX :: "bool \<Rightarrow> int \<Rightarrow> 'p result"
  c_decodeFrom :: "buffer \<Rightarrow> ('p \<times> bool) result"
  c_getEncoded :: "'p \<Rightarrow> bool \<Rightarrow> buffer"

record hmacs =
  hmac_sha256 :: "buffer \<Rightarrow> buffer \<Rightarrow> buffer"
  hmac_sha512 :: "buffer \<Rightarrow> buffer \<Rightarrow> buffer"

subsection \<open>The nonce\<close>

text \<open>Steps B to H2b: the state when the first candidate is ready.\<close>

definition rfc6979_start :: "hmacs \<Rightarrow> buffer \<Rightarrow> buffer \<Rightarrow> buffer option \<Rightarrow> buffer \<times> buffer" where
  "rfc6979_start hm hash x algo16 =
     (let k = replicate 32 0;
          v = replicate 32 1;
          k = hmac_sha256 hm k (v @ [0] @ x @ hash @ (case algo16 of None \<Rightarrow> [] | Some a \<Rightarrow> a));
          v = hmac_sha256 hm k v;
          k = hmac_sha256 hm k (v @ [1] @ x @ hash);
          v = hmac_sha256 hm k v;
          v = hmac_sha256 hm k v in
      (k, v))"

text \<open>The body of the loop.\<close>

definition rfc6979_next :: "hmacs \<Rightarrow> buffer \<times> buffer \<Rightarrow> buffer \<times> buffer" where
  "rfc6979_next hm = (\<lambda>(k, v).
     let k = hmac_sha256 hm k (v @ [0]);
         v = hmac_sha256 hm k v;
         v = hmac_sha256 hm k v in
     (k, v))"

partial_function (option) rfc6979_loop ::
    "hmacs \<Rightarrow> bigi \<Rightarrow> int \<Rightarrow> (int \<Rightarrow> bool) \<Rightarrow> buffer \<times> buffer \<Rightarrow> int option" where
  "rfc6979_loop hm bi n checkSig s =
     (let T = bi_fromBuffer bi (snd s) in
      if T \<le> 0 \<or> T \<ge> n \<or> \<not> checkSig T then rfc6979_loop hm bi n checkSig (rfc6979_next hm s)
      else Some T)"

definition deterministicGenerateK ::
    "hmacs \<Rightarrow> bigi \<Rightarrow> int \<Rightarrow> buffer \<Rightarrow> buffer \<Rightarrow> (int \<Rightarrow> bool) \<Rightarrow> buffer option \<Rightarrow> int result option" where
  "deterministicGenerateK hm bi n hash x checkSig algo16 =
     (if length hash \<noteq> 32 \<or> length x \<noteq> 32 \<or> \<not> pred_option (\<lambda>a. length a = 16) algo16 then Some (Inl typeforce_error)
      else map_option Inr (rfc6979_loop hm bi n checkSig (rfc6979_start hm hash x algo16)))"

subsection \<open>ECDSA\<close>

text \<open>The function given to the nonce generator; \<open>None\<close> rejects the nonce, and an accepted one leaves
  \<open>r\<close> and \<open>s\<close>.\<close>

definition ecdsa_attempt :: "bigi \<Rightarrow> 'p curve \<Rightarrow> int \<Rightarrow> int \<Rightarrow> int \<Rightarrow> (int \<times> int) option" where
  "ecdsa_attempt bi c e d k =
     (let Q = c_multiply c (c_G c) k in
      if c_isInfinity c Q then None
      else
        let r = c_affineX c Q mod c_n c in
        if r = 0 then None
        else
          let s = (bi_modInverse bi k (c_n c) * (e + d * r)) mod c_n c in
          if s = 0 then None else Some (r, s))"

definition N_OVER_TWO :: "'p curve \<Rightarrow> int" where
  "N_OVER_TWO c = c_n c div 2"

definition ecdsa_sign :: "hmacs \<Rightarrow> bigi \<Rightarrow> 'p curve \<Rightarrow> buffer \<Rightarrow> int \<Rightarrow> ecsignature result option" where
  "ecdsa_sign hm bi c hash d =
     (if length hash \<noteq> 32 then Some (Inl typeforce_error)
      else
        let x = bi_toBuffer bi d 32; e = bi_fromBuffer bi hash in
        case deterministicGenerateK hm bi (c_n c) hash x (\<lambda>k. ecdsa_attempt bi c e d k \<noteq> None) None of
          None \<Rightarrow> None
        | Some (Inl err) \<Rightarrow> Some (Inl err)
        | Some (Inr k) \<Rightarrow>
            (case ecdsa_attempt bi c e d k of
               None \<Rightarrow> Some (Inl (TypeError ''undefined''))
             | Some (r, s) \<Rightarrow>
                 Some (Inr \<lparr>sig_r = r, sig_s = if s > N_OVER_TWO c then c_n c - s else s\<rparr>)))"

definition ecdsa_verify :: "bigi \<Rightarrow> 'p curve \<Rightarrow> buffer \<Rightarrow> ecsignature \<Rightarrow> 'p \<Rightarrow> bool result" where
  "ecdsa_verify bi c hash signature Q =
     bindE (assertE (length hash = 32) typeforce_error) (\<lambda>_.
     let n = c_n c; r = sig_r signature; s = sig_s signature in
     if r \<le> 0 \<or> r \<ge> n then Inr False
     else if s \<le> 0 \<or> s \<ge> n then Inr False
     else
       let e = bi_fromBuffer bi hash;
           sInv = bi_modInverse bi s n;
           u1 = (e * sInv) mod n;
           u2 = (r * sInv) mod n;
           R = c_multiplyTwo c (c_G c) u1 Q u2 in
       if c_isInfinity c R then Inr False
       else Inr (c_affineX c R mod n = r))"

subsection \<open>Schnorr\<close>

definition jacobi :: "bigi \<Rightarrow> int \<Rightarrow> int \<Rightarrow> int" where
  "jacobi bi a p = bi_intValue bi (bi_modPow bi a ((p - 1) div 2) p)"

definition toCompressedPoint :: "bigi \<Rightarrow> 'p curve \<Rightarrow> 'p \<Rightarrow> buffer" where
  "toCompressedPoint bi c P = [if even (c_affineY c P) then 0x02 else 0x03] @ bi_toBuffer bi (c_affineX c P) 32"

definition fromCompressedPoint :: "bigi \<Rightarrow> 'p curve \<Rightarrow> buffer \<Rightarrow> 'p result" where
  "fromCompressedPoint bi c buffer =
     bindE (assertE (length buffer = 33) typeforce_error) (\<lambda>_.
     if length buffer \<noteq> 33 then Inl (Error ''Invalid length of buffer'')
     else if buffer ! 0 \<noteq> 0x2 \<and> buffer ! 0 \<noteq> 0x3 then Inl (Error ''Invalid signum byte'')
     else c_pointFromX c (buffer ! 0 = 0x3) (bi_fromBuffer bi (slice buffer 1 33)))"

definition signWithK :: "hashes \<Rightarrow> bigi \<Rightarrow> 'p curve \<Rightarrow> buffer \<Rightarrow> int \<Rightarrow> 'p \<Rightarrow> int \<Rightarrow> int \<times> int" where
  "signWithK hs bi c h x P k =
     (let n = c_n c;
          k = (if jacobi bi (c_affineY c (c_multiply c (c_G c) k)) (c_p c) \<noteq> 1 then n - k else k);
          R = c_multiply c (c_G c) k;
          r = c_affineX c R mod n;
          BP = toCompressedPoint bi c P;
          Br = bi_toBuffer bi r 32;
          eh = sha256 hs (Br @ BP @ h);
          e = bi_fromBuffer bi eh mod n in
      (r, (k + e * x) mod n))"

definition schnorr_algo16 :: buffer where
  "schnorr_algo16 = map (\<lambda>x. word_of_nat (of_char x)) ''Schnorr+SHA256  ''"

definition schnorr_sign ::
    "bool \<Rightarrow> hmacs \<Rightarrow> hashes \<Rightarrow> bigi \<Rightarrow> 'p curve \<Rightarrow> buffer \<Rightarrow> int \<Rightarrow> ecsignature result option" where
  "schnorr_sign USE_RFC6979 hm hs bi c h x =
     (if length h \<noteq> 32 then Some (Inl typeforce_error)
      else if x \<le> 0 \<or> x \<ge> c_n c then Some (Inl (Error ''Private key x not in range''))
      else
        let P = c_multiply c (c_G c) x in
        if USE_RFC6979 then
          (case deterministicGenerateK hm bi (c_n c) h (bi_toBuffer bi x 32) (\<lambda>_. True) (Some schnorr_algo16) of
             None \<Rightarrow> None
           | Some (Inl err) \<Rightarrow> Some (Inl err)
           | Some (Inr k) \<Rightarrow> (case signWithK hs bi c h x P k of (r, s) \<Rightarrow> Some (Inr \<lparr>sig_r = r, sig_s = s\<rparr>)))
        else
          let kh = sha256 hs (bi_toBuffer bi x 32 @ h); k = bi_fromBuffer bi kh mod c_n c in
          case signWithK hs bi c h x P k of (r, s) \<Rightarrow> Some (Inr \<lparr>sig_r = r, sig_s = s\<rparr>))"

definition schnorr_verify :: "hashes \<Rightarrow> bigi \<Rightarrow> 'p curve \<Rightarrow> buffer \<Rightarrow> ecsignature \<Rightarrow> 'p \<Rightarrow> bool result" where
  "schnorr_verify hs bi c h signature P =
     bindE (assertE (length h = 32) typeforce_error) (\<lambda>_.
     let n = c_n c; r = sig_r signature; s = sig_s signature in
     if \<not> c_isOnCurve c P then Inr False
     else if c_isInfinity c P then Inr False
     else if r \<ge> c_p c then Inr False
     else if s \<ge> n then Inr False
     else
       let BP = toCompressedPoint bi c P;
           Br = bi_toBuffer bi r 32;
           h = sha256 hs (Br @ BP @ h);
           e = bi_fromBuffer bi h mod n;
           R = c_add c (c_multiply c (c_G c) s) (c_multiply c P (n - e)) in
       if c_isInfinity c R then Inr False
       else if c_affineX c R \<noteq> r then Inr False
       else if jacobi bi (c_affineY c R) (c_p c) \<noteq> 1 then Inr False
       else Inr True)"

subsection \<open>The candidates for the nonce\<close>

definition rfc6979_candidate :: "hmacs \<Rightarrow> bigi \<Rightarrow> buffer \<times> buffer \<Rightarrow> nat \<Rightarrow> int" where
  "rfc6979_candidate hm bi s i = bi_fromBuffer bi (snd ((rfc6979_next hm ^^ i) s))"

definition nonce_ok :: "int \<Rightarrow> (int \<Rightarrow> bool) \<Rightarrow> int \<Rightarrow> bool" where
  "nonce_ok n checkSig T \<longleftrightarrow> 0 < T \<and> T < n \<and> checkSig T"

lemma rfc6979_loop_step:
  "rfc6979_loop hm bi n checkSig s =
     (if nonce_ok n checkSig (rfc6979_candidate hm bi s 0) then Some (rfc6979_candidate hm bi s 0)
      else rfc6979_loop hm bi n checkSig (rfc6979_next hm s))"
  by (subst rfc6979_loop.simps) (auto simp: rfc6979_candidate_def nonce_ok_def Let_def)

lemma rfc6979_candidate_Suc:
  "rfc6979_candidate hm bi s (Suc i) = rfc6979_candidate hm bi (rfc6979_next hm s) i"
  by (simp add: rfc6979_candidate_def funpow_swap1)

lemma rfc6979_loop_first:
  assumes "nonce_ok n checkSig (rfc6979_candidate hm bi s i)"
    "\<And>j. j < i \<Longrightarrow> \<not> nonce_ok n checkSig (rfc6979_candidate hm bi s j)"
  shows "rfc6979_loop hm bi n checkSig s = Some (rfc6979_candidate hm bi s i)"
  using assms
proof (induction i arbitrary: s)
  case 0
  then show ?case by (subst rfc6979_loop_step) simp
next
  case (Suc i)
  have "rfc6979_loop hm bi n checkSig (rfc6979_next hm s) = Some (rfc6979_candidate hm bi (rfc6979_next hm s) i)"
    using Suc.prems by (intro Suc.IH) (auto simp: rfc6979_candidate_Suc [symmetric])
  then show ?case
    using Suc.prems(2) [of 0] by (subst rfc6979_loop_step) (simp add: rfc6979_candidate_Suc)
qed

lemma rfc6979_loop_sound:
  assumes "rfc6979_loop hm bi n checkSig s = Some k"
  shows "nonce_ok n checkSig k \<and> (\<exists>i. k = rfc6979_candidate hm bi s i)"
  using _ assms
proof (rule rfc6979_loop.raw_induct
    [where P = "\<lambda>hm bi n checkSig s k. nonce_ok n checkSig k \<and> (\<exists>i. k = rfc6979_candidate hm bi s i)"])
  fix loop hm bi n checkSig s k
  assume IH: "\<And>hm bi n checkSig s k. loop hm bi n checkSig s = Some k \<Longrightarrow>
      nonce_ok n checkSig k \<and> (\<exists>i. k = rfc6979_candidate hm bi s i)"
    and eq: "(let T = bi_fromBuffer bi (snd s) in
      if T \<le> 0 \<or> n \<le> T \<or> \<not> checkSig T then loop hm bi n checkSig (rfc6979_next hm s) else Some T) = Some k"
  show "nonce_ok n checkSig k \<and> (\<exists>i. k = rfc6979_candidate hm bi s i)"
  proof (cases "loop hm bi n checkSig (rfc6979_next hm s) = Some k")
    case True
    then show ?thesis using IH by (metis rfc6979_candidate_Suc)
  next
    case False
    then show ?thesis using eq
      by (auto simp: Let_def nonce_ok_def rfc6979_candidate_def split: if_splits intro: exI [of _ 0])
  qed
qed

subsection \<open>What the curve promises\<close>

text \<open>The laws are about multiples of the generator by scalars that are not negative, the only ones that the code
  forms.\<close>

locale ec_group =
  fixes c :: "'p curve"
    and bi :: bigi
  assumes order: "1 < c_n c"
    and multiply_one: "c_multiply c (c_G c) 1 = c_G c"
    and multiply_mod: "0 \<le> k \<Longrightarrow> c_multiply c (c_G c) (k mod c_n c) = c_multiply c (c_G c) k"
    and multiply_multiply: "0 \<le> a \<Longrightarrow> 0 \<le> b \<Longrightarrow> c_multiply c (c_multiply c (c_G c) a) b = c_multiply c (c_G c) (a * b)"
    and add_multiply: "0 \<le> a \<Longrightarrow> 0 \<le> b \<Longrightarrow>
      c_add c (c_multiply c (c_G c) a) (c_multiply c (c_G c) b) = c_multiply c (c_G c) (a + b)"
    and multiplyTwo: "0 \<le> a \<Longrightarrow> 0 \<le> k \<Longrightarrow> 0 \<le> l \<Longrightarrow> Q = c_multiply c (c_G c) a \<Longrightarrow>
      c_multiplyTwo c (c_G c) k Q l = c_add c (c_multiply c (c_G c) k) (c_multiply c Q l)"
    and infinity: "0 \<le> k \<Longrightarrow> c_isInfinity c (c_multiply c (c_G c) k) \<longleftrightarrow> k mod c_n c = 0"
    and on_curve: "0 \<le> k \<Longrightarrow> k mod c_n c \<noteq> 0 \<Longrightarrow> c_isOnCurve c (c_multiply c (c_G c) k)"
    and affineX_range: "0 \<le> k \<Longrightarrow> k mod c_n c \<noteq> 0 \<Longrightarrow>
      0 \<le> c_affineX c (c_multiply c (c_G c) k) \<and> c_affineX c (c_multiply c (c_G c) k) < c_p c"
    and affineX_neg: "0 < k \<Longrightarrow> k < c_n c \<Longrightarrow> c_affineX c (c_multiply c (c_G c) (c_n c - k)) = c_affineX c (c_multiply c (c_G c) k)"
    and residue: "0 < k \<Longrightarrow> k < c_n c \<Longrightarrow>
      jacobi bi (c_affineY c (c_multiply c (c_G c) k)) (c_p c) = 1 \<or>
      jacobi bi (c_affineY c (c_multiply c (c_G c) (c_n c - k))) (c_p c) = 1"
    and modInverse: "0 < a \<Longrightarrow> a < c_n c \<Longrightarrow> (a * bi_modInverse bi a (c_n c)) mod c_n c = 1"
begin

lemma multiply_cong: "0 \<le> k \<Longrightarrow> 0 \<le> l \<Longrightarrow> k mod c_n c = l mod c_n c \<Longrightarrow> c_multiply c (c_G c) k = c_multiply c (c_G c) l"
  by (metis multiply_mod)

lemma multiplyTwo_G:
  assumes "0 \<le> u" "0 \<le> d" "0 \<le> v"
  shows "c_multiplyTwo c (c_G c) u (c_multiply c (c_G c) d) v = c_multiply c (c_G c) (u + d * v)"
  using assms by (simp add: multiplyTwo [OF assms(2,1,3) refl] multiply_multiply add_multiply)

lemma inverse_cancel:
  assumes "0 < s" "s < c_n c" "(s * k) mod c_n c = t mod c_n c"
  shows "(t * bi_modInverse bi s (c_n c)) mod c_n c = k mod c_n c"
proof -
  let ?w = "bi_modInverse bi s (c_n c)"
  have "(t * ?w) mod c_n c = (s * k * ?w) mod c_n c" using assms(3) by (metis mod_mult_left_eq)
  also have "\<dots> = (s * ?w * k) mod c_n c" by (simp add: mult_ac)
  also have "\<dots> = k mod c_n c" using modInverse [OF assms(1,2)] by (metis mod_mult_left_eq mult_1)
  finally show ?thesis .
qed

lemma ecdsa_verify_value:
  assumes "length hash = 32" "0 < r" "r < c_n c" "0 < s" "s < c_n c" "0 \<le> d" "0 < k" "k < c_n c"
    "(s * k) mod c_n c = (bi_fromBuffer bi hash + d * r) mod c_n c"
  shows "ecdsa_verify bi c hash \<lparr>sig_r = r, sig_s = s\<rparr> (c_multiply c (c_G c) d) =
    Inr (c_affineX c (c_multiply c (c_G c) k) mod c_n c = r)"
proof -
  let ?e = "bi_fromBuffer bi hash" and ?w = "bi_modInverse bi s (c_n c)"
  have "((?e * ?w) mod c_n c + d * ((r * ?w) mod c_n c)) mod c_n c = (?e * ?w + d * (r * ?w)) mod c_n c"
    by (intro mod_add_cong mod_mult_right_eq mod_mod_trivial)
  also have "\<dots> = ((?e + d * r) * ?w) mod c_n c" by (simp add: algebra_simps)
  also have "\<dots> = k mod c_n c" using inverse_cancel [OF assms(4,5,9)] .
  finally have "c_multiplyTwo c (c_G c) ((?e * ?w) mod c_n c) (c_multiply c (c_G c) d) ((r * ?w) mod c_n c) =
      c_multiply c (c_G c) k"
    using order assms(6,7) by (subst multiplyTwo_G) (auto intro: multiply_cong)
  then show ?thesis using assms by (simp add: ecdsa_verify_def Let_def infinity)
qed

lemma ecdsa_attempt_sound:
  assumes "ecdsa_attempt bi c e d k = Some (r, s)" "0 < k" "k < c_n c"
  shows "0 < r" "r < c_n c" "r = c_affineX c (c_multiply c (c_G c) k) mod c_n c"
    "0 < s" "s < c_n c" "(s * k) mod c_n c = (e + d * r) mod c_n c"
proof -
  let ?i = "bi_modInverse bi k (c_n c)"
  have s: "s = (?i * (e + d * r)) mod c_n c" "s \<noteq> 0"
    and r: "r = c_affineX c (c_multiply c (c_G c) k) mod c_n c" "r \<noteq> 0"
    using assms(1) by (auto simp: ecdsa_attempt_def Let_def split: if_splits)
  have "0 \<le> r \<and> r < c_n c" "0 \<le> s \<and> s < c_n c" using order unfolding r(1) s(1) by auto
  then show "0 < r" "r < c_n c" "0 < s" "s < c_n c" using s(2) r(2) by auto
  have "(s * k) mod c_n c = (k * ?i * (e + d * r)) mod c_n c" unfolding s(1) by (simp add: mod_simps mult_ac)
  also have "\<dots> = (e + d * r) mod c_n c" using modInverse [OF assms(2,3)] by (metis mod_mult_left_eq mult_1)
  finally show "(s * k) mod c_n c = (e + d * r) mod c_n c" .
qed (use assms in \<open>auto simp: ecdsa_attempt_def Let_def split: if_splits\<close>)

lemma ecdsa_sign_cases:
  assumes "ecdsa_sign hm bi c hash d = Some (Inr sig)"
  obtains k r s where "0 < k" "k < c_n c" "ecdsa_attempt bi c (bi_fromBuffer bi hash) d k = Some (r, s)"
    "length hash = 32" "sig = \<lparr>sig_r = r, sig_s = if s > N_OVER_TWO c then c_n c - s else s\<rparr>"
proof -
  let ?ok = "\<lambda>k. ecdsa_attempt bi c (bi_fromBuffer bi hash) d k \<noteq> None"
  from assms obtain k r s where k: "deterministicGenerateK hm bi (c_n c) hash (bi_toBuffer bi d 32) ?ok None = Some (Inr k)"
    "ecdsa_attempt bi c (bi_fromBuffer bi hash) d k = Some (r, s)" "length hash = 32"
    "sig = \<lparr>sig_r = r, sig_s = if s > N_OVER_TWO c then c_n c - s else s\<rparr>"
    by (auto simp: ecdsa_sign_def Let_def split: if_splits option.splits sum.splits)
  then have "nonce_ok (c_n c) ?ok k"
    using rfc6979_loop_sound by (auto simp: deterministicGenerateK_def split: if_splits)
  then have "0 < k" "k < c_n c" by (simp_all add: nonce_ok_def)
  then show thesis using that k(2-4) by blast
qed

lemma ecdsa_sign_verifies:
  assumes "0 \<le> d" "ecdsa_sign hm bi c hash d = Some (Inr sig)"
  shows "ecdsa_verify bi c hash sig (c_multiply c (c_G c) d) = Inr True"
    and "0 < sig_r sig" "sig_r sig < c_n c" "0 < sig_s sig" "sig_s sig \<le> c_n c div 2"
proof -
  from assms(2) obtain k r s where k: "0 < k" "k < c_n c" "ecdsa_attempt bi c (bi_fromBuffer bi hash) d k = Some (r, s)"
    "length hash = 32" "sig = \<lparr>sig_r = r, sig_s = if s > N_OVER_TWO c then c_n c - s else s\<rparr>"
    by (rule ecdsa_sign_cases)
  note a = ecdsa_attempt_sound [OF k(3,1,2)]
  show "0 < sig_r sig" "sig_r sig < c_n c" "0 < sig_s sig" "sig_s sig \<le> c_n c div 2"
    using a by (auto simp: k(5) N_OVER_TWO_def)
  have "((c_n c - s) * (c_n c - k)) mod c_n c = (s * k) mod c_n c"
  proof -
    have "(c_n c - s) * (c_n c - k) = s * k + c_n c * (c_n c - s - k)" by (simp add: algebra_simps)
    then show ?thesis by simp
  qed
  then have "ecdsa_verify bi c hash \<lparr>sig_r = r, sig_s = c_n c - s\<rparr> (c_multiply c (c_G c) d) =
      Inr (c_affineX c (c_multiply c (c_G c) (c_n c - k)) mod c_n c = r)"
    using k a assms(1) by (intro ecdsa_verify_value) auto
  then show "ecdsa_verify bi c hash sig (c_multiply c (c_G c) d) = Inr True"
    using ecdsa_verify_value [OF k(4) a(1,2,4,5) assms(1) k(1,2) a(6)] k a(3) affineX_neg [OF k(1,2)]
    by (cases "s > N_OVER_TWO c") simp_all
qed

lemma schnorr_nonce:
  assumes "0 < k" "k < c_n c"
  obtains l where "0 < l" "l < c_n c" "l = (if jacobi bi (c_affineY c (c_multiply c (c_G c) k)) (c_p c) \<noteq> 1 then c_n c - k else k)"
    "jacobi bi (c_affineY c (c_multiply c (c_G c) l)) (c_p c) = 1"
  using residue [OF assms] assms that [of k] that [of "c_n c - k"] by (auto split: if_splits)

lemma schnorr_sign_verifies:
  assumes "schnorr_sign True hm hs bi c h x = Some (Inr sig)"
  shows "\<exists>k. 0 < k \<and> k < c_n c \<and> sig_r sig = c_affineX c (c_multiply c (c_G c) k) mod c_n c \<and>
    schnorr_verify hs bi c h sig (c_multiply c (c_G c) x) = Inr (c_affineX c (c_multiply c (c_G c) k) < c_n c)"
proof -
  let ?G = "\<lambda>k. c_multiply c (c_G c) k" and ?n = "c_n c"
  from assms obtain k where k: "length h = 32" "0 < x" "x < ?n"
      "deterministicGenerateK hm bi ?n h (bi_toBuffer bi x 32) (\<lambda>_. True) (Some schnorr_algo16) = Some (Inr k)"
      "sig = (case signWithK hs bi c h x (?G x) k of (r, s) \<Rightarrow> \<lparr>sig_r = r, sig_s = s\<rparr>)"
    by (auto simp: schnorr_sign_def Let_def split: if_splits option.splits sum.splits prod.splits)
  have "nonce_ok ?n (\<lambda>_. True) k"
    using k(4) rfc6979_loop_sound by (auto simp: deterministicGenerateK_def split: if_splits)
  then have k01: "0 < k" "k < ?n" by (auto simp: nonce_ok_def)
  obtain l where l: "0 < l" "l < ?n" "l = (if jacobi bi (c_affineY c (?G k)) (c_p c) \<noteq> 1 then ?n - k else k)"
      "jacobi bi (c_affineY c (?G l)) (c_p c) = 1"
    by (rule schnorr_nonce [OF k01])
  define X where "X = c_affineX c (?G l)"
  define e where "e = bi_fromBuffer bi (sha256 hs (bi_toBuffer bi (X mod ?n) 32 @ toCompressedPoint bi c (?G x) @ h)) mod ?n"
  have sig: "sig = \<lparr>sig_r = X mod ?n, sig_s = (l + e * x) mod ?n\<rparr>"
    unfolding k(5) signWithK_def Let_def l(3) [symmetric] X_def e_def by simp
  have x0: "0 \<le> x" and ne: "0 \<le> ?n - e" and s0: "0 \<le> (l + e * x) mod ?n"
    using k(2) order pos_mod_bound [of ?n] by (simp_all add: e_def less_imp_le)
  then have xe: "0 \<le> x * (?n - e)" by simp
  then have sum0: "0 \<le> (l + e * x) mod ?n + x * (?n - e)" using s0 by simp
  have "((l + e * x) mod ?n + x * (?n - e)) mod ?n = (l + e * x + x * (?n - e)) mod ?n"
    by (rule mod_add_left_eq)
  also have "\<dots> = (l + x * ?n) mod ?n" by (simp add: algebra_simps)
  also have "\<dots> = l mod ?n" by simp
  finally have R: "c_add c (?G ((l + e * x) mod ?n)) (c_multiply c (?G x) (?n - e)) = ?G l"
    using multiply_multiply [OF x0 ne] add_multiply [OF s0 xe] by (simp only: multiply_cong [OF sum0 less_imp_le [OF l(1)]])
  have X: "0 \<le> X" "X < c_p c" using affineX_range [of l] l by (auto simp: X_def)
  then have "X mod ?n < c_p c" "X = X mod ?n \<longleftrightarrow> X < ?n"
    using order zmod_le_nonneg_dividend [of X ?n] by (auto simp: mod_pos_pos_trivial) (metis pos_mod_bound zero_less_one_class.zero_less_one order.strict_trans)
  moreover have "c_isOnCurve c (?G x)" "\<not> c_isInfinity c (?G x)" "\<not> c_isInfinity c (?G l)"
    using k(2,3) l(1,2) on_curve [of x] by (simp_all add: infinity)
  moreover have "(l + e * x) mod ?n < ?n" using order by simp
  ultimately have "schnorr_verify hs bi c h sig (?G x) = Inr (X < ?n)"
    using k(1) l(4) R unfolding sig by (simp add: schnorr_verify_def Let_def X_def [symmetric] e_def [symmetric])
  then show ?thesis using l sig by (intro exI [of _ l]) (simp add: X_def)
qed

end

text \<open>A stand-in for the curve: the residues modulo 7, with \<open>x\<close> the distance to 0.\<close>

definition ring7 :: "int curve" where
  "ring7 = \<lparr>
     c_n = 7, c_p = 7, c_G = 1,
     c_isInfinity = (\<lambda>P. P mod 7 = 0),
     c_isOnCurve = (\<lambda>P. True),
     c_validate = (\<lambda>P. Inr ()),
     c_affineX = (\<lambda>P. min (P mod 7) (7 - P mod 7)),
     c_affineY = (\<lambda>P. P mod 7),
     c_multiply = (\<lambda>P k. (P * k) mod 7),
     c_multiplyTwo = (\<lambda>P k Q l. (P * k + Q * l) mod 7),
     c_add = (\<lambda>P Q. (P + Q) mod 7),
     c_pointFromX = (\<lambda>odd x. if 0 < x \<and> x < 4 then Inr (if odd = (x mod 2 = 1) then x else 7 - x) else Inl (Error ''Invalid point'')),
     c_decodeFrom = (\<lambda>b. if length b = 33 \<and> b ! 0 = 2 then Inr (int (be_nat (drop 1 b)), True)
        else if length b = 65 \<and> b ! 0 = 4 then Inr (int (be_nat (drop 1 b)), False) else Inl (Error ''Invalid sequence tag'')),
     c_getEncoded = (\<lambda>P compressed. if compressed then 2 # be_bytes 32 (nat P) else 4 # be_bytes 64 (nat P))\<rparr>"

lemma ring7_inverses: "list_all (\<lambda>a. (a * bi_modInverse unary_bigi a 7) mod 7 = 1) [1, 2, 3, 4, 5, 6]"
  by code_simp

lemma ring7_residues: "list_all (\<lambda>a. jacobi unary_bigi a 7 = 1 \<or> jacobi unary_bigi (7 - a) 7 = 1) [1, 2, 3, 4, 5, 6]"
  by code_simp

lemma ring7_nonzero: "0 < k \<Longrightarrow> k < 7 \<Longrightarrow> k \<in> set [1, 2, 3, 4, 5, 6]" for k :: int
  by auto

lemma ring7_simps:
  "c_n ring7 = 7" "c_p ring7 = 7" "c_G ring7 = 1" "c_multiply ring7 P k = (P * k) mod 7" "c_add ring7 P Q = (P + Q) mod 7"
  "c_multiplyTwo ring7 P k Q l = (P * k + Q * l) mod 7" "c_isInfinity ring7 P = (P mod 7 = 0)" "c_isOnCurve ring7 P"
  "c_affineX ring7 P = min (P mod 7) (7 - P mod 7)" "c_affineY ring7 P = P mod 7"
  by (simp_all add: ring7_def)

interpretation ring7: ec_group ring7 unary_bigi
proof
  fix a b k l Q :: int
  have inv: "(a * bi_modInverse unary_bigi a 7) mod 7 = 1" if "0 < a" "a < 7"
    using ring7_inverses ring7_nonzero [OF that] by (simp only: list_all_iff)
  have res: "jacobi unary_bigi k 7 = 1 \<or> jacobi unary_bigi (7 - k) 7 = 1" if "0 < k" "k < 7"
    using ring7_residues ring7_nonzero [OF that] by (simp only: list_all_iff)
  have m: "k mod 7 = k" "(7 - k) mod 7 = 7 - k" if "0 < k" "k < 7"
    using that by (simp_all add: mod_pos_pos_trivial del: minus_mod_self1)
  have r: "0 \<le> k mod 7" "k mod 7 < 7" by simp_all
  show "1 < c_n ring7" "c_multiply ring7 (c_G ring7) 1 = c_G ring7"
    "c_multiply ring7 (c_G ring7) (k mod c_n ring7) = c_multiply ring7 (c_G ring7) k"
    "c_multiply ring7 (c_multiply ring7 (c_G ring7) a) b = c_multiply ring7 (c_G ring7) (a * b)"
    "c_add ring7 (c_multiply ring7 (c_G ring7) a) (c_multiply ring7 (c_G ring7) b) = c_multiply ring7 (c_G ring7) (a + b)"
    "c_multiplyTwo ring7 (c_G ring7) k Q l = c_add ring7 (c_multiply ring7 (c_G ring7) k) (c_multiply ring7 Q l)"
    "c_isInfinity ring7 (c_multiply ring7 (c_G ring7) k) \<longleftrightarrow> k mod c_n ring7 = 0"
    "k mod c_n ring7 \<noteq> 0 \<Longrightarrow> c_isOnCurve ring7 (c_multiply ring7 (c_G ring7) k)"
    by (simp_all add: ring7_simps mod_add_eq mod_mult_left_eq)
  show "k mod c_n ring7 \<noteq> 0 \<Longrightarrow> 0 \<le> c_affineX ring7 (c_multiply ring7 (c_G ring7) k) \<and>
      c_affineX ring7 (c_multiply ring7 (c_G ring7) k) < c_p ring7"
    by (simp add: ring7_simps min_def) (use r in linarith)
  show "0 < k \<Longrightarrow> k < c_n ring7 \<Longrightarrow>
      c_affineX ring7 (c_multiply ring7 (c_G ring7) (c_n ring7 - k)) = c_affineX ring7 (c_multiply ring7 (c_G ring7) k)"
    by (simp add: ring7_simps m min_def del: minus_mod_self1)
  show "0 < k \<Longrightarrow> k < c_n ring7 \<Longrightarrow>
      jacobi unary_bigi (c_affineY ring7 (c_multiply ring7 (c_G ring7) k)) (c_p ring7) = 1 \<or>
      jacobi unary_bigi (c_affineY ring7 (c_multiply ring7 (c_G ring7) (c_n ring7 - k))) (c_p ring7) = 1"
    using res by (simp add: ring7_simps m del: minus_mod_self1)
  show "0 < a \<Longrightarrow> a < c_n ring7 \<Longrightarrow> (a * bi_modInverse unary_bigi a (c_n ring7)) mod c_n ring7 = 1"
    using inv by (simp add: ring7_simps)
qed

definition const_hmacs :: "nat \<Rightarrow> hmacs" where
  "const_hmacs k = \<lparr>hmac_sha256 = (\<lambda>_ _. be_bytes 32 k), hmac_sha512 = (\<lambda>_ _. be_bytes 32 k @ replicate 32 9)\<rparr>"

text \<open>C25. The nonce is the first acceptable candidate of the sequence of RFC 6979: \<open>deterministicGenerateK\<close>
  returns a number exactly when some candidate lies in the range from 1 to \<open>n - 1\<close> and passes the check, and
  then it is the first such candidate. In particular the loop ends whenever there is one.\<close>

theorem nonce_search:
  assumes "length hash = 32" "length x = 32" "pred_option (\<lambda>a. length a = 16) algo16"
  shows "deterministicGenerateK hm bi n hash x checkSig algo16 = Some (Inr k) \<longleftrightarrow>
    (let cand = rfc6979_candidate hm bi (rfc6979_start hm hash x algo16) in
     \<exists>i. k = cand i \<and> nonce_ok n checkSig (cand i) \<and> (\<forall>j < i. \<not> nonce_ok n checkSig (cand j)))"
proof -
  let ?cand = "rfc6979_candidate hm bi (rfc6979_start hm hash x algo16)"
  let ?loop = "rfc6979_loop hm bi n checkSig (rfc6979_start hm hash x algo16)"
  have "\<exists>i. k = ?cand i \<and> nonce_ok n checkSig (?cand i) \<and> (\<forall>j < i. \<not> nonce_ok n checkSig (?cand j))" if "?loop = Some k"
  proof -
    from rfc6979_loop_sound [OF that] obtain i where "k = ?cand i" "nonce_ok n checkSig k" by blast
    then have i: "nonce_ok n checkSig (?cand i)" by simp
    define m where "m = (LEAST i. nonce_ok n checkSig (?cand i))"
    have m: "nonce_ok n checkSig (?cand m)" "\<And>j. j < m \<Longrightarrow> \<not> nonce_ok n checkSig (?cand j)"
      unfolding m_def by (rule LeastI [of "\<lambda>i. nonce_ok n checkSig (?cand i)", OF i], rule not_less_Least)
    then have "?loop = Some (?cand m)" by (rule rfc6979_loop_first)
    then have "k = ?cand m" using that by simp
    then show ?thesis using m by blast
  qed
  moreover have "?loop = Some k" if "k = ?cand i" "nonce_ok n checkSig (?cand i)" "\<forall>j < i. \<not> nonce_ok n checkSig (?cand j)" for i
    unfolding that(1) using that(2,3) by (intro rfc6979_loop_first) blast+
  ultimately have "?loop = Some k \<longleftrightarrow>
      (\<exists>i. k = ?cand i \<and> nonce_ok n checkSig (?cand i) \<and> (\<forall>j < i. \<not> nonce_ok n checkSig (?cand j)))"
    by blast
  moreover have "deterministicGenerateK hm bi n hash x checkSig algo16 = Some (Inr k) \<longleftrightarrow> ?loop = Some k"
    using assms by (auto simp: deterministicGenerateK_def)
  ultimately show ?thesis by (simp only: Let_def)
qed

theorem nonce_search_witness:
  "deterministicGenerateK (const_hmacs 3) unary_bigi 7 (replicate 32 0) (replicate 32 1) (\<lambda>_. True) None = Some (Inr 3)"
proof -
  have c: "rfc6979_candidate (const_hmacs 3) unary_bigi (rfc6979_start (const_hmacs 3) (replicate 32 0) (replicate 32 1) None) 0 = 3"
    by (simp add: rfc6979_candidate_def rfc6979_start_def Let_def const_hmacs_def unary_bigi_def be_nat_be_bytes)
  show ?thesis
    by (subst nonce_search) (auto simp: Let_def nonce_ok_def c intro!: exI [of _ 0])
qed

text \<open>C10. A signature that \<open>ecdsa.sign\<close> returns for a private key that is not negative (the key of a key pair is
  positive) is accepted by \<open>ecdsa.verify\<close> for the public key of the
  same private key, its \<open>r\<close> is between 1 and \<open>n - 1\<close>, and its \<open>s\<close> is at most half the order.\<close>

theorem ecdsa_sign_verify:
  assumes "ec_group c bi" "0 \<le> d" "ecdsa_sign hm bi c hash d = Some (Inr sig)"
  shows "ecdsa_verify bi c hash sig (c_multiply c (c_G c) d) = Inr True \<and>
    0 < sig_r sig \<and> sig_r sig < c_n c \<and> 0 < sig_s sig \<and> sig_s sig \<le> c_n c div 2"
  using ec_group.ecdsa_sign_verifies [OF assms] by simp

theorem ecdsa_sign_verify_witness:
  "ecdsa_verify unary_bigi ring7 (replicate 32 0) \<lparr>sig_r = 3, sig_s = 1\<rparr> 1 = Inr True"
proof -
  have z: "bi_fromBuffer unary_bigi (replicate 32 0) = 0" by (simp add: unary_bigi_def be_nat_def numeral_eq_Suc)
  have a: "ecdsa_attempt unary_bigi ring7 0 1 3 = Some (3, 1)" by code_simp
  let ?x = "bi_toBuffer unary_bigi 1 32"
  have "rfc6979_candidate (const_hmacs 3) unary_bigi (rfc6979_start (const_hmacs 3) (replicate 32 0) ?x None) 0 = 3"
    by (simp add: rfc6979_candidate_def rfc6979_start_def Let_def const_hmacs_def unary_bigi_def be_nat_be_bytes)
  then have "rfc6979_loop (const_hmacs 3) unary_bigi 7 (\<lambda>k. ecdsa_attempt unary_bigi ring7 0 1 k \<noteq> None)
      (rfc6979_start (const_hmacs 3) (replicate 32 0) ?x None) = Some 3"
    using a by (subst rfc6979_loop_step) (simp add: nonce_ok_def)
  moreover have "length ?x = 32" by (simp add: unary_bigi_def)
  moreover have "c_n ring7 = 7" "N_OVER_TWO ring7 = 3" "c_multiply ring7 (c_G ring7) 1 = 1" by (simp_all add: ring7_def N_OVER_TWO_def)
  ultimately have "ecdsa_sign (const_hmacs 3) unary_bigi ring7 (replicate 32 0) 1 = Some (Inr \<lparr>sig_r = 3, sig_s = 1\<rparr>)"
    using a by (simp add: ecdsa_sign_def deterministicGenerateK_def z)
  from ecdsa_sign_verify [OF ring7.ec_group_axioms _ this] show ?thesis by (simp add: ring7_def)
qed

text \<open>C11. A Schnorr signature is accepted by \<open>schnorr.verify\<close> exactly when the x-coordinate of its nonce
  point is below the group order: \<open>sign\<close> reduces that coordinate modulo \<open>n\<close>, while \<open>verify\<close>
  compares \<open>r\<close> with the unreduced coordinate.\<close>

theorem schnorr_sign_verify:
  assumes "ec_group c bi" "schnorr_sign True hm hs bi c h x = Some (Inr sig)"
  shows "\<exists>k. 0 < k \<and> k < c_n c \<and> sig_r sig = c_affineX c (c_multiply c (c_G c) k) mod c_n c \<and>
    schnorr_verify hs bi c h sig (c_multiply c (c_G c) x) = Inr (c_affineX c (c_multiply c (c_G c) k) < c_n c)"
  using ec_group.schnorr_sign_verifies [OF assms] .

theorem schnorr_sign_verify_witness:
  "\<exists>sig k. schnorr_sign True (const_hmacs 3) padded_hashes unary_bigi ring7 (replicate 32 0) 5 = Some (Inr sig) \<and>
     schnorr_verify padded_hashes unary_bigi ring7 (replicate 32 0) sig 5 = Inr (c_affineX ring7 (c_multiply ring7 (c_G ring7) k) < 7)"
proof -
  let ?x = "bi_toBuffer unary_bigi 5 32"
  have "rfc6979_candidate (const_hmacs 3) unary_bigi (rfc6979_start (const_hmacs 3) (replicate 32 0) ?x (Some schnorr_algo16)) 0 = 3"
    by (simp add: rfc6979_candidate_def rfc6979_start_def Let_def const_hmacs_def unary_bigi_def be_nat_be_bytes)
  then have "rfc6979_loop (const_hmacs 3) unary_bigi 7 (\<lambda>_. True)
      (rfc6979_start (const_hmacs 3) (replicate 32 0) ?x (Some schnorr_algo16)) = Some 3"
    by (subst rfc6979_loop_step) (simp add: nonce_ok_def)
  moreover have "length ?x = 32" "length schnorr_algo16 = 16" by (simp_all add: unary_bigi_def schnorr_algo16_def)
  moreover have "c_n ring7 = 7" "c_multiply ring7 (c_G ring7) 5 = 5" by (simp_all add: ring7_def)
  ultimately obtain sig where "schnorr_sign True (const_hmacs 3) padded_hashes unary_bigi ring7 (replicate 32 0) 5 = Some (Inr sig)"
    by (cases "signWithK padded_hashes unary_bigi ring7 (replicate 32 0) 5 5 3") (simp add: schnorr_sign_def deterministicGenerateK_def)
  with schnorr_sign_verify [OF ring7.ec_group_axioms this] \<open>c_n ring7 = 7\<close> \<open>c_multiply ring7 (c_G ring7) 5 = 5\<close>
  show ?thesis by auto
qed

end
