(* ===== verification/Keys.thy ===== *)
theory Keys
  imports Address Curve Bufferutils
begin

text \<open>
  \<open>ecashjs-lib/src/ecpair.js\<close>: key pairs. The packages that the library calls are collected in one record;
  the point that the getter \<open>Q\<close> caches is computed from the private key each time.
\<close>

record wif_codec =
  wif_encode :: "nat \<Rightarrow> buffer \<Rightarrow> bool \<Rightarrow> string"
  wif_decode :: "string \<Rightarrow> (nat \<times> buffer \<times> bool) result"

record 'p lib =
  lib_hashes :: hashes
  lib_hmacs :: hmacs
  lib_bigi :: bigi
  lib_bip66 :: bip66
  lib_curve :: "'p curve"
  lib_codecs :: codecs
  lib_wif :: wif_codec
  lib_varuint :: varuint
  lib_junk :: "nat \<Rightarrow> byte"
  lib_USE_RFC6979 :: bool

record 'p ecpair =
  ec_d :: "int option"
  ec_Q :: "'p option"
  ec_compressed :: bool
  ec_network :: network

definition new_ECPair ::
    "'p lib \<Rightarrow> int option \<Rightarrow> 'p option \<Rightarrow> bool option \<Rightarrow> network option \<Rightarrow> 'p ecpair result" where
  "new_ECPair lib d Q compressed network =
     bindE (assertE (pred_option types_Network network) typeforce_error) (\<lambda>_.
      let compressed = (case compressed of None \<Rightarrow> True | Some b \<Rightarrow> b);
          network = (case network of None \<Rightarrow> network_bitcoin | Some n \<Rightarrow> n) in
      case d of
        Some d \<Rightarrow>
          if d \<le> 0 then Inl (Error ''Private key must be greater than 0'')
          else if d \<ge> c_n (lib_curve lib) then Inl (Error ''Private key must be less than the curve order'')
          else if Q \<noteq> None then Inl (TypeError ''Unexpected publicKey parameter'')
          else Inr \<lparr>ec_d = Some d, ec_Q = None, ec_compressed = compressed, ec_network = network\<rparr>
      | None \<Rightarrow>
          if Q = None then Inl typeforce_error
          else Inr \<lparr>ec_d = None, ec_Q = Q, ec_compressed = compressed, ec_network = network\<rparr>)"

definition ecpair_Q :: "'p lib \<Rightarrow> 'p ecpair \<Rightarrow> 'p option" where
  "ecpair_Q lib kp = (case ec_Q kp of
     Some Q \<Rightarrow> Some Q
   | None \<Rightarrow> map_option (c_multiply (lib_curve lib) (c_G (lib_curve lib))) (ec_d kp))"

definition fromPublicKeyBuffer :: "'p lib \<Rightarrow> buffer \<Rightarrow> network option \<Rightarrow> 'p ecpair result" where
  "fromPublicKeyBuffer lib buffer network =
     bindE (c_decodeFrom (lib_curve lib) buffer) (\<lambda>(Q, compressed). new_ECPair lib None (Some Q) (Some compressed) network)"

text \<open>A network argument is a list of networks, or one network or none.\<close>

datatype network_arg = Many "network list" | One "network option"

definition fromWIF :: "'p lib \<Rightarrow> string \<Rightarrow> network_arg \<Rightarrow> 'p ecpair result" where
  "fromWIF lib string network =
     bindE (wif_decode (lib_wif lib) string) (\<lambda>(version, privateKey, compressed).
     bindE (case network of
        Many ns \<Rightarrow>
          (case filter (\<lambda>x. version = net_wif x) ns of
             [] \<Rightarrow> Inl (Error ''Unknown network version'')
           | matching \<Rightarrow> Inr (last matching))
      | One n \<Rightarrow>
          let network = (case n of None \<Rightarrow> network_bitcoin | Some n \<Rightarrow> n) in
          if version \<noteq> net_wif network then Inl (Error ''Invalid network version'') else Inr network) (\<lambda>network.
     new_ECPair lib (Some (bi_fromBuffer (lib_bigi lib) privateKey)) None (Some compressed) (Some network)))"

text \<open>The buffers that the random number generator returns, one after the other, are an argument.\<close>

partial_function (option) makeRandom_loop :: "'p lib \<Rightarrow> (nat \<Rightarrow> buffer) \<Rightarrow> nat \<Rightarrow> int result option" where
  "makeRandom_loop lib rng i =
     (if length (rng i) \<noteq> 32 then Some (Inl typeforce_error)
      else
        let d = bi_fromBuffer (lib_bigi lib) (rng i) in
        if d \<le> 0 \<or> d \<ge> c_n (lib_curve lib) then makeRandom_loop lib rng (i + 1) else Some (Inr d))"

definition makeRandom ::
    "'p lib \<Rightarrow> (nat \<Rightarrow> buffer) \<Rightarrow> bool option \<Rightarrow> network option \<Rightarrow> 'p ecpair result option" where
  "makeRandom lib rng compressed network =
     map_option (\<lambda>d. bindE d (\<lambda>d. new_ECPair lib (Some d) None compressed network)) (makeRandom_loop lib rng 0)"

definition getPublicKeyBuffer :: "'p lib \<Rightarrow> 'p ecpair \<Rightarrow> buffer result" where
  "getPublicKeyBuffer lib kp = (case ecpair_Q lib kp of
     None \<Rightarrow> Inl (TypeError ''undefined'')
   | Some Q \<Rightarrow> Inr (c_getEncoded (lib_curve lib) Q (ec_compressed kp)))"

definition ecpair_getNetwork :: "'p ecpair \<Rightarrow> network" where
  "ecpair_getNetwork kp = ec_network kp"

definition ecpair_getAddress :: "'p lib \<Rightarrow> 'p ecpair \<Rightarrow> string result" where
  "ecpair_getAddress lib kp =
     bindE (getPublicKeyBuffer lib kp) (\<lambda>b.
     toBase58Check (lib_codecs lib) (lib_junk lib) (hash160 (lib_hashes lib) b) (int (net_pubKeyHash (ecpair_getNetwork kp))))"

text \<open>For another algorithm the function returns without a value.\<close>

definition ecpair_sign :: "'p lib \<Rightarrow> 'p ecpair \<Rightarrow> buffer \<Rightarrow> int option \<Rightarrow> ecsignature option result option" where
  "ecpair_sign lib kp hash signatureAlgorithm =
     (case ec_d kp of
        None \<Rightarrow> Some (Inl (Error ''Missing private key''))
      | Some d \<Rightarrow>
          let signatureAlgorithm = (case signatureAlgorithm of None \<Rightarrow> ECSignature_ECDSA | Some a \<Rightarrow> a);
              value = map_option (\<lambda>r. bindE r (\<lambda>s. Inr (Some s))) in
          if signatureAlgorithm = ECSignature_ECDSA then value (ecdsa_sign (lib_hmacs lib) (lib_bigi lib) (lib_curve lib) hash d)
          else if signatureAlgorithm = ECSignature_SCHNORR then
            value (schnorr_sign (lib_USE_RFC6979 lib) (lib_hmacs lib) (lib_hashes lib) (lib_bigi lib) (lib_curve lib) hash d)
          else Some (Inr None))"

definition toWIF :: "'p lib \<Rightarrow> 'p ecpair \<Rightarrow> string result" where
  "toWIF lib kp = (case ec_d kp of
     None \<Rightarrow> Inl (Error ''Missing private key'')
   | Some d \<Rightarrow> Inr (wif_encode (lib_wif lib) (net_wif (ec_network kp)) (bi_toBuffer (lib_bigi lib) d 32) (ec_compressed kp)))"

definition ecpair_verify :: "'p lib \<Rightarrow> 'p ecpair \<Rightarrow> buffer \<Rightarrow> ecsignature \<Rightarrow> bool result" where
  "ecpair_verify lib kp hash signature = (case ecpair_Q lib kp of
     None \<Rightarrow> Inl typeforce_error
   | Some Q \<Rightarrow> ecdsa_verify (lib_bigi lib) (lib_curve lib) hash signature Q)"

subsection \<open>What the packages promise together\<close>

locale key_lib =
  ec: ec_group "lib_curve lib" "lib_bigi lib" +
  sc: signature_codecs "lib_bigi lib" "lib_bip66 lib" +
  ac: address_codecs "lib_codecs lib" +
  dl: digest_lengths "lib_hashes lib"
  for lib :: "'p lib" +
  assumes order_256: "c_n (lib_curve lib) \<le> 2 ^ 256"
    and wif: "length k = 32 \<Longrightarrow> v < 256 \<Longrightarrow> wif_decode (lib_wif lib) (wif_encode (lib_wif lib) v k b) = Inr (v, k, b)"
    and encoded: "0 \<le> i \<Longrightarrow> i mod c_n (lib_curve lib) \<noteq> 0 \<Longrightarrow> P = c_multiply (lib_curve lib) (c_G (lib_curve lib)) i \<Longrightarrow>
      c_decodeFrom (lib_curve lib) (c_getEncoded (lib_curve lib) P b) = Inr (P, b) \<and> c_validate (lib_curve lib) P = Inr ()"
    and length_encoded: "0 \<le> i \<Longrightarrow> i mod c_n (lib_curve lib) \<noteq> 0 \<Longrightarrow> P = c_multiply (lib_curve lib) (c_G (lib_curve lib)) i \<Longrightarrow>
      length (c_getEncoded (lib_curve lib) P True) = 33"
    and length_sha512: "length (hmac_sha512 (lib_hmacs lib) key message) = 64"
begin

abbreviation point :: "int \<Rightarrow> 'p" where
  "point k \<equiv> c_multiply (lib_curve lib) (c_G (lib_curve lib)) k"

lemma private_key_bytes:
  assumes "0 < d" "d < c_n (lib_curve lib)"
  shows "bi_toBuffer (lib_bigi lib) d 32 = be_bytes 32 (nat d)" "bi_fromBuffer (lib_bigi lib) (be_bytes 32 (nat d)) = d"
proof -
  have "d < 2 ^ 256" using assms order_256 by linarith
  then show "bi_toBuffer (lib_bigi lib) d 32 = be_bytes 32 (nat d)" "bi_fromBuffer (lib_bigi lib) (be_bytes 32 (nat d)) = d"
    using assms by (simp_all add: sc.toBuffer sc.fromBuffer be_nat_be_bytes nat_mod_distrib [symmetric] zmod_int)
qed

lemma fromWIF_toWIF:
  assumes "0 < d" "d < c_n (lib_curve lib)" "types_Network net" "kp = \<lparr>ec_d = Some d, ec_Q = None, ec_compressed = b, ec_network = net\<rparr>"
  shows "bindE (toWIF lib kp) (\<lambda>s. fromWIF lib s (One (Some net))) = Inr kp"
    and "filter (\<lambda>x. net_wif x = net_wif net) ns = [net] \<Longrightarrow> bindE (toWIF lib kp) (\<lambda>s. fromWIF lib s (Many ns)) = Inr kp"
proof -
  have "filter (\<lambda>x. net_wif net = net_wif x) ns = filter (\<lambda>x. net_wif x = net_wif net) ns" by (rule filter_cong) auto
  then show "bindE (toWIF lib kp) (\<lambda>s. fromWIF lib s (One (Some net))) = Inr kp"
    and "filter (\<lambda>x. net_wif x = net_wif net) ns = [net] \<Longrightarrow> bindE (toWIF lib kp) (\<lambda>s. fromWIF lib s (Many ns)) = Inr kp"
    using assms private_key_bytes [OF assms(1,2)] by (simp_all add: toWIF_def fromWIF_def wif new_ECPair_def Let_def types_Network_def assertE_def)
qed

lemma sign_verify:
  assumes "0 \<le> d" "ecpair_sign lib \<lparr>ec_d = Some d, ec_Q = None, ec_compressed = b, ec_network = net\<rparr> hash None = Some (Inr (Some sig))"
  shows "ecpair_verify lib \<lparr>ec_d = Some d, ec_Q = None, ec_compressed = b, ec_network = net\<rparr> hash sig = Inr True"
  using assms(2) ec.ecdsa_sign_verifies(1) [OF assms(1)]
  by (auto simp: ecpair_sign_def ecpair_verify_def ecpair_Q_def bindE_Inr_iff split: if_splits)

end

text \<open>The stand-ins together.\<close>

definition plain_wif :: wif_codec where
  "plain_wif = \<lparr>
     wif_encode = (\<lambda>v k b. (if b then CHR ''K'' else CHR ''5'') # replicate v CHR ''v'' @ plain_chars k),
     wif_decode = (\<lambda>s. if length s \<ge> 33 then Inr (length s - 33, plain_bytes (drop (length s - 32) s), hd s = CHR ''K'')
        else Inl (Error ''Invalid WIF length''))\<rparr>"

definition lib7 :: "int lib" where
  "lib7 = \<lparr>lib_hashes = padded_hashes, lib_hmacs = const_hmacs 3, lib_bigi = unary_bigi, lib_bip66 = paired_bip66,
     lib_curve = ring7, lib_codecs = plain_codecs, lib_wif = plain_wif, lib_varuint = compactSize_varuint,
     lib_junk = (\<lambda>_. 0), lib_USE_RFC6979 = True\<rparr>"

lemma lib7_simps [simp]:
  "lib_hashes lib7 = padded_hashes" "lib_hmacs lib7 = const_hmacs 3" "lib_bigi lib7 = unary_bigi" "lib_bip66 lib7 = paired_bip66"
  "lib_curve lib7 = ring7" "lib_codecs lib7 = plain_codecs" "lib_wif lib7 = plain_wif" "lib_varuint lib7 = compactSize_varuint"
  by (simp_all add: lib7_def)

interpretation lib7: key_lib lib7
proof (intro key_lib.intro key_lib_axioms.intro, unfold lib7_simps)
  show "c_n ring7 \<le> 2 ^ 256" by (simp add: ring7_simps)
  show "wif_decode plain_wif (wif_encode plain_wif v k b) = Inr (v, k, b)" if "length k = 32" for v k b
    using that by (simp add: plain_wif_def)
  show "c_decodeFrom ring7 (c_getEncoded ring7 P b) = Inr (P, b) \<and> c_validate ring7 P = Inr ()"
    if "P = c_multiply ring7 (c_G ring7) k" for k P b
  proof -
    have "0 \<le> P" "P < 7" using that by (simp_all add: ring7_simps)
    then have "nat P mod 256 ^ 32 = nat P" "nat P mod 256 ^ 64 = nat P" by auto
    then show ?thesis using \<open>0 \<le> P\<close> by (auto simp: ring7_def be_nat_be_bytes)
  qed
  show "length (c_getEncoded ring7 P True) = 33" for P by (simp add: ring7_def)
  show "length (hmac_sha512 (const_hmacs 3) key message) = 64" for key message by (simp add: const_hmacs_def)
qed (fact ring7.ec_group_axioms unary.signature_codecs_axioms plain.address_codecs_axioms padded.digest_lengths_axioms)+

text \<open>C28. A private key survives its wallet import format: \<open>fromWIF\<close> of \<open>toWIF\<close> returns the same key
  pair, with the compression flag, when it is given the network of the pair, or a list in which that network
  is the only one with its version byte.\<close>

theorem wif_roundtrip:
  assumes "key_lib lib" "new_ECPair lib (Some d) None compressed (Some net) = Inr kp"
  shows "bindE (toWIF lib kp) (\<lambda>s. fromWIF lib s (One (Some net))) = Inr kp \<and>
    (filter (\<lambda>x. net_wif x = net_wif net) ns = [net] \<longrightarrow> bindE (toWIF lib kp) (\<lambda>s. fromWIF lib s (Many ns)) = Inr kp)"
proof -
  obtain b where kp: "0 < d" "d < c_n (lib_curve lib)" "types_Network net" "kp = \<lparr>ec_d = Some d, ec_Q = None, ec_compressed = b, ec_network = net\<rparr>"
    using assms(2) by (auto simp: new_ECPair_def assertE_def Let_def split: if_splits)
  from key_lib.fromWIF_toWIF [OF assms(1) kp] show ?thesis by simp
qed

theorem wif_roundtrip_witness:
  "\<exists>kp. new_ECPair lib7 (Some 5) None None (Some network_testnet) = Inr kp \<and>
     bindE (toWIF lib7 kp) (\<lambda>s. fromWIF lib7 s (Many [network_bitcoin, network_testnet, network_litecoin])) = Inr kp"
proof -
  obtain kp where kp: "new_ECPair lib7 (Some 5) None None (Some network_testnet) = Inr kp"
    by (simp add: new_ECPair_def assertE_def types_Network_def network_testnet_def ring7_simps)
  have "filter (\<lambda>x. net_wif x = net_wif network_testnet) [network_bitcoin, network_testnet, network_litecoin] = [network_testnet]"
    by (simp add: network_bitcoin_def network_testnet_def network_litecoin_def)
  then have "bindE (toWIF lib7 kp) (\<lambda>s. fromWIF lib7 s (Many [network_bitcoin, network_testnet, network_litecoin])) = Inr kp"
    using wif_roundtrip [OF lib7.key_lib_axioms kp, of "[network_bitcoin, network_testnet, network_litecoin]"] by (elim conjE mp)
  with kp show ?thesis by (intro exI conjI)
qed

end
