(* ===== verification/HDNode.thy ===== *)
theory HDNode
  imports Keys
begin

text \<open>
  \<open>ecashjs-lib/src/hdnode.js\<close>: the hierarchical deterministic keys of BIP32, with the path check of
  \<open>types.js\<close>.
\<close>

subsection \<open>Nodes\<close>

record 'p hdnode =
  hd_keyPair :: "'p ecpair"
  hd_chainCode :: buffer
  hd_depth :: int
  hd_index :: int
  hd_parentFingerprint :: int

abbreviation (input) HIGHEST_BIT :: int where
  "HIGHEST_BIT \<equiv> 0x80000000"

definition MASTER_SECRET :: buffer where
  "MASTER_SECRET = map (\<lambda>x. word_of_nat (of_char x)) ''Bitcoin seed''"

definition new_HDNode :: "'p ecpair \<Rightarrow> buffer \<Rightarrow> 'p hdnode result" where
  "new_HDNode keyPair chainCode =
     (if \<not> ec_compressed keyPair then Inl (TypeError ''BIP32 only allows compressed keyPairs'')
      else Inr \<lparr>hd_keyPair = keyPair, hd_chainCode = chainCode, hd_depth = 0, hd_index = 0, hd_parentFingerprint = 0\<rparr>)"

definition fromSeedBuffer :: "'p lib \<Rightarrow> buffer \<Rightarrow> network option \<Rightarrow> 'p hdnode result" where
  "fromSeedBuffer lib seed network =
     (if length seed < 16 then Inl (TypeError ''Seed should be at least 128 bits'')
      else if length seed > 64 then Inl (TypeError ''Seed should be at most 512 bits'')
      else
        let I = hmac_sha512 (lib_hmacs lib) MASTER_SECRET seed; IL = slice I 0 32; IR = drop 32 I in
        bindE (new_ECPair lib (Some (bi_fromBuffer (lib_bigi lib) IL)) None None network) (\<lambda>keyPair. new_HDNode keyPair IR))"

definition fromSeedHex :: "'p lib \<Rightarrow> string \<Rightarrow> network option \<Rightarrow> 'p hdnode result" where
  "fromSeedHex lib hex network = fromSeedBuffer lib (buffer_from_hex hex) network"

definition isNeutered :: "'p hdnode \<Rightarrow> bool" where
  "isNeutered node \<longleftrightarrow> ec_d (hd_keyPair node) = None"

definition hd_getPublicKeyBuffer :: "'p lib \<Rightarrow> 'p hdnode \<Rightarrow> buffer result" where
  "hd_getPublicKeyBuffer lib node = getPublicKeyBuffer lib (hd_keyPair node)"

definition hd_getAddress :: "'p lib \<Rightarrow> 'p hdnode \<Rightarrow> string result" where
  "hd_getAddress lib node = ecpair_getAddress lib (hd_keyPair node)"

definition getIdentifier :: "'p lib \<Rightarrow> 'p hdnode \<Rightarrow> buffer result" where
  "getIdentifier lib node = bindE (getPublicKeyBuffer lib (hd_keyPair node)) (\<lambda>b. Inr (hash160 (lib_hashes lib) b))"

definition getFingerprint :: "'p lib \<Rightarrow> 'p hdnode \<Rightarrow> buffer result" where
  "getFingerprint lib node = bindE (getIdentifier lib node) (\<lambda>b. Inr (slice b 0 4))"

definition hd_getNetwork :: "'p hdnode \<Rightarrow> network" where
  "hd_getNetwork node = ecpair_getNetwork (hd_keyPair node)"

definition neutered :: "'p lib \<Rightarrow> 'p hdnode \<Rightarrow> 'p hdnode result" where
  "neutered lib node =
     bindE (new_ECPair lib None (ecpair_Q lib (hd_keyPair node)) None (Some (ec_network (hd_keyPair node)))) (\<lambda>keyPair.
     bindE (new_HDNode keyPair (hd_chainCode node)) (\<lambda>n.
     Inr (n\<lparr>hd_depth := hd_depth node, hd_index := hd_index node, hd_parentFingerprint := hd_parentFingerprint node\<rparr>)))"

definition hd_sign :: "'p lib \<Rightarrow> 'p hdnode \<Rightarrow> buffer \<Rightarrow> ecsignature option result option" where
  "hd_sign lib node hash = ecpair_sign lib (hd_keyPair node) hash None"

definition hd_verify :: "'p lib \<Rightarrow> 'p hdnode \<Rightarrow> buffer \<Rightarrow> ecsignature \<Rightarrow> bool result" where
  "hd_verify lib node hash signature = ecpair_verify lib (hd_keyPair node) hash signature"

subsection \<open>The extended key\<close>

definition hd_fromBase58 :: "'p lib \<Rightarrow> string \<Rightarrow> network_arg \<Rightarrow> 'p hdnode result" where
  "hd_fromBase58 lib string networks =
     bindE (bs58check_decode (lib_codecs lib) string) (\<lambda>buffer.
     if length buffer \<noteq> 78 then Inl (Error ''Invalid buffer length'') else
     bindE (readUInt32BE buffer 0) (\<lambda>version.
     bindE (case networks of
        Many ns \<Rightarrow>
          (case filter (\<lambda>x. version = net_bip32_private x \<or> version = net_bip32_public x) ns of
             [] \<Rightarrow> Inl (Error ''Unknown network version'')
           | matching \<Rightarrow> Inr (last matching))
      | One n \<Rightarrow> Inr (case n of None \<Rightarrow> network_bitcoin | Some n \<Rightarrow> n)) (\<lambda>network.
     if version \<noteq> net_bip32_private network \<and> version \<noteq> net_bip32_public network
       then Inl (Error ''Invalid network version'') else
     let depth = unat (buffer ! 4) in
     bindE (readUInt32BE buffer 5) (\<lambda>parentFingerprint.
     if depth = 0 \<and> parentFingerprint \<noteq> 0 then Inl (Error ''Invalid parent fingerprint'') else
     bindE (readUInt32BE buffer 9) (\<lambda>index.
     if depth = 0 \<and> index \<noteq> 0 then Inl (Error ''Invalid index'') else
     let chainCode = slice buffer 13 45 in
     bindE (if version = net_bip32_private network then
         bindE (readUInt8 buffer 45) (\<lambda>x.
         if x \<noteq> 0x00 then Inl (Error ''Invalid private key'')
         else new_ECPair lib (Some (bi_fromBuffer (lib_bigi lib) (slice buffer 46 78))) None None (Some network))
       else
         bindE (c_decodeFrom (lib_curve lib) (slice buffer 45 78)) (\<lambda>(Q, _).
         bindE (c_validate (lib_curve lib) Q) (\<lambda>_.
         new_ECPair lib None (Some Q) None (Some network)))) (\<lambda>keyPair.
     bindE (new_HDNode keyPair chainCode) (\<lambda>hd.
     Inr (hd\<lparr>hd_depth := int depth, hd_index := int index, hd_parentFingerprint := int parentFingerprint\<rparr>))))))))"

definition hd_toBase58 :: "'p lib \<Rightarrow> 'p hdnode \<Rightarrow> bool option \<Rightarrow> string result" where
  "hd_toBase58 lib node isPrivate =
     (if isPrivate \<noteq> None then Inl (TypeError ''Unsupported argument in 2.0.0'')
      else
        let network = ec_network (hd_keyPair node);
            version = (if \<not> isNeutered node then net_bip32_private network else net_bip32_public network) in
        bindE (writeUInt32BE (allocUnsafe (lib_junk lib) 78) (int version) 0) (\<lambda>buffer.
        bindE (writeUInt8 buffer (hd_depth node) 4) (\<lambda>buffer.
        bindE (writeUInt32BE buffer (hd_parentFingerprint node) 5) (\<lambda>buffer.
        bindE (writeUInt32BE buffer (hd_index node) 9) (\<lambda>buffer.
        let buffer = fst (copy (hd_chainCode node) buffer 13) in
        bindE (case ec_d (hd_keyPair node) of
           Some d \<Rightarrow>
             bindE (writeUInt8 buffer 0 45) (\<lambda>buffer. Inr (fst (copy (bi_toBuffer (lib_bigi lib) d 32) buffer 46)))
         | None \<Rightarrow>
             bindE (getPublicKeyBuffer lib (hd_keyPair node)) (\<lambda>b. Inr (fst (copy b buffer 45)))) (\<lambda>buffer.
        Inr (bs58check_encode (lib_codecs lib) buffer)))))))"

subsection \<open>Derivation\<close>

definition hd_derive_data :: "'p lib \<Rightarrow> 'p hdnode \<Rightarrow> int \<Rightarrow> buffer result" where
  "hd_derive_data lib node index =
     (let data = allocUnsafe (lib_junk lib) 37 in
      if index \<ge> HIGHEST_BIT then
        (case ec_d (hd_keyPair node) of
           None \<Rightarrow> Inl (TypeError ''Could not derive hardened child key'')
         | Some d \<Rightarrow>
             writeUInt32BE (fst (copy (bi_toBuffer (lib_bigi lib) d 32) (data[0 := 0x00]) 1)) index 33)
      else
        bindE (getPublicKeyBuffer lib (hd_keyPair node)) (\<lambda>b. writeUInt32BE (fst (copy b data 0)) index 33))"

text \<open>The key pair of the child, or none when it is the key 0 or the point at infinity.\<close>

definition hd_child_key :: "'p lib \<Rightarrow> 'p hdnode \<Rightarrow> int \<Rightarrow> 'p ecpair option result" where
  "hd_child_key lib node pIL =
     (let c = lib_curve lib; network = ec_network (hd_keyPair node) in
      case ec_d (hd_keyPair node) of
        Some d \<Rightarrow>
          let ki = (pIL + d) mod c_n c in
          if ki = 0 then Inr None
          else bindE (new_ECPair lib (Some ki) None None (Some network)) (\<lambda>kp. Inr (Some kp))
      | None \<Rightarrow>
          (case ecpair_Q lib (hd_keyPair node) of
             None \<Rightarrow> Inl (TypeError ''undefined'')
           | Some Q \<Rightarrow>
               let Ki = c_add c (c_multiply c (c_G c) pIL) Q in
               if c_isInfinity c Ki then Inr None
               else bindE (new_ECPair lib None (Some Ki) None (Some network)) (\<lambda>kp. Inr (Some kp))))"

function hd_derive :: "'p lib \<Rightarrow> 'p hdnode \<Rightarrow> int \<Rightarrow> 'p hdnode result" where
  "hd_derive lib node index =
     (if \<not> types_UInt32 index then Inl typeforce_error
      else
        bindE (hd_derive_data lib node index) (\<lambda>data.
        let I = hmac_sha512 (lib_hmacs lib) (hd_chainCode node) data;
            pIL = bi_fromBuffer (lib_bigi lib) (slice I 0 32);
            IR = drop 32 I in
        if pIL \<ge> c_n (lib_curve lib) then hd_derive lib node (index + 1)
        else
          bindE (hd_child_key lib node pIL) (\<lambda>derived.
          if derived = None then hd_derive lib node (index + 1)
          else
            bindE (new_HDNode (the derived) IR) (\<lambda>hd.
            bindE (getFingerprint lib node) (\<lambda>fingerprint.
            bindE (readUInt32BE fingerprint 0) (\<lambda>parent.
            Inr (hd\<lparr>hd_depth := hd_depth node + 1, hd_index := index, hd_parentFingerprint := int parent\<rparr>)))))))"
  by pat_completeness auto
termination
  by (relation "measure (\<lambda>(lib, node, index). nat (2 ^ 32 - index))") (auto simp: types_UInt32_def)

declare hd_derive.simps [simp del]

definition deriveHardened :: "'p lib \<Rightarrow> 'p hdnode \<Rightarrow> int \<Rightarrow> 'p hdnode result" where
  "deriveHardened lib node index =
     bindE (assertE (types_UInt31 index) typeforce_error) (\<lambda>_. hd_derive lib node (index + HIGHEST_BIT))"

subsection \<open>Paths\<close>

definition is_digit :: "char \<Rightarrow> bool" where
  "is_digit x \<longleftrightarrow> (48 :: nat) \<le> of_char x \<and> of_char x \<le> (57 :: nat)"

definition path_tick :: char where
  "path_tick = CHR 0x27"

text \<open>One segment of a path, \<open>\d+'?\<close>.\<close>

definition bip32_segment :: "string \<Rightarrow> bool" where
  "bip32_segment s =
     (let t = (if s \<noteq> [] \<and> last s = path_tick then butlast s else s) in t \<noteq> [] \<and> list_all is_digit t)"

definition BIP32Path :: "string \<Rightarrow> bool" where
  "BIP32Path path =
     (let segments = js_split (CHR ''/'') path;
          segments = (if hd segments = ''m'' then tl segments else segments) in
      segments \<noteq> [] \<and> list_all bip32_segment segments)"

text \<open>\<open>parseInt(s, 10)\<close> of a string of digits.\<close>

definition parseInt10 :: "string \<Rightarrow> int" where
  "parseInt10 s = foldl (\<lambda>a x. 10 * a + (of_char x - 48)) 0 s"

fun foldE :: "('s \<Rightarrow> 'a \<Rightarrow> 's result) \<Rightarrow> 's \<Rightarrow> 'a list \<Rightarrow> 's result" where
  "foldE f s [] = Inr s"
| "foldE f s (x # xs) = bindE (f s x) (\<lambda>t. foldE f t xs)"

definition derive_segment :: "'p lib \<Rightarrow> 'p hdnode \<Rightarrow> string \<Rightarrow> 'p hdnode result" where
  "derive_segment lib prevHd indexStr =
     (if indexStr \<noteq> [] \<and> last indexStr = path_tick then deriveHardened lib prevHd (parseInt10 (butlast indexStr))
      else hd_derive lib prevHd (parseInt10 indexStr))"

definition derivePath :: "'p lib \<Rightarrow> 'p hdnode \<Rightarrow> string \<Rightarrow> 'p hdnode result" where
  "derivePath lib node path =
     bindE (assertE (BIP32Path path) typeforce_error) (\<lambda>_.
     let splitPath = js_split (CHR ''/'') path in
     if hd splitPath = ''m'' then
       if hd_parentFingerprint node \<noteq> 0 then Inl (Error ''Not a master node'')
       else foldE (derive_segment lib) node (tl splitPath)
     else foldE (derive_segment lib) node splitPath)"

subsection \<open>Public derivation\<close>

lemma hd_derive_index: "hd_derive lib node i = Inr child \<Longrightarrow> i \<le> hd_index child"
proof (induction "nat (2 ^ 32 - i)" arbitrary: i rule: less_induct)
  case less
  have "types_UInt32 i" using less.prems by (subst (asm) hd_derive.simps) (auto split: if_splits)
  then have IH: "hd_derive lib node (i + 1) = Inr child \<Longrightarrow> i \<le> hd_index child"
    using less.hyps [of "i + 1"] by (auto simp: types_UInt32_def)
  show ?case
    using less.prems IH by (subst (asm) hd_derive.simps) (auto simp: Let_def split: if_splits)
qed

definition private_pair :: "int \<Rightarrow> network \<Rightarrow> 'p ecpair" where
  "private_pair d net = \<lparr>ec_d = Some d, ec_Q = None, ec_compressed = True, ec_network = net\<rparr>"

definition public_pair :: "'p \<Rightarrow> network \<Rightarrow> 'p ecpair" where
  "public_pair Q net = \<lparr>ec_d = None, ec_Q = Some Q, ec_compressed = True, ec_network = net\<rparr>"

lemma pair_simps [simp]:
  "ec_d (private_pair d net) = Some d" "ec_compressed (private_pair d net)" "ec_network (private_pair d net) = net"
  "ec_d (public_pair Q net) = None" "ec_compressed (public_pair Q net)" "ec_network (public_pair Q net) = net"
  "ecpair_Q lib (private_pair d net) = Some (c_multiply (lib_curve lib) (c_G (lib_curve lib)) d)"
  "ecpair_Q lib (public_pair Q net) = Some Q"
  by (simp_all add: private_pair_def public_pair_def ecpair_Q_def)

lemma new_pair_simps:
  "types_Network net \<Longrightarrow> 0 < d \<Longrightarrow> d < c_n (lib_curve lib) \<Longrightarrow> new_ECPair lib (Some d) None None (Some net) = Inr (private_pair d net)"
  "types_Network net \<Longrightarrow> new_ECPair lib None (Some Q) None (Some net) = Inr (public_pair Q net)"
  "\<not> types_Network net \<Longrightarrow> new_ECPair lib x P None (Some net) = Inl typeforce_error"
  by (simp_all add: new_ECPair_def assertE_def private_pair_def public_pair_def)

lemma neutered_private:
  "types_Network net \<Longrightarrow> neutered lib \<lparr>hd_keyPair = private_pair d net, hd_chainCode = cc, hd_depth = dep, hd_index = i, hd_parentFingerprint = pf\<rparr> =
     Inr \<lparr>hd_keyPair = public_pair (c_multiply (lib_curve lib) (c_G (lib_curve lib)) d) net, hd_chainCode = cc,
       hd_depth = dep, hd_index = i, hd_parentFingerprint = pf\<rparr>"
  by (simp add: neutered_def new_pair_simps new_HDNode_def)

lemma bitcoin_ok: "types_Network network_bitcoin"
  by (simp add: types_Network_def network_bitcoin_def)

context key_lib
begin

lemma derive_public:
  fixes d dep ix pf net cc
  defines "prv \<equiv> \<lparr>hd_keyPair = private_pair d net, hd_chainCode = cc, hd_depth = dep, hd_index = ix, hd_parentFingerprint = pf\<rparr> :: 'p hdnode"
    and "pub \<equiv> \<lparr>hd_keyPair = public_pair (point d) net, hd_chainCode = cc, hd_depth = dep, hd_index = ix, hd_parentFingerprint = pf\<rparr>"
  assumes d: "0 \<le> d" and net: "types_Network net"
  shows "hd_derive lib pub i = Inr child' \<longleftrightarrow>
    (\<exists>child. hd_derive lib prv i = Inr child \<and> hd_index child < HIGHEST_BIT \<and> neutered lib child = Inr child')"
proof (induction "nat (2 ^ 32 - i)" arbitrary: i rule: less_induct)
  case less
  let ?n = "c_n (lib_curve lib)"
  consider "\<not> types_UInt32 i" | "types_UInt32 i" "HIGHEST_BIT \<le> i" | "types_UInt32 i" "i < HIGHEST_BIT" by linarith
  then show ?case
  proof cases
    case 1
    then show ?thesis by (simp add: hd_derive.simps [of lib _ i])
  next
    case 2
    moreover have "ec_d (hd_keyPair pub) = None" by (simp add: pub_def)
    ultimately have "hd_derive lib pub i \<noteq> Inr child'"
      by (simp add: hd_derive.simps [of lib pub i] hd_derive_data_def)
    then show ?thesis using 2 hd_derive_index [of lib prv i] by force
  next
    case 3
    have IH: "hd_derive lib pub (i + 1) = Inr child' \<longleftrightarrow>
        (\<exists>child. hd_derive lib prv (i + 1) = Inr child \<and> hd_index child < HIGHEST_BIT \<and> neutered lib child = Inr child')"
      using 3 less.hyps [of "i + 1"] by (simp add: types_UInt32_def)
    have data: "hd_derive_data lib pub i = hd_derive_data lib prv i"
      using 3 by (simp add: hd_derive_data_def pub_def prv_def getPublicKeyBuffer_def)
    obtain f where f: "getFingerprint lib pub = Inr f" "getFingerprint lib prv = Inr f" "length f = 4"
      by (simp add: getFingerprint_def getIdentifier_def pub_def prv_def getPublicKeyBuffer_def slice_def)
    have cc: "hd_chainCode pub = cc" "hd_chainCode prv = cc" "hd_depth pub = dep" "hd_depth prv = dep"
      by (simp_all add: pub_def prv_def)
    have range: "0 < q mod ?n" "q mod ?n < ?n" if "q mod ?n \<noteq> 0" for q
      using that ec.order pos_mod_sign [of ?n q] pos_mod_bound [of ?n q] by linarith+
    have keys: "hd_child_key lib pub p = Inr (if (p + d) mod ?n = 0 then None else Some (public_pair (point (p + d)) net))"
        "hd_child_key lib prv p = Inr (if (p + d) mod ?n = 0 then None else Some (private_pair ((p + d) mod ?n) net))" if "0 \<le> p" for p
      using range [of "p + d"] that d net
      by (simp_all add: hd_child_key_def pub_def prv_def ec.add_multiply ec.infinity new_pair_simps Let_def)
    show ?thesis
    proof (cases "hd_derive_data lib prv i")
      case (Inl e)
      then show ?thesis using 3 data by (simp add: hd_derive.simps [of lib _ i])
    next
      case (Inr x)
      then show ?thesis
        using 3 IH data f d by (simp add: hd_derive.simps [of lib _ i] keys cc new_HDNode_def neutered_private [OF net] ec.multiply_mod
            sc.fromBuffer readUInt32BE_def Let_def)
    qed
  qed
qed

end

subsection \<open>The bytes of an extended key\<close>

lemma put_extend: "k = length xs \<Longrightarrow> k \<le> length b \<Longrightarrow> put (put b 0 xs) k ys = put b 0 (xs @ ys)"
  using put_put_adjacent [of 0 xs b ys] by simp

lemma put_whole: "length bs = length b \<Longrightarrow> put b 0 bs = bs"
  by (simp add: put_def)

definition extended_bytes :: "nat \<Rightarrow> 'p hdnode \<Rightarrow> buffer \<Rightarrow> buffer" where
  "extended_bytes version node key =
     be_bytes 4 version @ [word_of_nat (nat (hd_depth node))] @ be_bytes 4 (nat (hd_parentFingerprint node)) @
     be_bytes 4 (nat (hd_index node)) @ hd_chainCode node @ key"

definition hd_fields_ok :: "'p hdnode \<Rightarrow> bool" where
  "hd_fields_ok node \<longleftrightarrow> 0 \<le> hd_depth node \<and> hd_depth node < 256 \<and> types_UInt32 (hd_index node) \<and>
     types_UInt32 (hd_parentFingerprint node) \<and> length (hd_chainCode node) = 32 \<and>
     (hd_depth node = 0 \<longrightarrow> hd_index node = 0 \<and> hd_parentFingerprint node = 0)"

lemma write_extended:
  assumes "hd_fields_ok node" "version < 2 ^ 32"
  shows "bindE (writeUInt32BE (allocUnsafe junk 78) (int version) 0) (\<lambda>buffer.
      bindE (writeUInt8 buffer (hd_depth node) 4) (\<lambda>buffer.
      bindE (writeUInt32BE buffer (hd_parentFingerprint node) 5) (\<lambda>buffer.
      bindE (writeUInt32BE buffer (hd_index node) 9) (\<lambda>buffer. f (fst (copy (hd_chainCode node) buffer 13)))))) =
    f (put (allocUnsafe junk 78) 0 (extended_bytes version node []))"
proof -
  have w4: "writeUInt32BE b v off = Inr (put b off (be_bytes 4 (nat v)))" if "0 \<le> v" "v < 2 ^ 32" "off + 4 \<le> length b" for b v off
    using that by (simp add: writeUInt32BE_def)
  have w1: "writeUInt8 b v off = Inr (put b off [word_of_nat (nat v)])" if "0 \<le> v" "v < 256" "off + 1 \<le> length b" for b v off
    using writeUInt8_fits [of v off b] that by simp
  let ?a = "allocUnsafe junk 78" and ?V = "be_bytes 4 version" and ?D = "[word_of_nat (nat (hd_depth node))] :: buffer"
    and ?F = "be_bytes 4 (nat (hd_parentFingerprint node))" and ?I = "be_bytes 4 (nat (hd_index node))"
  have "writeUInt32BE ?a (int version) 0 = Inr (put ?a 0 ?V)" using assms by (simp add: w4)
  moreover have "writeUInt8 (put ?a 0 ?V) (hd_depth node) 4 = Inr (put ?a 0 (?V @ ?D))"
    using assms w1 [of "hd_depth node" 4 "put ?a 0 ?V"] by (simp add: hd_fields_ok_def put_extend)
  moreover have "writeUInt32BE (put ?a 0 (?V @ ?D)) (hd_parentFingerprint node) 5 = Inr (put ?a 0 ((?V @ ?D) @ ?F))"
    using assms by (simp add: w4 hd_fields_ok_def types_UInt32_def put_extend)
  moreover have "writeUInt32BE (put ?a 0 ((?V @ ?D) @ ?F)) (hd_index node) 9 = Inr (put ?a 0 (((?V @ ?D) @ ?F) @ ?I))"
    using assms by (simp add: w4 hd_fields_ok_def types_UInt32_def put_extend del: append_assoc append_Cons append_Nil)
  moreover have "fst (copy (hd_chainCode node) (put ?a 0 (((?V @ ?D) @ ?F) @ ?I)) 13) = put ?a 0 (extended_bytes version node [])"
    using assms copy_fits [of 13 "hd_chainCode node" "put ?a 0 (((?V @ ?D) @ ?F) @ ?I)"]
      put_extend [of 13 "((?V @ ?D) @ ?F) @ ?I" ?a "hd_chainCode node"]
    by (simp add: hd_fields_ok_def extended_bytes_def)
  ultimately show ?thesis by simp
qed

lemma extended_parts:
  assumes "hd_fields_ok node" "version < 2 ^ 32" "length key = 33" "b = extended_bytes version node key"
  shows "length b = 78" "readUInt32BE b 0 = Inr version" "int (unat (b ! 4)) = hd_depth node"
    "readUInt32BE b 5 = Inr (nat (hd_parentFingerprint node))" "readUInt32BE b 9 = Inr (nat (hd_index node))"
    "slice b 13 45 = hd_chainCode node" "readUInt8 b 45 = Inr (unat (key ! 0))" "slice b 46 78 = drop 1 key" "slice b 45 78 = key"
proof -
  have m: "nat v mod 256 ^ 4 = nat v" if "types_UInt32 v" for v using that by (auto simp: types_UInt32_def)
  have "int (unat (word_of_nat (nat (hd_depth node)) :: byte)) = hd_depth node"
    by (subst unat_word_of_nat_byte) (use assms(1) in \<open>auto simp: hd_fields_ok_def\<close>)
  moreover have "b ! 4 = word_of_nat (nat (hd_depth node))"
    using assms by (simp add: extended_bytes_def nth_append)
  ultimately show "int (unat (b ! 4)) = hd_depth node" by simp
  show "length b = 78" "readUInt32BE b 0 = Inr version"
    "readUInt32BE b 5 = Inr (nat (hd_parentFingerprint node))" "readUInt32BE b 9 = Inr (nat (hd_index node))"
    "slice b 13 45 = hd_chainCode node" "readUInt8 b 45 = Inr (unat (key ! 0))" "slice b 46 78 = drop 1 key" "slice b 45 78 = key"
    using assms m by (simp_all add: hd_fields_ok_def extended_bytes_def readUInt32BE_def readUInt8_eq slice_def be_nat_be_bytes nth_append)
qed

lemma toBase58_fields:
  fixes lib :: "'p lib"
  assumes "hd_fields_ok node" "version < 2 ^ 32"
    "version = (if isNeutered node then net_bip32_public (ec_network (hd_keyPair node)) else net_bip32_private (ec_network (hd_keyPair node)))"
  defines "head \<equiv> put (allocUnsafe (lib_junk lib) 78) 0 (extended_bytes version node [])"
  shows "hd_toBase58 lib node None =
    bindE (case ec_d (hd_keyPair node) of
        Some d \<Rightarrow> bindE (writeUInt8 head 0 45) (\<lambda>buffer. Inr (fst (copy (bi_toBuffer (lib_bigi lib) d 32) buffer 46)))
      | None \<Rightarrow> bindE (getPublicKeyBuffer lib (hd_keyPair node)) (\<lambda>b. Inr (fst (copy b head 45)))) (\<lambda>buffer.
    Inr (bs58check_encode (lib_codecs lib) buffer))"
proof -
  let ?f = "\<lambda>head. bindE (case ec_d (hd_keyPair node) of
        Some d \<Rightarrow> bindE (writeUInt8 head 0 45) (\<lambda>buffer. Inr (fst (copy (bi_toBuffer (lib_bigi lib) d 32) buffer 46)))
      | None \<Rightarrow> bindE (getPublicKeyBuffer lib (hd_keyPair node)) (\<lambda>b. Inr (fst (copy b head 45)))) (\<lambda>buffer.
    Inr (bs58check_encode (lib_codecs lib) buffer))"
  show ?thesis
    unfolding head_def write_extended [OF assms(1,2), of "lib_junk lib" ?f, symmetric]
    by (simp add: hd_toBase58_def assms(3) Let_def if_distrib [of int] del: bindE_Inr_iff)
qed

lemma write_key:
  assumes "hd_fields_ok node" "length key = 33"
  shows "fst (copy key (put (allocUnsafe junk 78) 0 (extended_bytes version node [])) 45) = extended_bytes version node key"
    and "key = 0 # k \<Longrightarrow> bindE (writeUInt8 (put (allocUnsafe junk 78) 0 (extended_bytes version node [])) 0 45)
      (\<lambda>buffer. Inr (fst (copy k buffer 46))) = Inr (extended_bytes version node key)"
proof -
  let ?a = "allocUnsafe junk 78" and ?h = "extended_bytes version node"
  have l: "length (?h k) = 45 + length k" "?h k = ?h [] @ k" for k
    using assms(1) by (simp_all add: extended_bytes_def hd_fields_ok_def)
  have w: "put (put ?a 0 (?h x)) (45 + length x) y = ?h (x @ y)" if "length x + length y = 33" for x y
  proof -
    have "put (put ?a 0 (?h x)) (45 + length x) y = put ?a 0 (?h x @ y)" using that by (intro put_extend) (simp_all add: l(1))
    also have "?h x @ y = ?h (x @ y)" using l(2) [of x] l(2) [of "x @ y"] by simp
    finally show ?thesis using that by (simp add: put_whole l(1))
  qed
  have lp: "length (put ?a 0 (?h x)) = 78" if "length x \<le> 33" for x using that by (simp add: l(1))
  show "fst (copy key (put ?a 0 (?h [])) 45) = ?h key"
    using copy_fits [of 45 key "put ?a 0 (?h [])"] w [of "[]" key] assms(2) lp [of "[]"] by simp
  show "bindE (writeUInt8 (put ?a 0 (?h [])) 0 45) (\<lambda>buffer. Inr (fst (copy k buffer 46))) = Inr (?h key)" if "key = 0 # k"
  proof -
    have "put (put ?a 0 (?h [])) 45 [0] = put ?a 0 (?h [0])"
      using put_extend [of 45 "?h []" ?a "[0]"] l(2) [of "[0]"] l(1) [of "[]"] by simp
    then have "writeUInt8 (put ?a 0 (?h [])) 0 45 = Inr (put ?a 0 (?h [0]))"
      using writeUInt8_fits [of 0 45 "put ?a 0 (?h [])"] lp [of "[]"] by simp
    then show ?thesis
      using copy_fits [of 46 k "put ?a 0 (?h [0])"] w [of "[0]" k] assms(2) that lp [of "[0]"] by simp
  qed
qed

context key_lib
begin

lemma base58_private:
  assumes "hd_fields_ok node" "hd_keyPair node = private_pair d net" "0 < d" "d < c_n (lib_curve lib)"
    "types_Network net"
  shows "bindE (hd_toBase58 lib node None) (\<lambda>s. hd_fromBase58 lib s (One (Some net))) = Inr node"
proof -
  let ?key = "0 # be_bytes 32 (nat d) :: buffer" and ?v = "net_bip32_private net"
  have v: "?v < 2 ^ 32" using assms(5) by (simp add: types_Network_def)
  have "hd_toBase58 lib node None = Inr (bs58check_encode (lib_codecs lib) (extended_bytes ?v node ?key))"
    using toBase58_fields [OF assms(1) v, of lib] write_key(2) [OF assms(1), of ?key] assms(2) private_key_bytes [OF assms(3,4)]
    by (simp add: isNeutered_def del: bindE_Inr_iff)
  moreover have "hd_fromBase58 lib (bs58check_encode (lib_codecs lib) (extended_bytes ?v node ?key)) (One (Some net)) = Inr node"
    using extended_parts [OF assms(1) v, of ?key, OF _ refl] assms private_key_bytes [OF assms(3,4)]
    by (cases node) (auto simp: hd_fromBase58_def ac.bs58check new_pair_simps new_HDNode_def hd_fields_ok_def types_UInt32_def
        Let_def nat_eq_iff simp del: bindE_Inr_iff of_nat_unat)
  ultimately show ?thesis by simp
qed

lemma base58_public:
  assumes "hd_fields_ok node" "hd_keyPair node = public_pair (point k) net" "0 \<le> k" "k mod c_n (lib_curve lib) \<noteq> 0"
    "types_Network net" "net_bip32_public net \<noteq> net_bip32_private net"
  shows "bindE (hd_toBase58 lib node None) (\<lambda>s. hd_fromBase58 lib s (One (Some net))) = Inr node"
proof -
  let ?key = "c_getEncoded (lib_curve lib) (point k) True" and ?v = "net_bip32_public net"
  have v: "?v < 2 ^ 32" using assms(5) by (simp add: types_Network_def)
  note len = length_encoded [OF assms(3,4) refl]
  have "hd_toBase58 lib node None = Inr (bs58check_encode (lib_codecs lib) (extended_bytes ?v node ?key))"
    using toBase58_fields [OF assms(1) v, of lib] write_key(1) [OF assms(1) len] assms(2)
    by (simp add: isNeutered_def getPublicKeyBuffer_def del: bindE_Inr_iff)
  moreover have "hd_fromBase58 lib (bs58check_encode (lib_codecs lib) (extended_bytes ?v node ?key)) (One (Some net)) = Inr node"
    using extended_parts [OF assms(1) v len refl] assms encoded [OF assms(3,4) refl]
    by (cases node) (auto simp: hd_fromBase58_def ac.bs58check new_pair_simps new_HDNode_def hd_fields_ok_def types_UInt32_def
        Let_def nat_eq_iff simp del: bindE_Inr_iff of_nat_unat)
  ultimately show ?thesis by simp
qed

end

subsection \<open>Written paths\<close>

fun decimal :: "nat \<Rightarrow> string" where
  "decimal n = (if n < 10 then [char_of (48 + n)] else decimal (n div 10) @ [char_of (48 + n mod 10)])"

declare decimal.simps [simp del]

lemma digit_char:
  assumes "n < 10"
  shows "is_digit (char_of (48 + n))" "(of_char (char_of (48 + n)) :: int) = 48 + int n"
proof -
  have n: "(of_char (char_of (48 + n)) :: nat) = 48 + n" using assms by (simp add: of_char_of)
  then show "is_digit (char_of (48 + n))" using assms by (simp add: is_digit_def)
  have "(of_char (char_of (48 + n)) :: int) = int (of_char (char_of (48 + n)))" by (rule of_nat_of_char [symmetric])
  then show "(of_char (char_of (48 + n)) :: int) = 48 + int n" unfolding n by simp
qed

lemma decimal_digits: "decimal n \<noteq> [] \<and> list_all is_digit (decimal n)"
proof (induction n rule: decimal.induct)
  case (1 n)
  then show ?case by (subst (1 2) decimal.simps) (simp add: digit_char(1))
qed

lemma parseInt10_decimal: "parseInt10 (decimal n) = int n"
proof (induction n rule: decimal.induct)
  case (1 n)
  moreover have "10 * int (n div 10) + int (n mod 10) = int n" by (simp add: zdiv_int zmod_int)
  ultimately show ?case by (subst decimal.simps) (auto simp: parseInt10_def digit_char(2))
qed

definition path_segment :: "nat \<times> bool \<Rightarrow> string" where
  "path_segment = (\<lambda>(i, hardened). decimal i @ (if hardened then [path_tick] else []))"

lemma not_digit: "\<not> is_digit path_tick" "\<not> is_digit (CHR ''/'')" "\<not> is_digit (CHR ''m'')"
  by (simp_all add: is_digit_def path_tick_def)

lemma path_segment_facts:
  "bip32_segment (path_segment s)" "CHR ''/'' \<notin> set (path_segment s)" "path_segment s \<noteq> ''m''"
proof -
  obtain i h where s: "s = (i, h)" by (cases s)
  have d: "decimal i \<noteq> []" "list_all is_digit (decimal i)" using decimal_digits by auto
  then have "is_digit (last (decimal i))" by (simp add: list_all_iff)
  then have "last (decimal i) \<noteq> path_tick" using not_digit(1) by auto
  then show "bip32_segment (path_segment s)" using d by (simp add: s path_segment_def bip32_segment_def)
  show "CHR ''/'' \<notin> set (path_segment s)"
    using d(2) not_digit(2) by (auto simp: s path_segment_def list_all_iff path_tick_def)
  have "is_digit (hd (path_segment s))" using d by (simp add: s path_segment_def list_all_iff)
  then show "path_segment s \<noteq> ''m''" using not_digit(3) by auto
qed

lemma derive_path_segment:
  assumes "i < 2 ^ 31"
  shows "derive_segment lib node (path_segment (i, h)) = hd_derive lib node (int i + (if h then HIGHEST_BIT else 0))"
proof -
  have "is_digit (last (decimal i))" using decimal_digits [of i] by (simp add: list_all_iff)
  then have "last (decimal i) \<noteq> path_tick" using not_digit(1) by auto
  moreover have "types_UInt31 (int i)" using assms by (simp add: types_UInt31_def types_UInt32_def)
  ultimately show ?thesis
    using decimal_digits [of i] by (simp add: derive_segment_def path_segment_def parseInt10_decimal deriveHardened_def)
qed

lemma foldE_cong:
  "(\<And>s x. x \<in> set xs \<Longrightarrow> f s (g x) = h s x) \<Longrightarrow> foldE f s (map g xs) = foldE h s xs"
proof (induction xs arbitrary: s)
  case (Cons x xs)
  then have "\<And>t. foldE f t (map g xs) = foldE h t xs" "f s (g x) = h s x" by simp_all
  then show ?case by simp
qed simp

definition derive_step :: "'p lib \<Rightarrow> 'p hdnode \<Rightarrow> nat \<times> bool \<Rightarrow> 'p hdnode result" where
  "derive_step lib node = (\<lambda>(i, h). hd_derive lib node (int i + (if h then HIGHEST_BIT else 0)))"

text \<open>C26. Deriving along a written path is deriving step by step: for every list of child numbers below
  \<open>2^31\<close>, each marked as hardened or not, \<open>derivePath\<close> of its text gives the node that \<open>derive\<close>
  reaches with the numbers one after the other, hardened ones raised by \<open>2^31\<close>. With the prefix \<open>m/\<close> this
  holds for a node without a parent, and any other node is rejected.\<close>

theorem hd_derivePath:
  assumes "steps \<noteq> []" "list_all (\<lambda>(i, h). i < 2 ^ 31) steps"
  shows "derivePath lib node (js_join (CHR ''/'') (map path_segment steps)) = foldE (derive_step lib) node steps \<and>
    derivePath lib node (js_join (CHR ''/'') (''m'' # map path_segment steps)) =
      (if hd_parentFingerprint node = 0 then foldE (derive_step lib) node steps else Inl (Error ''Not a master node''))"
proof -
  let ?ss = "map path_segment steps"
  have s: "list_all bip32_segment ?ss" "list_all (\<lambda>w. CHR ''/'' \<notin> set w) ?ss" "?ss \<noteq> []" "hd ?ss \<noteq> ''m''"
    using assms(1) path_segment_facts by (simp_all add: list_all_iff hd_map)
  have split: "js_split (CHR ''/'') (js_join (CHR ''/'') ?ss) = ?ss"
    "js_split (CHR ''/'') (js_join (CHR ''/'') (''m'' # ?ss)) = ''m'' # ?ss"
    using s by (intro js_split_join; simp)+
  have "foldE (derive_segment lib) node ?ss = foldE (derive_step lib) node steps"
    using assms(2) by (intro foldE_cong) (auto simp: derive_step_def list_all_iff derive_path_segment)
  then show ?thesis
    using s split by (simp add: derivePath_def BIP32Path_def Let_def)
qed

definition sample_node :: "int hdnode" where
  "sample_node = \<lparr>hd_keyPair = private_pair 1 network_bitcoin, hd_chainCode = replicate 32 9, hd_depth = 0, hd_index = 0,
     hd_parentFingerprint = 0\<rparr>"

theorem hd_derivePath_witness:
  "derivePath lib7 sample_node ''m/44/7'' = bindE (hd_derive lib7 sample_node 44) (\<lambda>n. bindE (hd_derive lib7 n 7) Inr)"
proof -
  have "js_join (CHR ''/'') (''m'' # map path_segment [(44, False), (7, False)]) = ''m/44/7''"
    by code_simp
  with hd_derivePath [of "[(44, False), (7, False)]" lib7 sample_node] show ?thesis
    by (simp add: derive_step_def sample_node_def)
qed

text \<open>C9. Public derivation agrees with private derivation: from the neutered form of a private node, whose key is
  not negative,
  \<open>derive\<close> returns exactly the neutered forms of the children with a number below \<open>2^31\<close> that the private
  node derives for the same index. Both skip the same invalid child numbers; hardened children are reached
  from the private node only.\<close>

theorem hd_public_derivation:
  assumes "key_lib lib" "hd_keyPair node = private_pair d net" "0 \<le> d" "neutered lib node = Inr public"
  shows "hd_derive lib public i = Inr child' \<longleftrightarrow>
    (\<exists>child. hd_derive lib node i = Inr child \<and> hd_index child < HIGHEST_BIT \<and> neutered lib child = Inr child')"
proof -
  have net: "types_Network net"
    using assms(2,4) new_pair_simps(3) [of net lib] by (cases "types_Network net") (simp_all add: neutered_def)
  have "node = \<lparr>hd_keyPair = private_pair d net, hd_chainCode = hd_chainCode node, hd_depth = hd_depth node,
      hd_index = hd_index node, hd_parentFingerprint = hd_parentFingerprint node\<rparr>"
    using assms(2) by (cases node) simp
  moreover from this have "public = \<lparr>hd_keyPair = public_pair (c_multiply (lib_curve lib) (c_G (lib_curve lib)) d) net,
      hd_chainCode = hd_chainCode node, hd_depth = hd_depth node, hd_index = hd_index node,
      hd_parentFingerprint = hd_parentFingerprint node\<rparr>"
    using assms(4) by (metis neutered_private [OF net] Inr_inject)
  ultimately show ?thesis using key_lib.derive_public [OF assms(1,3) net] by metis
qed

theorem hd_public_derivation_witness:
  "\<exists>public child child'. neutered lib7 sample_node = Inr public \<and> hd_derive lib7 sample_node 5 = Inr child \<and>
     neutered lib7 child = Inr child' \<and> hd_derive lib7 public 5 = Inr child'"
proof -
  have I: "hmac_sha512 (const_hmacs 3) k m = be_bytes 32 3 @ replicate 32 9" for k m by (simp add: const_hmacs_def)
  have "bi_fromBuffer unary_bigi (be_bytes 32 3) = 3" by (simp add: unary_bigi_def be_nat_be_bytes)
  moreover have "\<exists>x. hd_derive_data lib7 sample_node 5 = Inr x"
    by (simp add: hd_derive_data_def sample_node_def getPublicKeyBuffer_def copy_fits ring7_def writeUInt32BE_def)
  moreover have "hd_child_key lib7 sample_node 3 = Inr (Some (private_pair 4 network_bitcoin))"
    by (simp add: hd_child_key_def sample_node_def new_pair_simps bitcoin_ok ring7_simps)
  moreover have "\<exists>f. getFingerprint lib7 sample_node = Inr f \<and> length f = 4"
    by (simp add: getFingerprint_def getIdentifier_def sample_node_def getPublicKeyBuffer_def slice_def)
  moreover have "hd_depth sample_node = 0" by (simp add: sample_node_def)
  ultimately obtain pf where child: "hd_derive lib7 sample_node 5 =
      Inr \<lparr>hd_keyPair = private_pair 4 network_bitcoin, hd_chainCode = replicate 32 9, hd_depth = 1, hd_index = 5, hd_parentFingerprint = pf\<rparr>"
    by (auto simp: hd_derive.simps [of lib7 sample_node 5] types_UInt32_def I slice_def ring7_simps new_HDNode_def Let_def
        readUInt32BE_def)
  obtain public where p: "neutered lib7 sample_node = Inr public"
    unfolding sample_node_def neutered_private [OF bitcoin_ok] by blast
  have "hd_keyPair sample_node = private_pair 1 network_bitcoin" by (simp add: sample_node_def)
  from hd_public_derivation [OF lib7.key_lib_axioms this _ p, of 5] child p show ?thesis
    by (auto simp: neutered_private bitcoin_ok)
qed

text \<open>C14. An extended key survives its base58 form: \<open>fromBase58\<close> of \<open>toBase58\<close> returns the node, private
  or neutered, for every node whose depth fits in a byte, whose number and parent fingerprint fit in 32 bits and
  are 0 at depth 0 (where \<open>fromBase58\<close> insists on it) and whose chain code has 32 bytes; the network, which the
  caller passes, passes the check of \<open>new ECPair\<close> and has different public and private version numbers.\<close>

theorem hd_base58_roundtrip:
  assumes "key_lib lib" "hd_fields_ok node"
    "\<exists>d. 0 < d \<and> d < c_n (lib_curve lib) \<and>
       (hd_keyPair node = private_pair d net \<or> hd_keyPair node = public_pair (c_multiply (lib_curve lib) (c_G (lib_curve lib)) d) net)"
    "types_Network net" "net_bip32_public net \<noteq> net_bip32_private net"
  shows "bindE (hd_toBase58 lib node None) (\<lambda>s. hd_fromBase58 lib s (One (Some net))) = Inr node"
proof -
  from assms(3) obtain d where d: "0 < d" "d < c_n (lib_curve lib)"
    "hd_keyPair node = private_pair d net \<or> hd_keyPair node = public_pair (c_multiply (lib_curve lib) (c_G (lib_curve lib)) d) net"
    by blast
  then have "d mod c_n (lib_curve lib) \<noteq> 0" by simp
  then show ?thesis
    using d(3) key_lib.base58_private [OF assms(1,2) _ d(1,2) assms(4)]
      key_lib.base58_public [OF assms(1,2) _ less_imp_le [OF d(1)] _ assms(4,5)] by blast
qed

theorem hd_base58_roundtrip_witness:
  "bindE (hd_toBase58 lib7 sample_node None) (\<lambda>s. hd_fromBase58 lib7 s (One (Some network_bitcoin))) = Inr sample_node"
proof (rule hd_base58_roundtrip [OF lib7.key_lib_axioms])
  show "\<exists>d. 0 < d \<and> d < c_n (lib_curve lib7) \<and> (hd_keyPair sample_node = private_pair d network_bitcoin \<or>
      hd_keyPair sample_node = public_pair (c_multiply (lib_curve lib7) (c_G (lib_curve lib7)) d) network_bitcoin)"
    by (intro exI [of _ 1]) (simp add: sample_node_def ring7_simps)
qed (simp_all add: hd_fields_ok_def sample_node_def types_UInt32_def types_Network_def network_bitcoin_def)

end
