(* ===== verification/Sighash.thy ===== *)
theory Sighash
  imports Transaction
begin

text \<open>
  The signature hashes of \<open>ecashjs-lib/src/transaction.js\<close>: \<open>hashForSignature\<close> (the original
  scheme), \<open>hashForWitnessV0\<close> (BIP143) and \<open>hashForCashSignature\<close>, which chooses between them.
  Each allocation of uninitialised memory has its own contents \<open>junk k\<close>. The lemmas give the bytes
  that are hashed, what part of the transaction they depend on, and what they commit to.
\<close>

subsection \<open>The original scheme\<close>

definition mapi :: "(nat \<Rightarrow> 'a \<Rightarrow> 'b) \<Rightarrow> 'a list \<Rightarrow> 'b list" where
  "mapi f xs = map2 f [0..<length xs] xs"

definition sighash_script :: "(nat \<Rightarrow> byte) \<Rightarrow> buffer \<Rightarrow> buffer result" where
  "sighash_script junk prevOutScript =
     bindE (decompile (Raw prevOutScript)) (\<lambda>chunks.
       compile junk (Chunks (filter (\<lambda>x. x \<noteq> Op OP_CODESEPARATOR) chunks)))"

definition zero_sequences :: "nat \<Rightarrow> transaction \<Rightarrow> transaction" where
  "zero_sequences inIndex txTmp =
     txTmp\<lparr>tx_ins := mapi (\<lambda>i input. if i = inIndex then input else input\<lparr>in_sequence := 0\<rparr>) (tx_ins txTmp)\<rparr>"

definition sighash_outputs :: "nat \<Rightarrow> int \<Rightarrow> transaction \<Rightarrow> transaction" where
  "sighash_outputs inIndex hashType txTmp =
     (if js_and hashType 0x1f = SIGHASH_NONE then zero_sequences inIndex (txTmp\<lparr>tx_outs := []\<rparr>)
      else if js_and hashType 0x1f = SIGHASH_SINGLE then
        zero_sequences inIndex
          (txTmp\<lparr>tx_outs := mapi (\<lambda>i out. if i < inIndex then BLANK_OUTPUT else out) (take (inIndex + 1) (tx_outs txTmp))\<rparr>)
      else txTmp)"

definition sighash_inputs :: "nat \<Rightarrow> int \<Rightarrow> buffer \<Rightarrow> transaction \<Rightarrow> transaction" where
  "sighash_inputs inIndex hashType ourScript txTmp =
     (if js_and hashType SIGHASH_ANYONECANPAY \<noteq> 0
      then txTmp\<lparr>tx_ins := [(tx_ins txTmp ! inIndex)\<lparr>in_script := ourScript\<rparr>]\<rparr>
      else txTmp\<lparr>tx_ins := mapi (\<lambda>i input. input\<lparr>in_script := if i = inIndex then ourScript else []\<rparr>) (tx_ins txTmp)\<rparr>)"

definition hashForSignature ::
    "hashes \<Rightarrow> varuint \<Rightarrow> (nat \<Rightarrow> nat \<Rightarrow> byte) \<Rightarrow> transaction \<Rightarrow> nat \<Rightarrow> buffer \<Rightarrow> int \<Rightarrow> buffer result" where
  "hashForSignature h v junk tx inIndex prevOutScript hashType =
     bindE (assertE (types_UInt32 (int inIndex)) typeforce_error) (\<lambda>_.
     if inIndex \<ge> length (tx_ins tx) then Inr ONE else
     bindE (sighash_script (junk 0) prevOutScript) (\<lambda>ourScript.
     if js_and hashType 0x1f = SIGHASH_SINGLE \<and> inIndex \<ge> length (tx_outs tx) then Inr ONE else
     let txTmp = sighash_inputs inIndex hashType ourScript (sighash_outputs inIndex hashType (clone tx));
         buffer = allocUnsafe (junk 1) (tx_byteLength v False txTmp + 4) in
     bindE (writeInt32LE buffer hashType (length buffer - 4)) (\<lambda>buffer.
     bindE (tx_toBuffer v (junk 2) txTmp (Some buffer) (Some 0) False) (\<lambda>(buffer, _).
     Inr (hash256 h buffer)))))"

subsection \<open>BIP143\<close>

definition hash_written :: "hashes \<Rightarrow> (nat \<Rightarrow> byte) \<Rightarrow> nat \<Rightarrow> writer \<Rightarrow> buffer result" where
  "hash_written h junk n w =
     bindE (w (allocUnsafe junk n, 0)) (\<lambda>(_, tbuffer, _). Inr (hash256 h tbuffer))"

definition write_outpoint :: "txin \<Rightarrow> writer" where
  "write_outpoint txIn = seqS (writeSlice (in_hash txIn)) (w_UInt32 (in_index txIn))"

definition write_amount_script :: "varuint \<Rightarrow> txout \<Rightarrow> writer" where
  "write_amount_script v out = seqS (w_UInt64 (out_value out)) (writeVarSlice v (out_script out))"

definition bip143_hashPrevouts :: "hashes \<Rightarrow> (nat \<Rightarrow> byte) \<Rightarrow> transaction \<Rightarrow> int \<Rightarrow> buffer result" where
  "bip143_hashPrevouts h junk tx hashType =
     (if js_and hashType SIGHASH_ANYONECANPAY = 0
      then hash_written h junk (36 * length (tx_ins tx)) (forS write_outpoint (tx_ins tx))
      else Inr ZERO)"

definition bip143_hashSequence :: "hashes \<Rightarrow> (nat \<Rightarrow> byte) \<Rightarrow> transaction \<Rightarrow> int \<Rightarrow> buffer result" where
  "bip143_hashSequence h junk tx hashType =
     (if js_and hashType SIGHASH_ANYONECANPAY = 0 \<and>
         js_and hashType 0x1f \<noteq> SIGHASH_SINGLE \<and> js_and hashType 0x1f \<noteq> SIGHASH_NONE
      then hash_written h junk (4 * length (tx_ins tx)) (forS (\<lambda>txIn. w_UInt32 (in_sequence txIn)) (tx_ins tx))
      else Inr ZERO)"

definition bip143_hashOutputs ::
    "hashes \<Rightarrow> varuint \<Rightarrow> (nat \<Rightarrow> byte) \<Rightarrow> transaction \<Rightarrow> nat \<Rightarrow> int \<Rightarrow> buffer result" where
  "bip143_hashOutputs h v junk tx inIndex hashType =
     (if js_and hashType 0x1f \<noteq> SIGHASH_SINGLE \<and> js_and hashType 0x1f \<noteq> SIGHASH_NONE
      then hash_written h junk (foldl (\<lambda>sum output. sum + 8 + varSliceSize v (out_script output)) 0 (tx_outs tx))
        (forS (write_amount_script v) (tx_outs tx))
      else if js_and hashType 0x1f = SIGHASH_SINGLE \<and> inIndex < length (tx_outs tx)
      then hash_written h junk (8 + varSliceSize v (out_script (tx_outs tx ! inIndex)))
        (write_amount_script v (tx_outs tx ! inIndex))
      else Inr ZERO)"

text \<open>Reading a property of the missing input throws, after the version and the first two digests have
  been written.\<close>

definition write_bip143 ::
    "varuint \<Rightarrow> transaction \<Rightarrow> nat \<Rightarrow> buffer \<Rightarrow> int \<Rightarrow> int \<Rightarrow> buffer \<Rightarrow> buffer \<Rightarrow> buffer \<Rightarrow> writer" where
  "write_bip143 v tx inIndex prevOutScript amount hashType hashPrevouts hashSequence hashOutputs =
     seqS (w_UInt32 (tx_version tx))
    (seqS (writeSlice hashPrevouts)
    (seqS (writeSlice hashSequence)
    (if inIndex \<ge> length (tx_ins tx) then throwS (TypeError ''undefined'') else
     let input = tx_ins tx ! inIndex in
     seqS (writeSlice (in_hash input))
    (seqS (w_UInt32 (in_index input))
    (seqS (writeVarSlice v prevOutScript)
    (seqS (w_UInt64 (Some amount))
    (seqS (w_UInt32 (in_sequence input))
    (seqS (writeSlice hashOutputs)
    (seqS (w_UInt32 (tx_locktime tx))
          (w_UInt32 hashType))))))))))"

definition hashForWitnessV0 ::
    "hashes \<Rightarrow> varuint \<Rightarrow> (nat \<Rightarrow> nat \<Rightarrow> byte) \<Rightarrow> transaction \<Rightarrow> nat \<Rightarrow> buffer \<Rightarrow> int \<Rightarrow> int \<Rightarrow> buffer result" where
  "hashForWitnessV0 h v junk tx inIndex prevOutScript amount hashType =
     bindE (assertE (types_UInt32 (int inIndex) \<and> types_Satoshi amount \<and> types_UInt32 hashType) typeforce_error) (\<lambda>_.
     bindE (bip143_hashPrevouts h (junk 0) tx hashType) (\<lambda>hashPrevouts.
     bindE (bip143_hashSequence h (junk 1) tx hashType) (\<lambda>hashSequence.
     bindE (bip143_hashOutputs h v (junk 2) tx inIndex hashType) (\<lambda>hashOutputs.
     hash_written h (junk 3) (156 + varSliceSize v prevOutScript)
       (write_bip143 v tx inIndex prevOutScript amount hashType hashPrevouts hashSequence hashOutputs)))))"

subsection \<open>The choice\<close>

text \<open>The type check names its tuple in another order than the arguments: it requires the amount to be a
  number and allows the hash type to be missing. \<open>None\<close> is \<open>null\<close> or \<open>undefined\<close>, whose bits are
  all zero.\<close>

definition hashForCashSignature ::
    "hashes \<Rightarrow> varuint \<Rightarrow> (nat \<Rightarrow> nat \<Rightarrow> byte) \<Rightarrow> transaction \<Rightarrow> nat \<Rightarrow> buffer \<Rightarrow> int option \<Rightarrow> int option \<Rightarrow> buffer result" where
  "hashForCashSignature h v junk tx inIndex prevOutScript inAmount hashType =
     bindE (assertE (types_UInt32 (int inIndex) \<and> inAmount \<noteq> None \<and> pred_option types_UInt53 hashType) typeforce_error) (\<lambda>_.
     case hashType of
       None \<Rightarrow> Inl typeforce_error
     | Some hashType \<Rightarrow>
         if js_and hashType SIGHASH_BITCOINCASHBIP143 \<noteq> 0 then
           (case inAmount of
              None \<Rightarrow> Inl (Error ''Bitcoin Cash sighash requires value of input to be signed.'')
            | Some amount \<Rightarrow> hashForWitnessV0 h v junk tx inIndex prevOutScript amount hashType)
         else hashForSignature h v junk tx inIndex prevOutScript hashType)"

subsection \<open>The signed script\<close>

lemma pushdata_encodingLength_mono: "m \<le> n \<Longrightarrow> pushdata_encodingLength m \<le> pushdata_encodingLength n"
  by (simp add: pushdata_encodingLength_def)

lemma pushdata_decode_shortest:
  assumes "pushdata_decode b i = Inr (Some d)"
  shows "pushdata_encodingLength (pd_number d) \<le> pd_size d"
proof -
  have "le_nat (take 2 xs) < 256 ^ 2" for xs :: buffer
    using less_le_trans [OF le_nat_bound power_increasing, of "take 2 xs" 2] by simp
  then have "le_nat (take 2 xs) \<le> 65535" for xs :: buffer by (simp add: less_Suc_eq_le [symmetric])
  moreover have "unat x \<le> 255" "unat x \<le> 65535" for x :: byte using unat_byte_bound [of x] by linarith+
  ultimately show ?thesis
    using assms by (auto simp: pushdata_decode_def Let_def readUInt8_eq readUInt16LE_def readUInt32LE_def readUIntLE_def
        pushdata_encodingLength_def split: if_splits)
qed

lemma decompile_loop_size:
  "decompile_loop b i acc = Inr cs \<Longrightarrow>
     (\<Sum>c\<leftarrow>cs. compile_chunk_size c) \<le> (\<Sum>c\<leftarrow>acc. compile_chunk_size c) + (length b - i)"
proof (induction i arbitrary: acc rule: cursor_induct [of b])
  case (finish i)
  then show ?case by (simp add: decompile_loop_finish)
next
  case (cut i)
  then show ?case by (auto simp: decompile_loop_cut)
next
  case (push i d)
  let ?j = "i + pd_size d"
  let ?data = "slice b ?j (?j + pd_number d)"
  have size: "i + pd_size d \<le> length b" "0 < pd_size d"
    using pushdata_decode_size_number [OF push(4)] by auto
  have len: "length ?data \<le> pd_number d" "length ?data \<le> length b - ?j"
    by (simp_all add: slice_def)
  have "pushdata_encodingLength (length ?data) \<le> pd_size d"
    using pushdata_encodingLength_mono [OF len(1)] pushdata_decode_shortest [OF push(4)] by linarith
  then have "compile_chunk_size (minimal_chunk ?data) \<le> pd_size d + length ?data"
    using size(2) by (auto simp: minimal_chunk_def compile_chunk_size_def split: option.splits)
  moreover have "length ?data + (length b - (?j + pd_number d)) \<le> length b - ?j"
    by (simp add: slice_def)
  ultimately show ?case
    using push.IH [of "acc @ [minimal_chunk ?data]"] push.prems size
    by (simp add: decompile_loop_push [OF push(1-4)] add.assoc)
next
  case (opcode i)
  have "compile_chunk_size (Op n) = 1" for n by (simp add: compile_chunk_size_def)
  then show ?case
    using opcode.IH [of "acc @ [Op (int (unat (b ! i)))]"] opcode.prems opcode.hyps
    by (simp add: decompile_loop_opcode del: of_nat_unat)
qed

lemma sighash_script_ok:
  assumes "varslice_ok prevOutScript"
  shows "\<exists>s. sighash_script junk prevOutScript = Inr s \<and> varslice_ok s"
proof -
  obtain cs where cs: "decompile (Raw prevOutScript) = Inr cs" using decompile_total by blast
  let ?cs = "filter (\<lambda>x. x \<noteq> Op OP_CODESEPARATOR) cs"
  have "list_all chunk_ok ?cs"
    using decompile_normal [OF cs] by (auto simp: list_all_iff chunk_normal_def)
  then have s: "compile junk (Chunks ?cs) = Inr (concat (map chunk_bytes ?cs))" by (rule compile_bytes)
  have "(\<Sum>c\<leftarrow>?cs. compile_chunk_size c) \<le> (\<Sum>c\<leftarrow>cs. compile_chunk_size c)"
    by (induction cs) auto
  also have "\<dots> \<le> length prevOutScript"
    using decompile_loop_size [of prevOutScript 0 "[]" cs] cs by simp
  finally have "varslice_ok (concat (map chunk_bytes ?cs))"
    using assms by (simp add: varslice_ok_def length_concat_map [OF length_chunk_bytes])
  then show ?thesis using cs s by (simp add: sighash_script_def del: compile.simps decompile.simps)
qed

text \<open>The result does not depend on the uninitialised buffer of the compilation.\<close>

lemma sighash_script_junk: "sighash_script junk s = sighash_script junk' s"
proof -
  obtain cs where cs: "decompile (Raw s) = Inr cs" using decompile_total by blast
  have "list_all chunk_ok (filter (\<lambda>x. x \<noteq> Op OP_CODESEPARATOR) cs)"
    using decompile_normal [OF cs] by (auto simp: list_all_iff chunk_normal_def)
  then show ?thesis
    using cs compile_bytes by (simp add: sighash_script_def del: compile.simps decompile.simps)
qed

subsection \<open>The bytes that are hashed\<close>

lemma length_mapi [simp]: "length (mapi f xs) = length xs"
  by (simp add: mapi_def)

lemma nth_mapi [simp]: "i < length xs \<Longrightarrow> mapi f xs ! i = f i (xs ! i)"
  by (simp add: mapi_def)

lemma list_all_mapi: "list_all P xs \<Longrightarrow> (\<And>i x. P x \<Longrightarrow> Q (f i x)) \<Longrightarrow> list_all Q (mapi f xs)"
  by (simp add: list_all_length)

definition sighash_tx :: "transaction \<Rightarrow> nat \<Rightarrow> buffer \<Rightarrow> int \<Rightarrow> transaction" where
  "sighash_tx tx inIndex ourScript hashType =
     sighash_inputs inIndex hashType ourScript (sighash_outputs inIndex hashType (clone tx))"

lemma clone_plain: "list_all txout_plain (tx_outs tx) \<Longrightarrow> clone tx = tx"
  by (cases tx) (auto simp: clone_def list_all_iff txout_plain_def intro!: map_idI)

lemma BLANK_OUTPUT_ok: "txout_ok BLANK_OUTPUT"
  by (simp add: BLANK_OUTPUT_def txout_ok_def varslice_ok_def VALUE_UINT64_MAX_def)

lemma tx_ok_zero_sequences: "tx_ok tx \<Longrightarrow> tx_ok (zero_sequences i tx)"
  by (auto simp: zero_sequences_def tx_ok_def txin_ok_def types_UInt32_def intro!: list_all_mapi)

lemma tx_ok_sighash_outputs: "tx_ok tx \<Longrightarrow> tx_ok (sighash_outputs i hashType tx)"
proof -
  assume ok: "tx_ok tx"
  then have "tx_ok (tx\<lparr>tx_outs := []\<rparr>)" by (simp add: tx_ok_def)
  moreover have "tx_ok (tx\<lparr>tx_outs := mapi (\<lambda>k out. if k < i then BLANK_OUTPUT else out) (take (i + 1) (tx_outs tx))\<rparr>)"
    using ok by (auto simp: tx_ok_def BLANK_OUTPUT_ok list_all_length)
  ultimately show ?thesis
    using ok tx_ok_zero_sequences by (simp add: sighash_outputs_def)
qed

lemma length_sighash_ins: "length (tx_ins (sighash_outputs i hashType tx)) = length (tx_ins tx)"
  by (simp add: sighash_outputs_def zero_sequences_def)

lemma tx_ok_sighash:
  assumes "tx_ok tx" "list_all txout_plain (tx_outs tx)" "varslice_ok s" "i < length (tx_ins tx)"
  shows "tx_ok (sighash_tx tx i s hashType)"
proof -
  let ?t = "sighash_outputs i hashType tx"
  have t: "tx_ok ?t" "i < length (tx_ins ?t)"
    using assms(1,4) tx_ok_sighash_outputs by (auto simp: length_sighash_ins)
  then have "tx_ok (sighash_inputs i hashType s ?t)"
    using assms(3) by (auto simp: sighash_inputs_def tx_ok_def txin_ok_def list_all_length varslice_ok_def)
  then show ?thesis using assms(2) by (simp add: sighash_tx_def clone_plain)
qed

context varuint_codec
begin

lemma hashForSignature_bytes:
  assumes ok: "tx_ok tx" "list_all txout_plain (tx_outs tx)" and s: "sighash_script junk0 prevOutScript = Inr s" "varslice_ok s"
    and i: "inIndex < length (tx_ins tx)" "inIndex < 2 ^ 32"
    and single: "js_and hashType 0x1f = SIGHASH_SINGLE \<longrightarrow> inIndex < length (tx_outs tx)"
    and ht: "- (2 ^ 31) \<le> hashType" "hashType < 2 ^ 31"
  shows "hashForSignature h v junk tx inIndex prevOutScript hashType =
    Inr (hash256 h (tx_bytes False (sighash_tx tx inIndex s hashType) @ le_bytes 4 (nat (hashType mod 2 ^ 32))))"
proof -
  let ?t = "sighash_tx tx inIndex s hashType"
  let ?n = "tx_byteLength v False ?t"
  let ?ht = "le_bytes 4 (nat (hashType mod 2 ^ 32))"
  have t: "tx_ok ?t" using ok s(2) i(1) by (rule tx_ok_sighash)
  then have n: "?n = length (tx_bytes False ?t)" by (rule tx_byteLength_bytes)
  let ?b = "put (allocUnsafe (junk 1) (?n + 4)) ?n ?ht"
  have w: "writeInt32LE (allocUnsafe (junk 1) (?n + 4)) hashType ?n = Inr ?b"
    using ht by (intro writeInt32LE_fits) simp_all
  have b: "put ?b 0 (tx_bytes False ?t) = tx_bytes False ?t @ ?ht"
    by (simp add: put_def n)
  have "tx_toBuffer v (junk 2) ?t (Some ?b) (Some 0) False = Inr (put ?b 0 (tx_bytes False ?t), tx_bytes False ?t)"
    using n by (intro tx_toBuffer_at t) (simp add: put_def)
  moreover have "length (allocUnsafe (junk 1) (?n + 4)) - 4 = ?n" by simp
  moreover have "assertE (types_UInt32 (int inIndex)) typeforce_error = Inr ()"
    using i(2) by (simp add: assertE_def types_UInt32_def)
  moreover have "\<not> length (tx_ins tx) \<le> inIndex" "\<not> (js_and hashType 0x1f = SIGHASH_SINGLE \<and> length (tx_outs tx) \<le> inIndex)"
    using i(1) single by auto
  ultimately show ?thesis
    using w b s(1) sighash_script_junk [of "junk 0" prevOutScript junk0]
    by (simp only: hashForSignature_def sighash_tx_def [symmetric] Let_def bindE.simps if_False prod.case)
qed

end

text \<open>The three inner messages of BIP143; a missing one is replaced by zeros.\<close>

definition commits_all :: "int \<Rightarrow> bool" where
  "commits_all hashType \<longleftrightarrow> js_and hashType 0x1f \<noteq> SIGHASH_SINGLE \<and> js_and hashType 0x1f \<noteq> SIGHASH_NONE"

definition anyone_can_pay :: "int \<Rightarrow> bool" where
  "anyone_can_pay hashType \<longleftrightarrow> js_and hashType SIGHASH_ANYONECANPAY \<noteq> 0"

definition outpoint_bytes :: "txin \<Rightarrow> buffer" where
  "outpoint_bytes i = in_hash i @ le_bytes 4 (nat (in_index i))"

definition sequence_bytes :: "txin \<Rightarrow> buffer" where
  "sequence_bytes i = le_bytes 4 (nat (in_sequence i))"

definition msg_prevouts :: "transaction \<Rightarrow> int \<Rightarrow> buffer option" where
  "msg_prevouts tx ht = (if anyone_can_pay ht then None else Some (concat (map outpoint_bytes (tx_ins tx))))"

definition msg_sequence :: "transaction \<Rightarrow> int \<Rightarrow> buffer option" where
  "msg_sequence tx ht = (if \<not> anyone_can_pay ht \<and> commits_all ht then Some (concat (map sequence_bytes (tx_ins tx))) else None)"

definition msg_outputs :: "transaction \<Rightarrow> nat \<Rightarrow> int \<Rightarrow> buffer option" where
  "msg_outputs tx i ht =
     (if commits_all ht then Some (concat (map txout_bytes (tx_outs tx)))
      else if js_and ht 0x1f = SIGHASH_SINGLE \<and> i < length (tx_outs tx) then Some (txout_bytes (tx_outs tx ! i))
      else None)"

definition digest :: "hashes \<Rightarrow> buffer option \<Rightarrow> buffer" where
  "digest h m = (case m of None \<Rightarrow> ZERO | Some b \<Rightarrow> hash256 h b)"

definition bip143_preimage :: "hashes \<Rightarrow> transaction \<Rightarrow> nat \<Rightarrow> buffer \<Rightarrow> int \<Rightarrow> int \<Rightarrow> buffer" where
  "bip143_preimage h tx i s amount ht =
     le_bytes 4 (nat (tx_version tx)) @ digest h (msg_prevouts tx ht) @ digest h (msg_sequence tx ht) @
     outpoint_bytes (tx_ins tx ! i) @ varslice_bytes s @ le_bytes 8 (nat amount) @ sequence_bytes (tx_ins tx ! i) @
     digest h (msg_outputs tx i ht) @ le_bytes 4 (nat (tx_locktime tx)) @ le_bytes 4 (nat ht)"

locale signing = varuint_codec v + digest_lengths h for v :: varuint and h :: hashes
begin

lemma length_digest [simp]: "length (digest h m) = 32"
  by (simp add: digest_def ZERO_def split: option.splits)

lemma hash_written_bytes: "writes w bs \<Longrightarrow> n = length bs \<Longrightarrow> hash_written h junk n w = Inr (hash256 h bs)"
  by (simp add: hash_written_def writes_run)

lemma writes_outpoint: "txin_ok i \<Longrightarrow> writes (write_outpoint i) (outpoint_bytes i)"
  unfolding write_outpoint_def outpoint_bytes_def txin_ok_def types_UInt32_def
  by (intro writes_seq writes_slice writes_UInt32) auto

lemma writes_sequence: "txin_ok i \<Longrightarrow> writes (w_UInt32 (in_sequence i)) (sequence_bytes i)"
  unfolding sequence_bytes_def txin_ok_def types_UInt32_def by (intro writes_UInt32) auto

lemma writes_amount_script: "txout_plain o1 \<Longrightarrow> writes (write_amount_script v o1) (txout_bytes o1)"
proof -
  assume o1: "txout_plain o1"
  then have "write_amount_script v o1 = write_txout v o1"
    by (simp add: write_amount_script_def write_txout_def txout_plain_def)
  then show ?thesis using o1 by (simp add: writes_txout txout_plain_def)
qed

lemma hashPrevouts_bytes:
  "list_all txin_ok (tx_ins tx) \<Longrightarrow> bip143_hashPrevouts h junk tx ht = Inr (digest h (msg_prevouts tx ht))"
proof -
  assume ok: "list_all txin_ok (tx_ins tx)"
  then have "writes (forS write_outpoint (tx_ins tx)) (concat (map outpoint_bytes (tx_ins tx)))"
    by (intro writes_for writes_outpoint) (simp add: list_all_iff)
  moreover have "36 * length (tx_ins tx) = length (concat (map outpoint_bytes (tx_ins tx)))"
    using length_concat_ok [OF ok, of outpoint_bytes "\<lambda>_. 36"]
    by (simp add: outpoint_bytes_def txin_ok_def sum_list_triv)
  ultimately show ?thesis
    by (simp add: bip143_hashPrevouts_def msg_prevouts_def anyone_can_pay_def digest_def hash_written_bytes)
qed

lemma hashSequence_bytes:
  "list_all txin_ok (tx_ins tx) \<Longrightarrow> bip143_hashSequence h junk tx ht = Inr (digest h (msg_sequence tx ht))"
proof -
  assume ok: "list_all txin_ok (tx_ins tx)"
  then have "writes (forS (\<lambda>i. w_UInt32 (in_sequence i)) (tx_ins tx)) (concat (map sequence_bytes (tx_ins tx)))"
    by (intro writes_for writes_sequence) (simp add: list_all_iff)
  moreover have "4 * length (tx_ins tx) = length (concat (map sequence_bytes (tx_ins tx)))"
    using length_concat_ok [OF ok, of sequence_bytes "\<lambda>_. 4"] by (simp add: sequence_bytes_def sum_list_triv)
  ultimately show ?thesis
    by (simp add: bip143_hashSequence_def msg_sequence_def anyone_can_pay_def commits_all_def digest_def hash_written_bytes)
qed

lemma hashOutputs_bytes:
  assumes ok: "list_all txout_plain (tx_outs tx)"
  shows "bip143_hashOutputs h v junk tx i ht = Inr (digest h (msg_outputs tx i ht))"
proof -
  have "writes (forS (write_amount_script v) (tx_outs tx)) (concat (map txout_bytes (tx_outs tx)))"
    using ok by (intro writes_for writes_amount_script) (simp add: list_all_iff)
  moreover have "length (concat (map txout_bytes (tx_outs tx))) = (\<Sum>o1\<leftarrow>tx_outs tx. 8 + varSliceSize v (out_script o1))"
    using ok by (intro length_concat_ok [of txout_plain]) (auto simp: txout_plain_def length_txout)
  ultimately have all: "hash_written h junk (foldl (\<lambda>sum output. sum + 8 + varSliceSize v (out_script output)) 0 (tx_outs tx))
      (forS (write_amount_script v) (tx_outs tx)) = Inr (hash256 h (concat (map txout_bytes (tx_outs tx))))"
    by (intro hash_written_bytes) (simp_all only: add.assoc foldl_size add_0)
  have one: "hash_written h junk (8 + varSliceSize v (out_script (tx_outs tx ! i))) (write_amount_script v (tx_outs tx ! i)) =
      Inr (hash256 h (txout_bytes (tx_outs tx ! i)))" if "i < length (tx_outs tx)"
  proof -
    have "txout_plain (tx_outs tx ! i)" using ok that by (simp add: list_all_length)
    then show ?thesis
      by (intro hash_written_bytes writes_amount_script) (simp_all add: txout_plain_def length_txout)
  qed
  show ?thesis
    using all one by (simp add: bip143_hashOutputs_def msg_outputs_def commits_all_def digest_def)
qed

lemma hashForWitnessV0_bytes:
  assumes ok: "tx_ok tx" "list_all txout_plain (tx_outs tx)" "0 \<le> tx_version tx" and s: "varslice_ok s"
    and i: "i < length (tx_ins tx)" "i < 2 ^ 32" and a: "types_Satoshi amount" and ht: "types_UInt32 ht"
  shows "hashForWitnessV0 h v junk tx i s amount ht = Inr (hash256 h (bip143_preimage h tx i s amount ht))"
proof -
  have ins: "list_all txin_ok (tx_ins tx)" using ok(1) by (simp add: tx_ok_def)
  then have input: "txin_ok (tx_ins tx ! i)" using i(1) by (simp add: list_all_length)
  have bounds: "0 \<le> amount" "amount \<le> MAX_SAFE" "0 \<le> ht" "ht < 2 ^ 32" "0 \<le> tx_locktime tx" "tx_locktime tx < 2 ^ 32"
    "tx_version tx < 2 ^ 32" "0 \<le> in_index (tx_ins tx ! i)" "in_index (tx_ins tx ! i) < 2 ^ 32"
    using a ht ok(1) input by (auto simp: types_Satoshi_def types_UInt53_def types_UInt32_def tx_ok_def txin_ok_def)
  have "writes (write_bip143 v tx i s amount ht (digest h (msg_prevouts tx ht)) (digest h (msg_sequence tx ht))
      (digest h (msg_outputs tx i ht))) (bip143_preimage h tx i s amount ht)"
    unfolding write_bip143_def bip143_preimage_def Let_def outpoint_bytes_def append_assoc
    using i(1) by (simp only: not_le [symmetric] if_False)
      (intro writes_seq writes_UInt32 writes_slice vs.wr_enc writes_UInt64 writes_sequence ok(3) s input bounds)
  moreover have "156 + varSliceSize v s = length (bip143_preimage h tx i s amount ht)"
    using input s by (simp add: bip143_preimage_def outpoint_bytes_def sequence_bytes_def txin_ok_def length_varslice)
  ultimately have "hash_written h (junk 3) (156 + varSliceSize v s)
      (write_bip143 v tx i s amount ht (digest h (msg_prevouts tx ht)) (digest h (msg_sequence tx ht))
      (digest h (msg_outputs tx i ht))) = Inr (hash256 h (bip143_preimage h tx i s amount ht))"
    by (intro hash_written_bytes)
  then show ?thesis
    using a ht i(2)
    by (simp add: hashForWitnessV0_def hashPrevouts_bytes [OF ins] hashSequence_bytes [OF ins] hashOutputs_bytes [OF ok(2)]
        assertE_def types_UInt32_def)
qed

end

interpretation sg: signing compactSize_varuint padded_hashes
  by unfold_locales

subsection \<open>What a signature covers\<close>

text \<open>The part of a transaction that a hash type covers, for the input at index \<open>i\<close>: version and lock
  time; the outpoints of all inputs, or of this one only; this input's sequence number, and the others'
  where all outputs are signed; all outputs, none, or the one with the same index.\<close>

definition covered_ins :: "int \<Rightarrow> nat \<Rightarrow> transaction \<Rightarrow> (buffer \<times> int \<times> int) list" where
  "covered_ins ht i tx =
     (if anyone_can_pay ht then [(in_hash (tx_ins tx ! i), in_index (tx_ins tx ! i), in_sequence (tx_ins tx ! i))]
      else mapi (\<lambda>k input. (in_hash input, in_index input, if k = i \<or> commits_all ht then in_sequence input else 0)) (tx_ins tx))"

definition covered_outs :: "int \<Rightarrow> nat \<Rightarrow> transaction \<Rightarrow> txout list option" where
  "covered_outs ht i tx =
     (if commits_all ht then Some (tx_outs tx)
      else if js_and ht 0x1f = SIGHASH_SINGLE \<and> i < length (tx_outs tx) then Some [tx_outs tx ! i]
      else None)"

definition sighash_covers :: "int \<Rightarrow> nat \<Rightarrow> transaction \<Rightarrow> int \<times> int \<times> (buffer \<times> int \<times> int) list \<times> txout list option" where
  "sighash_covers ht i tx = (tx_version tx, tx_locktime tx, covered_ins ht i tx, covered_outs ht i tx)"

lemma forS_map: "forS f (map g xs) = forS (f \<circ> g) xs"
  by (induction xs) auto

lemma forS_via: "map p xs = map p ys \<Longrightarrow> (\<And>x. f x = g (p x)) \<Longrightarrow> forS f xs = forS f ys"
proof -
  assume p: "map p xs = map p ys" and f: "\<And>x. f x = g (p x)"
  have "forS f zs = forS g (map p zs)" for zs by (induction zs) (auto simp: f)
  then show ?thesis using p by simp
qed

lemma covered_ins_here:
  assumes "covered_ins ht i tx = covered_ins ht i tx'" "i < length (tx_ins tx)" "i < length (tx_ins tx')"
  shows "in_hash (tx_ins tx ! i) = in_hash (tx_ins tx' ! i) \<and> in_index (tx_ins tx ! i) = in_index (tx_ins tx' ! i) \<and>
    in_sequence (tx_ins tx ! i) = in_sequence (tx_ins tx' ! i)"
proof (cases "anyone_can_pay ht")
  case False
  then have "covered_ins ht i tx ! i = covered_ins ht i tx' ! i" using assms by simp
  then show ?thesis using False assms by (simp add: covered_ins_def)
qed (use assms in \<open>simp add: covered_ins_def\<close>)

lemma covered_ins_all:
  assumes "covered_ins ht i tx = covered_ins ht i tx'" "\<not> anyone_can_pay ht"
  shows "length (tx_ins tx) = length (tx_ins tx')"
    "map (\<lambda>x. (in_hash x, in_index x)) (tx_ins tx) = map (\<lambda>x. (in_hash x, in_index x)) (tx_ins tx')"
    "commits_all ht \<Longrightarrow> map in_sequence (tx_ins tx) = map in_sequence (tx_ins tx')"
proof -
  have eq: "length (covered_ins ht i tx) = length (covered_ins ht i tx')"
    "\<And>k. k < length (tx_ins tx) \<Longrightarrow> covered_ins ht i tx ! k = covered_ins ht i tx' ! k"
    using assms(1) by auto
  show len: "length (tx_ins tx) = length (tx_ins tx')"
    using eq(1) assms(2) by (simp add: covered_ins_def)
  show "map (\<lambda>x. (in_hash x, in_index x)) (tx_ins tx) = map (\<lambda>x. (in_hash x, in_index x)) (tx_ins tx')"
    "commits_all ht \<Longrightarrow> map in_sequence (tx_ins tx) = map in_sequence (tx_ins tx')"
    using eq(2) len assms(2) by (auto simp: covered_ins_def intro!: nth_equalityI)
qed

text \<open>The BIP143 hash is a function of what is covered.\<close>

lemma hashForWitnessV0_scope:
  assumes cov: "sighash_covers ht i tx = sighash_covers ht i tx'" and i: "i < length (tx_ins tx)" "i < length (tx_ins tx')"
  shows "hashForWitnessV0 h v junk tx i s amount ht = hashForWitnessV0 h v junk tx' i s amount ht"
proof -
  have ins: "covered_ins ht i tx = covered_ins ht i tx'" and outs: "covered_outs ht i tx = covered_outs ht i tx'"
    and eq: "tx_version tx = tx_version tx'" "tx_locktime tx = tx_locktime tx'"
    using cov by (auto simp: sighash_covers_def)
  have "bip143_hashPrevouts h (junk 0) tx ht = bip143_hashPrevouts h (junk 0) tx' ht"
  proof (cases "anyone_can_pay ht")
    case False
    have "forS write_outpoint (tx_ins tx) = forS write_outpoint (tx_ins tx')"
      by (rule forS_via [OF covered_ins_all(2) [OF ins False], where g = "\<lambda>(x, y). seqS (writeSlice x) (w_UInt32 y)"])
        (simp add: write_outpoint_def)
    then show ?thesis using covered_ins_all(1) [OF ins False] by (simp add: bip143_hashPrevouts_def)
  qed (simp add: bip143_hashPrevouts_def anyone_can_pay_def)
  moreover have "bip143_hashSequence h (junk 1) tx ht = bip143_hashSequence h (junk 1) tx' ht"
  proof (cases "\<not> anyone_can_pay ht \<and> commits_all ht")
    case True
    then have "forS (\<lambda>x. w_UInt32 (in_sequence x)) (tx_ins tx) = forS (\<lambda>x. w_UInt32 (in_sequence x)) (tx_ins tx')"
      using covered_ins_all(3) [OF ins] by (intro forS_via [where p = in_sequence and g = w_UInt32]) auto
    then show ?thesis using covered_ins_all(1) [OF ins] True by (simp add: bip143_hashSequence_def)
  qed (auto simp: bip143_hashSequence_def anyone_can_pay_def commits_all_def)
  moreover have "bip143_hashOutputs h v (junk 2) tx i ht = bip143_hashOutputs h v (junk 2) tx' i ht"
    using outs by (auto simp: bip143_hashOutputs_def covered_outs_def commits_all_def split: if_splits)
  ultimately show ?thesis
    using covered_ins_here [OF ins i] eq i by (simp add: hashForWitnessV0_def write_bip143_def Let_def)
qed

text \<open>So is the original one; the transaction that it serialises is determined up to witnesses, which
  are not serialised.\<close>

definition strip_tx :: "transaction \<Rightarrow> transaction" where
  "strip_tx tx = tx\<lparr>tx_ins := map strip_witness (tx_ins tx)\<rparr>"

lemma write_txin_strip: "write_txin v (strip_witness i) = write_txin v i"
  by (simp add: write_txin_def strip_witness_def)

lemma forS_txin_strip: "forS (write_txin v) (map strip_witness ins) = forS (write_txin v) ins"
  by (induction ins) (simp_all add: write_txin_strip)

lemma foldl_strip: "foldl (\<lambda>n i. n + 40 + varSliceSize v (in_script i)) a (map strip_witness ins) =
    foldl (\<lambda>n i. n + 40 + varSliceSize v (in_script i)) a ins"
  by (induction ins arbitrary: a) (simp_all add: strip_witness_def)

lemma tx_byteLength_strip: "tx_byteLength v False (strip_tx tx) = tx_byteLength v False tx"
  by (simp add: tx_byteLength_def strip_tx_def foldl_strip)

lemma write_transaction_strip: "write_transaction v False (strip_tx tx) = write_transaction v False tx"
  by (simp add: write_transaction_def strip_tx_def forS_txin_strip)

lemma tx_toBuffer_strip: "tx_toBuffer v junk (strip_tx tx) b off False = tx_toBuffer v junk tx b off False"
  by (cases b) (simp_all add: tx_toBuffer_def write_transaction_strip tx_byteLength_strip)

lemma sighash_outputs_ins:
  "k < length (tx_ins tx) \<Longrightarrow> tx_ins (sighash_outputs i ht tx) ! k =
     (tx_ins tx ! k)\<lparr>in_sequence := if k = i \<or> commits_all ht then in_sequence (tx_ins tx ! k) else 0\<rparr>"
  by (simp add: sighash_outputs_def zero_sequences_def commits_all_def)

lemma clone_ins [simp]: "tx_ins (clone tx) = tx_ins tx"
  by (auto simp: clone_def intro!: map_idI)

lemma sighash_single_outs:
  "i < length outs \<Longrightarrow> mapi (\<lambda>k out. if k < i then BLANK_OUTPUT else out) (take (i + 1) outs) = replicate i BLANK_OUTPUT @ [outs ! i]"
  by (intro nth_equalityI) (auto simp: nth_append less_Suc_eq)

lemma sighash_tx_ins:
  assumes "covered_ins ht i tx = covered_ins ht i tx'" "i < length (tx_ins tx)" "i < length (tx_ins tx')"
  shows "map strip_witness (tx_ins (sighash_tx tx i s ht)) = map strip_witness (tx_ins (sighash_tx tx' i s ht))"
proof (cases "anyone_can_pay ht")
  case True
  then show ?thesis
    using covered_ins_here [OF assms] assms(2,3)
    by (simp add: sighash_tx_def sighash_inputs_def anyone_can_pay_def sighash_outputs_ins strip_witness_def)
next
  case False
  then have not_acp: "js_and ht SIGHASH_ANYONECANPAY = 0" by (simp add: anyone_can_pay_def)
  have len: "length (tx_ins tx') = length (tx_ins tx)"
    using covered_ins_all(1) [OF assms(1) False] by simp
  show ?thesis
  proof (rule nth_equalityI)
    show "length (map strip_witness (tx_ins (sighash_tx tx i s ht))) = length (map strip_witness (tx_ins (sighash_tx tx' i s ht)))"
      using len not_acp by (simp add: sighash_tx_def sighash_inputs_def length_sighash_ins)
    fix k
    assume "k < length (map strip_witness (tx_ins (sighash_tx tx i s ht)))"
    then have k: "k < length (tx_ins tx)" using not_acp by (simp add: sighash_tx_def sighash_inputs_def length_sighash_ins)
    have "covered_ins ht i tx ! k = covered_ins ht i tx' ! k" using assms(1) by simp
    then show "map strip_witness (tx_ins (sighash_tx tx i s ht)) ! k = map strip_witness (tx_ins (sighash_tx tx' i s ht)) ! k"
      using k len False not_acp
      by (auto simp: covered_ins_def sighash_tx_def sighash_inputs_def length_sighash_ins sighash_outputs_ins strip_witness_def
          intro!: txin.equality split: if_splits)
  qed
qed

lemma sighash_tx_outs:
  assumes "covered_outs ht i tx = covered_outs ht i tx'"
    "js_and ht 0x1f = SIGHASH_SINGLE \<Longrightarrow> i < length (tx_outs tx)" "js_and ht 0x1f = SIGHASH_SINGLE \<Longrightarrow> i < length (tx_outs tx')"
  shows "tx_outs (sighash_tx tx i s ht) = tx_outs (sighash_tx tx' i s ht)"
proof (cases "js_and ht 0x1f = SIGHASH_SINGLE")
  case True
  then have "mapi (\<lambda>k out. if k < i then BLANK_OUTPUT else out) (take (i + 1) (tx_outs (clone tx))) =
      mapi (\<lambda>k out. if k < i then BLANK_OUTPUT else out) (take (i + 1) (tx_outs (clone tx')))"
    using assms sighash_single_outs [of i "tx_outs (clone tx)"] sighash_single_outs [of i "tx_outs (clone tx')"]
    by (auto simp: covered_outs_def commits_all_def clone_def)
  then show ?thesis
    using True by (simp add: sighash_tx_def sighash_inputs_def sighash_outputs_def zero_sequences_def)
next
  case False
  then show ?thesis
    using assms(1) by (auto simp: sighash_tx_def sighash_inputs_def sighash_outputs_def zero_sequences_def covered_outs_def
        commits_all_def clone_def split: if_splits)
qed

lemma hashForSignature_scope:
  assumes cov: "sighash_covers ht i tx = sighash_covers ht i tx'" and i: "i < length (tx_ins tx)" "i < length (tx_ins tx')"
  shows "hashForSignature h v junk tx i s ht = hashForSignature h v junk tx' i s ht"
proof -
  have ins: "covered_ins ht i tx = covered_ins ht i tx'" and outs: "covered_outs ht i tx = covered_outs ht i tx'"
    and eq: "tx_version tx = tx_version tx'" "tx_locktime tx = tx_locktime tx'"
    using cov by (auto simp: sighash_covers_def)
  have single: "js_and ht 0x1f = SIGHASH_SINGLE \<Longrightarrow> i < length (tx_outs tx) \<longleftrightarrow> i < length (tx_outs tx')"
    using outs by (auto simp: covered_outs_def commits_all_def split: if_splits)
  have same: "strip_tx (sighash_tx tx i s' ht) = strip_tx (sighash_tx tx' i s' ht)"
    if "js_and ht 0x1f = SIGHASH_SINGLE \<Longrightarrow> i < length (tx_outs tx)" for s'
    using sighash_tx_ins [OF ins i, of s'] sighash_tx_outs [OF outs, of s'] that single eq
    by (auto simp: strip_tx_def sighash_tx_def sighash_inputs_def sighash_outputs_def zero_sequences_def clone_def)
  show ?thesis
  proof (cases "js_and ht 0x1f = SIGHASH_SINGLE \<and> length (tx_outs tx) \<le> i")
    case True
    then show ?thesis using single i by (simp add: hashForSignature_def not_le)
  next
    case False
    then have "strip_tx (sighash_tx tx i s' ht) = strip_tx (sighash_tx tx' i s' ht)" for s'
      using same by auto
    then have eqs: "tx_toBuffer v junk' (sighash_tx tx i s' ht) b off False = tx_toBuffer v junk' (sighash_tx tx' i s' ht) b off False"
      "tx_byteLength v False (sighash_tx tx i s' ht) = tx_byteLength v False (sighash_tx tx' i s' ht)" for s' b off junk'
      using tx_toBuffer_strip tx_byteLength_strip by metis+
    have "\<not> (js_and ht 0x1f = SIGHASH_SINGLE \<and> length (tx_outs tx') \<le> i)" using False single by auto
    then show ?thesis
      using False i by (simp only: hashForSignature_def sighash_tx_def [symmetric] Let_def eqs not_le [symmetric] if_False)
  qed
qed

subsection \<open>What a signature commits to\<close>

lemma le_bytes_inject: "le_bytes k m = le_bytes k n \<Longrightarrow> m < 256 ^ k \<Longrightarrow> n < 256 ^ k \<Longrightarrow> m = n"
  by (metis le_nat_le_bytes mod_less)

lemma le_bytes_nat_inject:
  "le_bytes k (nat x) = le_bytes k (nat y) \<Longrightarrow> 0 \<le> x \<Longrightarrow> 0 \<le> y \<Longrightarrow> x < 256 ^ k \<Longrightarrow> y < 256 ^ k \<Longrightarrow> x = y"
  using le_bytes_inject [of k "nat x" "nat y"] by (simp add: nat_less_iff)

text \<open>A concatenation of self-delimiting pieces determines the pieces.\<close>

lemma concat_inject:
  assumes "\<And>x y a b. ok x \<Longrightarrow> ok y \<Longrightarrow> f x @ a = f y @ b \<Longrightarrow> p x = p y \<and> a = b" "\<And>x. ok x \<Longrightarrow> f x \<noteq> []"
    and "list_all ok xs" "list_all ok ys" "concat (map f xs) = concat (map f ys)"
  shows "map p xs = map p ys"
  using assms(3-5)
proof (induction xs arbitrary: ys)
  case Nil
  then show ?case using assms(2) by (cases ys) auto
next
  case (Cons x xs)
  then obtain y ys' where ys: "ys = y # ys'" using assms(2) by (cases ys) auto
  then have "p x = p y \<and> concat (map f xs) = concat (map f ys')" using Cons.prems by (intro assms(1)) auto
  then show ?case using Cons ys by auto
qed

definition bip143_messages :: "hashes \<Rightarrow> transaction \<Rightarrow> nat \<Rightarrow> buffer \<Rightarrow> int \<Rightarrow> int \<Rightarrow> buffer set" where
  "bip143_messages h tx i s amount ht =
     insert (bip143_preimage h tx i s amount ht)
       (set_option (msg_prevouts tx ht) \<union> set_option (msg_sequence tx ht) \<union> set_option (msg_outputs tx i ht))"

text \<open>No two of the messages in \<open>M\<close> collide, and none hashes to zeros.\<close>

definition collision_free :: "hashes \<Rightarrow> buffer set \<Rightarrow> bool" where
  "collision_free h M \<longleftrightarrow> inj_on (hash256 h) M \<and> ZERO \<notin> hash256 h ` M"

lemma digest_inject:
  assumes "collision_free h M" "set_option m \<subseteq> M" "set_option m' \<subseteq> M" "digest h m = digest h m'"
  shows "m = m'"
  using assms by (cases m; cases m') (auto simp: digest_def collision_free_def image_iff dest: inj_onD)

lemma outpoint_inject:
  assumes "txin_ok x" "txin_ok y" "outpoint_bytes x @ a = outpoint_bytes y @ b"
  shows "(in_hash x, in_index x) = (in_hash y, in_index y) \<and> a = b"
  using assms le_bytes_nat_inject [of 4 "in_index x" "in_index y"]
  by (simp add: outpoint_bytes_def txin_ok_def types_UInt32_def)

lemma sequence_inject:
  assumes "txin_ok x" "txin_ok y" "sequence_bytes x @ a = sequence_bytes y @ b"
  shows "in_sequence x = in_sequence y \<and> a = b"
  using assms le_bytes_nat_inject [of 4 "in_sequence x" "in_sequence y"]
  by (simp add: sequence_bytes_def txin_ok_def types_UInt32_def)

context signing
begin

lemma varslice_inject:
  assumes "varslice_ok x" "varslice_ok y" "varslice_bytes x @ a = varslice_bytes y @ b"
  shows "x = y \<and> a = b"
proof -
  have "x = y"
    using readsD [OF vs.rd_enc [OF assms(1)], of "[]" a] readsD [OF vs.rd_enc [OF assms(2)], of "[]" b] assms(3) by simp
  then show ?thesis using assms(3) by simp
qed

lemma txout_inject:
  assumes "txout_plain x" "txout_plain y" "txout_bytes x @ a = txout_bytes y @ b"
  shows "x = y \<and> a = b"
proof -
  have "x = y"
    using readsD [OF tout.rd_enc [OF assms(1)], of "[]" a] readsD [OF tout.rd_enc [OF assms(2)], of "[]" b] assms(3) by simp
  then show ?thesis using assms(3) by simp
qed

lemma txout_list_inject:
  assumes "list_all txout_plain xs" "list_all txout_plain ys" "concat (map txout_bytes xs) = concat (map txout_bytes ys)"
  shows "xs = ys"
proof -
  have "txout_bytes x \<noteq> []" for x by (simp add: txout_bytes_def varslice_bytes_def)
  then have "map (\<lambda>x. x) xs = map (\<lambda>x. x) ys"
    by (intro concat_inject [OF txout_inject _ assms])
  then show ?thesis by simp
qed

text \<open>Equal preimages have equal fields.\<close>

lemma preimage_fields:
  assumes eq: "bip143_preimage h tx i s amount ht = bip143_preimage h tx' i' s' amount' ht'"
    and in1: "txin_ok (tx_ins tx ! i)" "txin_ok (tx_ins tx' ! i')" and s: "varslice_ok s" "varslice_ok s'"
    and v: "0 \<le> tx_version tx" "tx_version tx < 2 ^ 31" "0 \<le> tx_version tx'" "tx_version tx' < 2 ^ 31"
    and l: "types_UInt32 (tx_locktime tx)" "types_UInt32 (tx_locktime tx')"
    and a: "types_Satoshi amount" "types_Satoshi amount'" and ht: "types_UInt32 ht" "types_UInt32 ht'"
  shows "tx_version tx = tx_version tx' \<and> digest h (msg_prevouts tx ht) = digest h (msg_prevouts tx' ht') \<and>
    digest h (msg_sequence tx ht) = digest h (msg_sequence tx' ht') \<and>
    in_hash (tx_ins tx ! i) = in_hash (tx_ins tx' ! i') \<and> in_index (tx_ins tx ! i) = in_index (tx_ins tx' ! i') \<and>
    s = s' \<and> amount = amount' \<and> in_sequence (tx_ins tx ! i) = in_sequence (tx_ins tx' ! i') \<and>
    digest h (msg_outputs tx i ht) = digest h (msg_outputs tx' i' ht') \<and>
    tx_locktime tx = tx_locktime tx' \<and> ht = ht'"
proof -
  note eq1 = eq [unfolded bip143_preimage_def]
  from eq1 have f1: "le_bytes 4 (nat (tx_version tx)) = le_bytes 4 (nat (tx_version tx'))"
      "digest h (msg_prevouts tx ht) = digest h (msg_prevouts tx' ht')"
      "digest h (msg_sequence tx ht) = digest h (msg_sequence tx' ht')"
    and eq2: "outpoint_bytes (tx_ins tx ! i) @ varslice_bytes s @ le_bytes 8 (nat amount) @ sequence_bytes (tx_ins tx ! i) @
       digest h (msg_outputs tx i ht) @ le_bytes 4 (nat (tx_locktime tx)) @ le_bytes 4 (nat ht) =
     outpoint_bytes (tx_ins tx' ! i') @ varslice_bytes s' @ le_bytes 8 (nat amount') @ sequence_bytes (tx_ins tx' ! i') @
       digest h (msg_outputs tx' i' ht') @ le_bytes 4 (nat (tx_locktime tx')) @ le_bytes 4 (nat ht')"
    by simp_all
  from outpoint_inject [OF in1 eq2] have f2: "in_hash (tx_ins tx ! i) = in_hash (tx_ins tx' ! i')"
      "in_index (tx_ins tx ! i) = in_index (tx_ins tx' ! i')"
    and eq3: "varslice_bytes s @ le_bytes 8 (nat amount) @ sequence_bytes (tx_ins tx ! i) @
       digest h (msg_outputs tx i ht) @ le_bytes 4 (nat (tx_locktime tx)) @ le_bytes 4 (nat ht) =
     varslice_bytes s' @ le_bytes 8 (nat amount') @ sequence_bytes (tx_ins tx' ! i') @
       digest h (msg_outputs tx' i' ht') @ le_bytes 4 (nat (tx_locktime tx')) @ le_bytes 4 (nat ht')"
    by simp_all
  from varslice_inject [OF s eq3] have f3: "s = s'" "le_bytes 8 (nat amount) = le_bytes 8 (nat amount')"
      "sequence_bytes (tx_ins tx ! i) = sequence_bytes (tx_ins tx' ! i')"
      "digest h (msg_outputs tx i ht) = digest h (msg_outputs tx' i' ht')"
      "le_bytes 4 (nat (tx_locktime tx)) = le_bytes 4 (nat (tx_locktime tx'))" "le_bytes 4 (nat ht) = le_bytes 4 (nat ht')"
    by (simp_all add: sequence_bytes_def)
  have "tx_version tx = tx_version tx'" using f1(1) v by (intro le_bytes_nat_inject [of 4]) auto
  moreover have "amount = amount'"
    using f3(2) a by (intro le_bytes_nat_inject [of 8]) (auto simp: types_Satoshi_def types_UInt53_def)
  moreover have "tx_locktime tx = tx_locktime tx'" "ht = ht'"
    using f3(5,6) l ht by (auto simp: types_UInt32_def intro: le_bytes_nat_inject [of 4])
  moreover have "in_sequence (tx_ins tx ! i) = in_sequence (tx_ins tx' ! i')"
    using sequence_inject [OF in1, of "[]" "[]"] f3(3) by simp
  ultimately show ?thesis using f1 f2 f3 by simp
qed

text \<open>A call that passes the type checks, on a well-formed transaction.\<close>

lemma covered_from_messages:
  assumes ok: "list_all txin_ok (tx_ins tx)" "list_all txin_ok (tx_ins tx')" "list_all txout_plain (tx_outs tx)"
      "list_all txout_plain (tx_outs tx')"
    and here: "in_hash (tx_ins tx ! i) = in_hash (tx_ins tx' ! i)" "in_index (tx_ins tx ! i) = in_index (tx_ins tx' ! i)"
      "in_sequence (tx_ins tx ! i) = in_sequence (tx_ins tx' ! i)"
    and msgs: "msg_prevouts tx ht = msg_prevouts tx' ht" "msg_sequence tx ht = msg_sequence tx' ht"
      "msg_outputs tx i ht = msg_outputs tx' i ht"
  shows "covered_ins ht i tx = covered_ins ht i tx' \<and> covered_outs ht i tx = covered_outs ht i tx'"
proof
  show "covered_ins ht i tx = covered_ins ht i tx'"
  proof (cases "anyone_can_pay ht")
    case False
    have "outpoint_bytes x \<noteq> []" for x
      using length_le_bytes [of 4 "nat (in_index x)"] unfolding outpoint_bytes_def by (metis append_is_Nil_conv list.size(3) zero_neq_numeral)
    then have op: "map (\<lambda>x. (in_hash x, in_index x)) (tx_ins tx) = map (\<lambda>x. (in_hash x, in_index x)) (tx_ins tx')"
      using msgs(1) False by (intro concat_inject [OF outpoint_inject _ ok(1,2)]) (simp_all add: msg_prevouts_def)
    have "sequence_bytes x \<noteq> []" for x
      using length_le_bytes [of 4 "nat (in_sequence x)"] unfolding sequence_bytes_def by (metis list.size(3) zero_neq_numeral)
    then have sq: "commits_all ht \<Longrightarrow> map in_sequence (tx_ins tx) = map in_sequence (tx_ins tx')"
      using msgs(2) False by (intro concat_inject [OF sequence_inject _ ok(1,2)]) (simp_all add: msg_sequence_def)
    have len: "length (tx_ins tx) = length (tx_ins tx')" using op map_eq_imp_length_eq by blast
    have k: "in_hash (tx_ins tx ! k) = in_hash (tx_ins tx' ! k) \<and> in_index (tx_ins tx ! k) = in_index (tx_ins tx' ! k)"
      "commits_all ht \<Longrightarrow> in_sequence (tx_ins tx ! k) = in_sequence (tx_ins tx' ! k)" if "k < length (tx_ins tx)" for k
      using that len arg_cong [OF op, of "\<lambda>xs. xs ! k"] arg_cong [OF sq, of "\<lambda>xs. xs ! k"] by simp_all
    show ?thesis
      using False len k here(3) by (auto simp: covered_ins_def intro!: nth_equalityI)
  qed (use here in \<open>simp add: covered_ins_def\<close>)
  have "commits_all ht \<Longrightarrow> tx_outs tx = tx_outs tx'"
    using msgs(3) by (intro txout_list_inject ok) (simp add: msg_outputs_def)
  moreover have "tx_outs tx ! i = tx_outs tx' ! i" if "i < length (tx_outs tx)" "i < length (tx_outs tx')"
      "txout_bytes (tx_outs tx ! i) = txout_bytes (tx_outs tx' ! i)"
    using txout_inject [of "tx_outs tx ! i" "tx_outs tx' ! i" "[]" "[]"] ok(3,4) that by (simp add: list_all_length)
  ultimately show "covered_outs ht i tx = covered_outs ht i tx'"
    using msgs(3) by (auto simp: covered_outs_def msg_outputs_def split: if_splits)
qed

end

definition signable :: "transaction \<Rightarrow> nat \<Rightarrow> buffer \<Rightarrow> int \<Rightarrow> int \<Rightarrow> bool" where
  "signable tx i s amount ht \<longleftrightarrow> tx_ok tx \<and> list_all txout_plain (tx_outs tx) \<and> 0 \<le> tx_version tx \<and> varslice_ok s \<and>
     i < length (tx_ins tx) \<and> i < 2 ^ 32 \<and> types_Satoshi amount \<and> types_UInt32 ht"

lemma bip143_commits:
  assumes sg: "signing v h" and ok: "signable tx i s amount ht" "signable tx' i s' amount' ht'"
    and cf: "collision_free h (bip143_messages h tx i s amount ht \<union> bip143_messages h tx' i s' amount' ht')"
    and eq: "hash256 h (bip143_preimage h tx i s amount ht) = hash256 h (bip143_preimage h tx' i s' amount' ht')"
  shows "s = s' \<and> amount = amount' \<and> ht = ht' \<and> sighash_covers ht i tx = sighash_covers ht i tx'"
proof -
  have pre: "bip143_preimage h tx i s amount ht = bip143_preimage h tx' i s' amount' ht'"
    using cf eq unfolding collision_free_def by (elim conjE inj_onD) (simp_all add: bip143_messages_def)
  note ok' = ok [unfolded signable_def]
  have ins: "list_all txin_ok (tx_ins tx)" "list_all txin_ok (tx_ins tx')" using ok' by (auto simp: tx_ok_def)
  then have input: "txin_ok (tx_ins tx ! i)" "txin_ok (tx_ins tx' ! i)" using ok' by (simp_all add: list_all_length)
  have fields: "tx_version tx = tx_version tx'" "digest h (msg_prevouts tx ht) = digest h (msg_prevouts tx' ht')"
    "digest h (msg_sequence tx ht) = digest h (msg_sequence tx' ht')"
    "in_hash (tx_ins tx ! i) = in_hash (tx_ins tx' ! i)" "in_index (tx_ins tx ! i) = in_index (tx_ins tx' ! i)"
    "s = s'" "amount = amount'" "in_sequence (tx_ins tx ! i) = in_sequence (tx_ins tx' ! i)"
    "digest h (msg_outputs tx i ht) = digest h (msg_outputs tx' i ht')" "tx_locktime tx = tx_locktime tx'" "ht = ht'"
    using signing.preimage_fields [OF sg pre input] ok' unfolding tx_ok_def by blast+
  have msgs: "msg_prevouts tx ht = msg_prevouts tx' ht" "msg_sequence tx ht = msg_sequence tx' ht"
    "msg_outputs tx i ht = msg_outputs tx' i ht"
    using fields(2,3,9,11) by (auto intro!: digest_inject [OF cf] simp: bip143_messages_def)
  have "covered_ins ht i tx = covered_ins ht i tx' \<and> covered_outs ht i tx = covered_outs ht i tx'"
    using signing.covered_from_messages [OF sg ins _ _ fields(4,5,8) msgs] ok' by simp
  then show ?thesis using fields by (simp add: sighash_covers_def)
qed

subsection \<open>Properties\<close>

text \<open>C22. \<open>hashForWitnessV0\<close> hashes exactly the byte string of BIP143: every field is where the standard
  puts it, the digests that the hash type leaves out are zeros, and no byte of the four uninitialised
  buffers is hashed.\<close>

theorem bip143_hash_bytes:
  assumes "signing v h" "signable tx i s amount ht"
  shows "hashForWitnessV0 h v junk tx i s amount ht = Inr (hash256 h (bip143_preimage h tx i s amount ht))"
  using signing.hashForWitnessV0_bytes [OF assms(1)] assms(2) by (simp add: signable_def)

text \<open>The sample transaction with a version that BIP143 can carry.\<close>

definition sample_tx1 :: transaction where
  "sample_tx1 = sample_tx\<lparr>tx_version := 1\<rparr>"

lemma sample_signable: "signable sample_tx1 0 [0x51] 1000 0x41"
  using sample_tx_ok
  by (simp add: signable_def sample_tx1_def tx_ok_def varslice_ok_def types_Satoshi_def types_UInt53_def types_UInt32_def
      sample_tx_def)

theorem bip143_hash_bytes_witness:
  "hashForWitnessV0 padded_hashes compactSize_varuint (\<lambda>_ _. 0xee) sample_tx1 0 [0x51] 1000 0x41 =
     Inr (hash256 padded_hashes (bip143_preimage padded_hashes sample_tx1 0 [0x51] 1000 0x41))"
  by (rule bip143_hash_bytes [OF sg.signing_axioms sample_signable])

text \<open>\<open>hashForSignature\<close> hashes the serialisation, without witnesses, of the transaction with blanked
  scripts, outputs and sequence numbers, followed by the four bytes of the hash type, where the script
  of the signed input is the previous output's script without its code separators.\<close>

theorem sighash_bytes:
  assumes "varuint_codec v" "tx_ok tx" "list_all txout_plain (tx_outs tx)" "varslice_ok prevOutScript"
    "i < length (tx_ins tx)" "i < 2 ^ 32" "js_and ht 0x1f = SIGHASH_SINGLE \<longrightarrow> i < length (tx_outs tx)"
    "- (2 ^ 31) \<le> ht" "ht < 2 ^ 31"
  shows "\<exists>s. sighash_script junk0 prevOutScript = Inr s \<and>
    hashForSignature h v junk tx i prevOutScript ht =
      Inr (hash256 h (tx_bytes False (sighash_tx tx i s ht) @ le_bytes 4 (nat (ht mod 2 ^ 32))))"
proof -
  obtain s where "sighash_script junk0 prevOutScript = Inr s" "varslice_ok s"
    using sighash_script_ok [OF assms(4)] by blast
  then show ?thesis
    using varuint_codec.hashForSignature_bytes [OF assms(1-3) _ _ assms(5-9)] by blast
qed

theorem sighash_bytes_witness:
  "\<exists>s. hashForSignature padded_hashes compactSize_varuint (\<lambda>_ _. 0xee) sample_tx 0 [0x51, 0xab, 0x52] 1 =
     Inr (hash256 padded_hashes (tx_bytes False (sighash_tx sample_tx 0 s 1) @ [1, 0, 0, 0]))"
proof -
  have "js_and 1 0x1f \<noteq> SIGHASH_SINGLE" by code_simp
  then show ?thesis
    using sighash_bytes [OF cs.varuint_codec_axioms sample_tx_ok(1,2), of "[0x51, 0xab, 0x52]" 0 1 "\<lambda>_. 0" padded_hashes "\<lambda>_ _. 0xee"]
    by (auto simp: varslice_ok_def sample_tx_def le_bytes_numeral)
qed

text \<open>C6. What a signature covers: two transactions that agree on the part their hash type covers have the
  same signature hash, in both schemes. In particular scripts and witnesses of the inputs never
  matter, other inputs do not matter under \<open>SIGHASH_ANYONECANPAY\<close>, outputs do not matter under
  \<open>SIGHASH_NONE\<close>, and only the output of the same index matters under \<open>SIGHASH_SINGLE\<close>.\<close>

theorem sighash_scope:
  assumes "sighash_covers ht i tx = sighash_covers ht i tx'" "i < length (tx_ins tx)" "i < length (tx_ins tx')"
  shows "hashForCashSignature h v junk tx i s amount (Some ht) = hashForCashSignature h v junk tx' i s amount (Some ht)"
  using hashForWitnessV0_scope [OF assms] hashForSignature_scope [OF assms]
  by (simp add: hashForCashSignature_def split: option.splits)

theorem sighash_scope_witness:
  "hashForCashSignature padded_hashes compactSize_varuint (\<lambda>_ _. 0) sample_tx1 0 [0x51] (Some 1000) (Some 0xc2) =
   hashForCashSignature padded_hashes compactSize_varuint (\<lambda>_ _. 0)
     (sample_tx1\<lparr>tx_ins := [sample_in\<lparr>in_script := [], in_witness := []\<rparr>, sample_in], tx_outs := []\<rparr>) 0 [0x51] (Some 1000) (Some 0xc2)"
proof -
  have "anyone_can_pay 0xc2" "\<not> commits_all 0xc2" "js_and 0xc2 0x1f \<noteq> SIGHASH_SINGLE" by code_simp+
  then show ?thesis
    by (intro sighash_scope) (simp_all add: sighash_covers_def covered_ins_def covered_outs_def sample_tx1_def sample_tx_def)
qed

text \<open>C7. What a signature commits to: as long as none of the few messages that are hashed collide, equal
  BIP143 hashes mean equal hash types, amounts, scripts and covered parts of the transactions, and
  conversely. So a signature cannot be moved to a transaction that differs in what it covers.\<close>

theorem bip143_commitment:
  assumes "signing v h" "signable tx i s amount ht" "signable tx' i s' amount' ht'"
    "collision_free h (bip143_messages h tx i s amount ht \<union> bip143_messages h tx' i s' amount' ht')"
  shows "hashForWitnessV0 h v junk tx i s amount ht = hashForWitnessV0 h v junk tx' i s' amount' ht' \<longleftrightarrow>
    s = s' \<and> amount = amount' \<and> ht = ht' \<and> sighash_covers ht i tx = sighash_covers ht i tx'"
proof
  assume "hashForWitnessV0 h v junk tx i s amount ht = hashForWitnessV0 h v junk tx' i s' amount' ht'"
  then have "hash256 h (bip143_preimage h tx i s amount ht) = hash256 h (bip143_preimage h tx' i s' amount' ht')"
    using signing.hashForWitnessV0_bytes [OF assms(1)] assms(2,3) by (simp add: signable_def)
  then show "s = s' \<and> amount = amount' \<and> ht = ht' \<and> sighash_covers ht i tx = sighash_covers ht i tx'"
    by (rule bip143_commits [OF assms])
next
  assume "s = s' \<and> amount = amount' \<and> ht = ht' \<and> sighash_covers ht i tx = sighash_covers ht i tx'"
  then show "hashForWitnessV0 h v junk tx i s amount ht = hashForWitnessV0 h v junk tx' i s' amount' ht'"
    using hashForWitnessV0_scope [of ht i tx tx' h v junk s amount] assms(2,3) by (auto simp: signable_def)
qed

lemma padded_hd: "b \<noteq> [] \<Longrightarrow> hd (hash256 padded_hashes b) = hd b"
  by (cases b) (simp_all add: hash256_def padded_hashes_def)

lemma padded_collision_free:
  assumes "\<And>x. x \<in> M \<Longrightarrow> x \<noteq> [] \<and> hd x \<noteq> 0" "inj_on hd M"
  shows "collision_free padded_hashes M"
proof -
  have "inj_on (hash256 padded_hashes) M"
    using assms by (intro inj_onI) (metis inj_onD padded_hd)
  moreover have "hash256 padded_hashes x \<noteq> ZERO" if "x \<in> M" for x
    using assms(1) [OF that] padded_hd [of x] by (auto simp: ZERO_def)
  ultimately show ?thesis by (force simp: collision_free_def)
qed

definition sample_tx2 :: "int \<Rightarrow> transaction" where
  "sample_tx2 version = sample_tx1\<lparr>tx_version := version,
     tx_outs := [\<lparr>out_script = [0x51], out_value = Some 5, out_valueBuffer = None\<rparr>]\<rparr>"

theorem bip143_commitment_witness:
  "hashForWitnessV0 padded_hashes compactSize_varuint (\<lambda>_ _. 0) (sample_tx2 1) 0 [0x51] 1000 0x41 \<noteq>
   hashForWitnessV0 padded_hashes compactSize_varuint (\<lambda>_ _. 0) (sample_tx2 2) 0 [0x51] 1000 0x41"
proof -
  have ok: "signable (sample_tx2 n) 0 [0x51] 1000 0x41" if "0 \<le> n" "n < 3" for n
    using sample_signable that by (simp add: signable_def sample_tx2_def sample_tx1_def sample_tx_def tx_ok_def txout_ok_def
        txout_plain_def varslice_ok_def types_UInt53_def)
  have mode: "\<not> anyone_can_pay 0x41" "commits_all 0x41" by code_simp+
  have pre: "bip143_preimage padded_hashes (sample_tx2 n) 0 [0x51] 1000 0x41 \<noteq> []"
    "hd (bip143_preimage padded_hashes (sample_tx2 n) 0 [0x51] 1000 0x41) = word_of_nat (nat n)" for n
    by (simp_all add: bip143_preimage_def sample_tx2_def le_bytes_numeral)
  have "outpoint_bytes sample_in \<noteq> []" "hd (outpoint_bytes sample_in) = 7"
    "sequence_bytes sample_in \<noteq> []" "hd (sequence_bytes sample_in) = 0xfe"
    by (simp_all add: outpoint_bytes_def sequence_bytes_def sample_in_def le_bytes_numeral)
  moreover have "txout_bytes \<lparr>out_script = [0x51], out_value = Some 5, out_valueBuffer = None\<rparr> \<noteq> []"
    "hd (txout_bytes \<lparr>out_script = [0x51], out_value = Some 5, out_valueBuffer = None\<rparr>) = 5"
    by (simp_all add: txout_bytes_def le_bytes_numeral)
  ultimately have heads: "\<forall>x \<in> M. x \<noteq> [] \<and> hd x \<noteq> 0" "inj_on hd M"
    if "M = {bip143_preimage padded_hashes (sample_tx2 1) 0 [0x51] 1000 0x41, bip143_preimage padded_hashes (sample_tx2 2) 0 [0x51] 1000 0x41,
     outpoint_bytes sample_in, sequence_bytes sample_in, txout_bytes \<lparr>out_script = [0x51], out_value = Some 5, out_valueBuffer = None\<rparr>}" for M
    using pre [of 1] pre [of 2] unfolding that by (simp_all add: inj_on_def)
  have "bip143_messages padded_hashes (sample_tx2 1) 0 [0x51] 1000 0x41 \<union>
      bip143_messages padded_hashes (sample_tx2 2) 0 [0x51] 1000 0x41 =
    {bip143_preimage padded_hashes (sample_tx2 1) 0 [0x51] 1000 0x41, bip143_preimage padded_hashes (sample_tx2 2) 0 [0x51] 1000 0x41,
     outpoint_bytes sample_in, sequence_bytes sample_in, txout_bytes \<lparr>out_script = [0x51], out_value = Some 5, out_valueBuffer = None\<rparr>}"
    by (auto simp: bip143_messages_def msg_prevouts_def msg_sequence_def msg_outputs_def mode sample_tx2_def sample_tx1_def sample_tx_def)
  note M = heads [OF this]
  from M(1) have "collision_free padded_hashes (bip143_messages padded_hashes (sample_tx2 1) 0 [0x51] 1000 0x41 \<union>
      bip143_messages padded_hashes (sample_tx2 2) 0 [0x51] 1000 0x41)"
    by (intro padded_collision_free M(2)) blast
  from bip143_commitment [OF sg.signing_axioms ok ok this] show ?thesis
    by (simp add: sighash_covers_def sample_tx2_def)
qed

text \<open>C33. A missing amount is always a type error: the tuple of \<open>hashForCashSignature\<close> checks the amount
  against the entry meant for the hash type, so the message that the code has for a missing amount can
  never be seen. A transaction with a negative version, which can be parsed and serialised, cannot be
  signed under BIP143.\<close>

theorem cash_signature_checks:
  "hashForCashSignature h v junk tx i s None ht = Inl typeforce_error \<and>
   (tx_version tx < 0 \<longrightarrow> \<not> (\<exists>d. hashForWitnessV0 h v junk tx i s amount ht' = Inr d))"
proof -
  have "\<not> (\<exists>d. hash_written h j n (write_bip143 v tx i s amount ht' x y z) = Inr d)" if "tx_version tx < 0" for j n x y z
    using that by (simp add: hash_written_def write_bip143_def w_UInt32_def emit_def writeUInt32LE_def writeUIntLE_def)
  then show ?thesis
    by (auto simp: hashForCashSignature_def assertE_def hashForWitnessV0_def)
qed

theorem cash_signature_checks_witness:
  "\<not> (\<exists>d. hashForWitnessV0 padded_hashes compactSize_varuint (\<lambda>_ _. 0) sample_tx 0 [0x51] 1000 0x41 = Inr d)"
  using cash_signature_checks [where h = padded_hashes and v = compactSize_varuint and junk = "\<lambda>_ _. 0" and tx = sample_tx]
  by (simp add: sample_tx_def)

end
