(* ===== verification/Builder_Inputs.thy ===== *)
theory Builder_Inputs
  imports HDNode Sighash
begin

text \<open>
  The inputs of \<open>ecashjs-lib/src/transaction_builder.js\<close>: what the builder knows about an input, how it
  reads that from a script signature (\<open>expandInput\<close>) or from an output script (\<open>expandOutput\<close>,
  \<open>prepareInput\<close>), and the script signature that it writes from it (\<open>buildInput\<close>). A missing property is
  \<open>None\<close>. The properties \<open>redeemScript\<close> and \<open>redeemScriptType\<close> are always assigned together and are one
  optional pair, as are \<open>witnessScript\<close> and \<open>witnessScriptType\<close>.
\<close>

record txb_input =
  inp_value :: "int option"
  inp_pubKeys :: "chunk option list option"
  inp_signatures :: "chunk option list option"
  inp_prevOutScript :: "buffer option"
  inp_prevOutType :: "script_type option"
  inp_signType :: "script_type option"
  inp_signScript :: "buffer option"
  inp_witness :: "bool option"
  inp_redeemScript :: "(buffer \<times> script_type) option"
  inp_witnessScript :: "(buffer \<times> script_type) option"

definition empty_input :: txb_input where
  "empty_input = \<lparr>inp_value = None, inp_pubKeys = None, inp_signatures = None, inp_prevOutScript = None,
     inp_prevOutType = None, inp_signType = None, inp_signScript = None, inp_witness = None,
     inp_redeemScript = None, inp_witnessScript = None\<rparr>"

definition SIGNABLE :: "script_type list" where
  "SIGNABLE = [P2PKH, P2PK, MULTISIG]"

definition P2SH_SIGNABLE :: "script_type list" where
  "P2SH_SIGNABLE = SIGNABLE @ [P2WPKH, P2WSH]"

definition supportedType :: "script_type option \<Rightarrow> bool" where
  "supportedType type = (case type of None \<Rightarrow> False | Some t \<Rightarrow> List.member SIGNABLE t)"

definition supportedP2SHType :: "script_type option \<Rightarrow> bool" where
  "supportedP2SHType type = (case type of None \<Rightarrow> False | Some t \<Rightarrow> List.member P2SH_SIGNABLE t)"

text \<open>The values of the type names, used in messages.\<close>

fun type_name :: "script_type option \<Rightarrow> string" where
  "type_name (Some MULTISIG) = ''multisig''"
| "type_name (Some NONSTANDARD) = ''nonstandard''"
| "type_name (Some NULLDATA) = ''nulldata''"
| "type_name (Some P2PK) = ''pubkey''"
| "type_name (Some P2PKH) = ''pubkeyhash''"
| "type_name (Some P2SH) = ''scripthash''"
| "type_name (Some P2WPKH) = ''witnesspubkeyhash''"
| "type_name (Some P2WSH) = ''witnessscripthash''"
| "type_name (Some WITNESS_COMMITMENT) = ''witnesscommitment''"
| "type_name None = ''undefined''"

abbreviation (input) lib_check :: "'p lib \<Rightarrow> buffer \<Rightarrow> bool" where
  "lib_check lib \<equiv> bip66_check (lib_bip66 lib)"

subsection \<open>Reading a script signature\<close>

text \<open>A slot for a signature holds nothing, the bytes of a signature, or the opcode of a chunk; nothing and
  the opcode 0 are falsy.\<close>

fun truthy :: "chunk option \<Rightarrow> bool" where
  "truthy None = False"
| "truthy (Some (Op n)) = (n \<noteq> 0)"
| "truthy (Some (Data _)) = True"

definition extractChunks ::
    "script_type \<Rightarrow> chunk list \<Rightarrow> buffer option \<Rightarrow> (chunk option list \<times> chunk option list) result" where
  "extractChunks type chunks script = (case type of
     P2PKH \<Rightarrow> Inr (map Some (drop 1 chunks), map Some (take 1 chunks))
   | P2PK \<Rightarrow>
       bindE (case script of None \<Rightarrow> Inr None | Some s \<Rightarrow> bindE (p2pk_output_decode s) (\<lambda>k. Inr (Some k))) (\<lambda>pubKey.
       Inr ([pubKey], map Some (take 1 chunks)))
   | MULTISIG \<Rightarrow>
       bindE (case script of None \<Rightarrow> Inr []
         | Some s \<Rightarrow> bindE (p2ms_output_decode s False) (\<lambda>(_, pubKeys). Inr (map Some pubKeys))) (\<lambda>pubKeys.
       Inr (pubKeys, map (\<lambda>chunk. if chunk = Data [] then None else Some chunk) (drop 1 chunks)))
   | _ \<Rightarrow> Inr ([], []))"

text \<open>A script hash input: the redeem script with its type, and the output script it redeems.\<close>

definition expand_p2sh :: "'p lib \<Rightarrow> chunk list \<Rightarrow> ((buffer \<times> script_type) \<times> buffer) result" where
  "expand_p2sh lib scriptSigChunks =
     (case last scriptSigChunks of
        Op _ \<Rightarrow> Inl typeforce_error
      | Data redeemScript \<Rightarrow>
          bindE (classifyOutput (lib_junk lib) (Raw redeemScript)) (\<lambda>redeemScriptType.
          bindE (p2sh_output_encode (lib_junk lib) (hash160 (lib_hashes lib) redeemScript)) (\<lambda>prevOutScript.
          Inr ((redeemScript, redeemScriptType), prevOutScript))))"

text \<open>A witness program is the previous output itself, or the redeem script of a script hash input.\<close>

definition check_program ::
    "buffer \<Rightarrow> buffer option \<Rightarrow> buffer result \<Rightarrow> string \<Rightarrow> string \<Rightarrow> buffer option result" where
  "check_program scriptSig redeemScript program missing mismatch =
     (if length scriptSig = 0 then
        bindE program (\<lambda>prevOutScript.
        if redeemScript \<noteq> None then Inl (Error ''Redeem script given when unnecessary'') else Inr (Some prevOutScript))
      else
        (case redeemScript of
           None \<Rightarrow> Inl (Error missing)
         | Some r \<Rightarrow> bindE program (\<lambda>witnessProgram. if r \<noteq> witnessProgram then Inl (Error mismatch) else Inr None)))"

definition expand_p2wsh ::
    "'p lib \<Rightarrow> buffer \<Rightarrow> buffer option \<Rightarrow> buffer list \<Rightarrow> (buffer option \<times> buffer \<times> script_type) result" where
  "expand_p2wsh lib scriptSig redeemScript witnessStack =
     (let witnessScript = last witnessStack in
      bindE (classifyOutput (lib_junk lib) (Raw witnessScript)) (\<lambda>witnessScriptType.
      bindE (check_program scriptSig redeemScript
          (p2wsh_output_encode (lib_junk lib) (sha256 (lib_hashes lib) witnessScript))
          ''No redeemScript provided for P2WSH, but scriptSig non-empty''
          ''Redeem script didn't match witnessScript'') (\<lambda>prevOutScript.
      bindE (classifyOutput (lib_junk lib) (Raw witnessScript)) (\<lambda>type.
      if \<not> supportedType (Some type) then Inl (Error ''unsupported witness script'')
      else Inr (prevOutScript, witnessScript, witnessScriptType)))))"

definition expand_p2wpkh ::
    "'p lib \<Rightarrow> buffer \<Rightarrow> buffer option \<Rightarrow> buffer list \<Rightarrow> buffer option result" where
  "expand_p2wpkh lib scriptSig redeemScript witnessStack =
     (let key = last witnessStack; keyHash = hash160 (lib_hashes lib) key in
      check_program scriptSig redeemScript (p2wpkh_output_encode (lib_junk lib) keyHash)
        ''No redeemScript provided for P2WPKH, but scriptSig wasn't empty''
        ''Redeem script did not have the right witness program'')"

definition expanded_input ::
    "script_type \<Rightarrow> chunk list \<Rightarrow> buffer option \<Rightarrow> buffer option \<Rightarrow> script_type option \<Rightarrow> bool \<Rightarrow>
     (buffer \<times> script_type) option \<Rightarrow> (buffer \<times> script_type) option \<Rightarrow> txb_input result" where
  "expanded_input scriptType chunks script prevOutScript prevOutType witness redeem inner =
     bindE (extractChunks scriptType chunks script) (\<lambda>(pubKeys, signatures).
     Inr \<lparr>inp_value = None, inp_pubKeys = Some pubKeys, inp_signatures = Some signatures,
       inp_prevOutScript = prevOutScript, inp_prevOutType = prevOutType, inp_signType = Some scriptType,
       inp_signScript = script, inp_witness = Some witness, inp_redeemScript = redeem, inp_witnessScript = inner\<rparr>)"

definition expandInput :: "'p lib \<Rightarrow> buffer \<Rightarrow> buffer list \<Rightarrow> txb_input result" where
  "expandInput lib scriptSig witnessStack =
     (if length scriptSig = 0 \<and> length witnessStack = 0 then Inr empty_input else
      bindE (decompile (Raw scriptSig)) (\<lambda>scriptSigChunks.
      bindE (classifyInput (lib_check lib) (lib_junk lib) (Chunks scriptSigChunks) True) (\<lambda>sigType.
      bindE (if sigType = P2SH then bindE (expand_p2sh lib scriptSigChunks) (\<lambda>p. Inr (Some p)) else Inr None) (\<lambda>p2sh.
      let redeem = map_option fst p2sh;
          redeemScript = map_option fst redeem;
          prevOutScript = map_option snd p2sh;
          prevOutType = map_option (\<lambda>_. P2SH) p2sh in
      bindE (classifyWitness (lib_check lib) (lib_junk lib) (Chunks (map Data witnessStack)) True) (\<lambda>witnessType.
      if witnessType = P2WSH then
        bindE (expand_p2wsh lib scriptSig redeemScript witnessStack) (\<lambda>(bare, witnessScript, witnessScriptType).
        expanded_input witnessScriptType (map Data (butlast witnessStack)) (Some witnessScript)
          (case bare of Some s \<Rightarrow> Some s | None \<Rightarrow> prevOutScript) (case bare of Some _ \<Rightarrow> Some P2WSH | None \<Rightarrow> prevOutType)
          True redeem (Some (witnessScript, witnessScriptType)))
      else if witnessType = P2WPKH then
        bindE (expand_p2wpkh lib scriptSig redeemScript witnessStack) (\<lambda>bare.
        expanded_input P2PKH (map Data witnessStack) redeemScript
          (case bare of Some s \<Rightarrow> Some s | None \<Rightarrow> prevOutScript) (case bare of Some _ \<Rightarrow> Some P2WPKH | None \<Rightarrow> prevOutType)
          True redeem None)
      else
        (case redeem of
           Some (redeemScript, redeemScriptType) \<Rightarrow>
             if \<not> supportedP2SHType (Some redeemScriptType) then Inl (Error ''Bad redeemscript!'')
             else expanded_input redeemScriptType (butlast scriptSigChunks) (Some redeemScript) prevOutScript prevOutType False redeem None
         | None \<Rightarrow>
             bindE (classifyInput (lib_check lib) (lib_junk lib) (Raw scriptSig) False) (\<lambda>scriptType.
             expanded_input scriptType scriptSigChunks None None (Some scriptType) False None None)))))))"

subsection \<open>Reading an output script\<close>

record expanded_output =
  exp_pubKeys :: "chunk option list option"
  exp_scriptType :: script_type

definition exp_signatures :: "expanded_output \<Rightarrow> chunk option list option" where
  "exp_signatures e = map_option (map (\<lambda>_. None)) (exp_pubKeys e)"

text \<open>A method call on something other than a buffer throws.\<close>

definition chunk_equals :: "chunk list \<Rightarrow> nat \<Rightarrow> buffer \<Rightarrow> bool result" where
  "chunk_equals chunks i b =
     (if i < length chunks then (case chunks ! i of Data d \<Rightarrow> Inr (d = b) | Op _ \<Rightarrow> Inl (TypeError ''equals''))
      else Inl (TypeError ''undefined''))"

definition expandOutput :: "'p lib \<Rightarrow> buffer \<Rightarrow> script_type option \<Rightarrow> buffer option \<Rightarrow> expanded_output result" where
  "expandOutput lib script scriptType ourPubKey =
     bindE (decompile (Raw script)) (\<lambda>scriptChunks.
     bindE (case scriptType of None \<Rightarrow> classifyOutput (lib_junk lib) (Raw script) | Some t \<Rightarrow> Inr t) (\<lambda>scriptType.
     let ours = (\<lambda>i. case ourPubKey of None \<Rightarrow> Inr []
           | Some k \<Rightarrow> bindE (chunk_equals scriptChunks i (hash160 (lib_hashes lib) k)) (\<lambda>eq. Inr (if eq then [Some (Data k)] else [])));
         result = (\<lambda>pubKeys. \<lparr>exp_pubKeys = pubKeys, exp_scriptType = scriptType\<rparr>) in
     case scriptType of
       P2PKH \<Rightarrow> bindE (ours 2) (\<lambda>pubKeys. Inr (result (Some pubKeys)))
     | P2WPKH \<Rightarrow> bindE (ours 1) (\<lambda>pubKeys. Inr (result (Some pubKeys)))
     | P2PK \<Rightarrow> Inr (result (Some (map Some (take 1 scriptChunks))))
     | MULTISIG \<Rightarrow> Inr (result (Some (map Some (take (length scriptChunks - 3) (drop 1 scriptChunks)))))
     | _ \<Rightarrow> Inr (result None)))"

definition check_prevOut ::
    "txb_input \<Rightarrow> script_type \<Rightarrow> buffer \<Rightarrow> string \<Rightarrow> string \<Rightarrow> unit result" where
  "check_prevOut inp type hash wrong inconsistent = (case inp_prevOutType inp of
     None \<Rightarrow> Inr ()
   | Some t \<Rightarrow>
       if t \<noteq> type then Inl (Error wrong)
       else
         (case inp_prevOutScript inp of
            None \<Rightarrow> Inl typeforce_error
          | Some script \<Rightarrow>
              bindE (decompile (Raw script)) (\<lambda>chunks.
              bindE (chunk_equals chunks 1 hash) (\<lambda>eq. assertE eq (Error inconsistent)))))"

definition checkP2SHInput :: "txb_input \<Rightarrow> buffer \<Rightarrow> unit result" where
  "checkP2SHInput inp redeemScriptHash =
     check_prevOut inp P2SH redeemScriptHash ''PrevOutScript must be P2SH'' ''Inconsistent hash160(RedeemScript)''"

definition checkP2WSHInput :: "txb_input \<Rightarrow> buffer \<Rightarrow> unit result" where
  "checkP2WSHInput inp witnessScriptHash =
     check_prevOut inp P2WSH witnessScriptHash ''PrevOutScript must be P2WSH'' ''Inconsistent sha25(WitnessScript)''"

text \<open>What \<open>prepareInput\<close> computes before it assigns the properties of the input.\<close>

record prepared =
  prep_expanded :: expanded_output
  prep_prevOutType :: script_type
  prep_prevOutScript :: buffer
  prep_p2sh :: "script_type option"
  prep_p2wsh :: "script_type option"
  prep_witness :: bool
  prep_signScript :: buffer

text \<open>The message of a failure prints the redeem script; without one, printing it throws another error.\<close>

definition not_supported :: "string \<Rightarrow> buffer option \<Rightarrow> 'a result" where
  "not_supported what redeemScript = (case redeemScript of
     None \<Rightarrow> Inl (TypeError ''undefined'')
   | Some r \<Rightarrow> bindE (toASM (Raw r)) (\<lambda>asm. Inl (Error (what @ '' not supported '' @ [CHR 0x22] @ asm @ [CHR 0x22]))))"

definition prepare_nested :: "'p lib \<Rightarrow> txb_input \<Rightarrow> buffer \<Rightarrow> buffer \<Rightarrow> buffer \<Rightarrow> prepared result" where
  "prepare_nested lib inp kpPubKey redeemScript witnessScript =
     (let redeemScriptHash = hash160 (lib_hashes lib) redeemScript;
          witnessScriptHash = sha256 (lib_hashes lib) witnessScript in
      bindE (checkP2SHInput inp redeemScriptHash) (\<lambda>_.
      bindE (p2wsh_output_encode (lib_junk lib) witnessScriptHash) (\<lambda>program.
      if redeemScript \<noteq> program then Inl (Error ''Witness script inconsistent with redeem script'') else
      bindE (expandOutput lib witnessScript None (Some kpPubKey)) (\<lambda>expanded.
      if exp_pubKeys expanded = None then not_supported ''WitnessScript'' (Some redeemScript) else
      bindE (p2sh_output_encode (lib_junk lib) redeemScriptHash) (\<lambda>prevOutScript.
      Inr \<lparr>prep_expanded = expanded, prep_prevOutType = P2SH, prep_prevOutScript = prevOutScript,
        prep_p2sh = Some P2WSH, prep_p2wsh = Some (exp_scriptType expanded), prep_witness = True,
        prep_signScript = witnessScript\<rparr>)))))"

definition prepare_p2sh :: "'p lib \<Rightarrow> txb_input \<Rightarrow> buffer \<Rightarrow> buffer \<Rightarrow> prepared result" where
  "prepare_p2sh lib inp kpPubKey redeemScript =
     (let redeemScriptHash = hash160 (lib_hashes lib) redeemScript in
      bindE (checkP2SHInput inp redeemScriptHash) (\<lambda>_.
      bindE (expandOutput lib redeemScript None (Some kpPubKey)) (\<lambda>expanded.
      if exp_pubKeys expanded = None then not_supported ''RedeemScript'' (Some redeemScript) else
      bindE (p2sh_output_encode (lib_junk lib) redeemScriptHash) (\<lambda>prevOutScript.
      Inr \<lparr>prep_expanded = expanded, prep_prevOutType = P2SH, prep_prevOutScript = prevOutScript,
        prep_p2sh = Some (exp_scriptType expanded), prep_p2wsh = None, prep_witness = (exp_scriptType expanded = P2WPKH),
        prep_signScript = redeemScript\<rparr>))))"

definition prepare_p2wsh :: "'p lib \<Rightarrow> txb_input \<Rightarrow> buffer \<Rightarrow> buffer \<Rightarrow> prepared result" where
  "prepare_p2wsh lib inp kpPubKey witnessScript =
     (let witnessScriptHash = sha256 (lib_hashes lib) witnessScript in
      bindE (checkP2WSHInput inp witnessScriptHash) (\<lambda>_.
      bindE (expandOutput lib witnessScript None (Some kpPubKey)) (\<lambda>expanded.
      if exp_pubKeys expanded = None then not_supported ''WitnessScript'' None else
      bindE (p2wsh_output_encode (lib_junk lib) witnessScriptHash) (\<lambda>prevOutScript.
      Inr \<lparr>prep_expanded = expanded, prep_prevOutType = P2WSH, prep_prevOutScript = prevOutScript,
        prep_p2sh = None, prep_p2wsh = Some (exp_scriptType expanded), prep_witness = True,
        prep_signScript = witnessScript\<rparr>))))"

text \<open>An input of a known type without embedded scripts; nothing is prepared when the type is not one of
  those that can be signed.\<close>

definition prepare_known :: "'p lib \<Rightarrow> txb_input \<Rightarrow> buffer \<Rightarrow> script_type \<Rightarrow> prepared option result" where
  "prepare_known lib inp kpPubKey type =
     (if type = P2SH \<or> type = P2WSH then
        Inl (Error (''PrevOutScript is '' @ type_name (Some type) @ '', requires redeemScript''))
      else
        (case inp_prevOutScript inp of
           None \<Rightarrow> Inl typeforce_error
         | Some prevOutScript \<Rightarrow>
             bindE (expandOutput lib prevOutScript (Some type) (Some kpPubKey)) (\<lambda>expanded.
             if exp_pubKeys expanded = None then Inr None
             else Inr (Some \<lparr>prep_expanded = expanded, prep_prevOutType = type, prep_prevOutScript = prevOutScript,
               prep_p2sh = None, prep_p2wsh = None, prep_witness = (type = P2WPKH), prep_signScript = prevOutScript\<rparr>))))"

definition prepare_default :: "'p lib \<Rightarrow> buffer \<Rightarrow> prepared result" where
  "prepare_default lib kpPubKey =
     bindE (p2pkh_output_encode (lib_junk lib) (hash160 (lib_hashes lib) kpPubKey)) (\<lambda>prevOutScript.
     bindE (expandOutput lib prevOutScript (Some P2PKH) (Some kpPubKey)) (\<lambda>expanded.
     Inr \<lparr>prep_expanded = expanded, prep_prevOutType = P2PKH, prep_prevOutScript = prevOutScript,
       prep_p2sh = None, prep_p2wsh = None, prep_witness = False, prep_signScript = prevOutScript\<rparr>))"

definition prepare ::
    "'p lib \<Rightarrow> txb_input \<Rightarrow> buffer \<Rightarrow> buffer option \<Rightarrow> buffer option \<Rightarrow> prepared option result" where
  "prepare lib inp kpPubKey redeemScript witnessScript =
     (let some = (\<lambda>r. bindE r (\<lambda>p. Inr (Some p))) in
      case (redeemScript, witnessScript) of
        (Some r, Some w) \<Rightarrow> some (prepare_nested lib inp kpPubKey r w)
      | (Some r, None) \<Rightarrow> some (prepare_p2sh lib inp kpPubKey r)
      | (None, Some w) \<Rightarrow> some (prepare_p2wsh lib inp kpPubKey w)
      | (None, None) \<Rightarrow>
          (case inp_prevOutType inp of
             Some type \<Rightarrow> prepare_known lib inp kpPubKey type
           | None \<Rightarrow> some (prepare_default lib kpPubKey)))"

text \<open>The type that is signed: that of the innermost script.\<close>

definition prep_signType :: "prepared \<Rightarrow> script_type" where
  "prep_signType p = (case prep_p2wsh p of Some t \<Rightarrow> t | None \<Rightarrow>
     (case prep_p2sh p of Some t \<Rightarrow> t | None \<Rightarrow> prep_prevOutType p))"

definition prepareInput ::
    "'p lib \<Rightarrow> txb_input \<Rightarrow> buffer \<Rightarrow> buffer option \<Rightarrow> buffer option \<Rightarrow> txb_input result" where
  "prepareInput lib inp kpPubKey redeemScript witnessScript =
     bindE (prepare lib inp kpPubKey redeemScript witnessScript) (\<lambda>p. case p of
       None \<Rightarrow> Inr inp
     | Some p \<Rightarrow>
         bindE (if prep_signType p = P2WPKH
           then bindE (p2wpkh_output_decode (lib_junk lib) (prep_signScript p)) (p2pkh_output_encode (lib_junk lib))
           else Inr (prep_signScript p)) (\<lambda>signScript.
         Inr \<lparr>inp_value = inp_value inp,
           inp_pubKeys = exp_pubKeys (prep_expanded p),
           inp_signatures = exp_signatures (prep_expanded p),
           inp_prevOutScript = Some (prep_prevOutScript p),
           inp_prevOutType = Some (prep_prevOutType p),
           inp_signType = Some (prep_signType p),
           inp_signScript = Some signScript,
           inp_witness = Some (prep_witness p),
           inp_redeemScript = (case prep_p2sh p of Some t \<Rightarrow> map_option (\<lambda>r. (r, t)) redeemScript | None \<Rightarrow> inp_redeemScript inp),
           inp_witnessScript = (case prep_p2wsh p of Some t \<Rightarrow> map_option (\<lambda>w. (w, t)) witnessScript | None \<Rightarrow> inp_witnessScript inp)\<rparr>))"

subsection \<open>Writing a script signature\<close>

definition buildStack ::
    "'p lib \<Rightarrow> script_type option \<Rightarrow> chunk option list option \<Rightarrow> chunk option list option \<Rightarrow> bool \<Rightarrow> chunk list result" where
  "buildStack lib type signatures pubKeys allowIncomplete =
     (let rest = (if \<not> allowIncomplete then Inl (Error ''Not enough signatures provided'') else Inr []) in
      if type \<notin> {Some P2PKH, Some P2PK, Some MULTISIG} then Inl (Error ''Not yet supported'') else
      case signatures of
        None \<Rightarrow> Inl (TypeError ''undefined'')
      | Some signatures \<Rightarrow>
          if type = Some P2PKH then
            (case signatures of
               [Some (Data signature)] \<Rightarrow>
                 (case pubKeys of
                    None \<Rightarrow> Inl (TypeError ''undefined'')
                  | Some [Some pubKey] \<Rightarrow> p2pkh_input_encodeStack (lib_check lib) (Data signature) pubKey
                  | Some [None] \<Rightarrow> Inl typeforce_error
                  | _ \<Rightarrow> rest)
             | _ \<Rightarrow> rest)
          else if type = Some P2PK then
            (case signatures of
               [Some (Data signature)] \<Rightarrow> p2pk_input_encodeStack (lib_check lib) (Data signature)
             | _ \<Rightarrow> rest)
          else if length signatures > 0 then
            let signatures = map (\<lambda>signature. if truthy signature then the signature else Op OP_0) signatures;
                signatures = (if \<not> allowIncomplete then filter (\<lambda>x. x \<noteq> Op OP_0) signatures else signatures) in
            p2ms_input_encodeStack (lib_check lib) signatures None
          else rest)"

record built_input =
  built_type :: "script_type option"
  built_script :: buffer
  built_witness :: "chunk list"

definition build_redeem :: "'p lib \<Rightarrow> txb_input \<Rightarrow> bool \<Rightarrow> chunk list \<Rightarrow> chunk list result" where
  "build_redeem lib inp allowIncomplete sig =
     (let redeemScriptType = map_option snd (inp_redeemScript inp) in
      if \<not> allowIncomplete \<and> \<not> supportedP2SHType redeemScriptType then Inl (Error ''Impossible to sign this type'')
      else if supportedType redeemScriptType
        then buildStack lib redeemScriptType (inp_signatures inp) (inp_pubKeys inp) allowIncomplete
      else Inr sig)"

definition build_witness ::
    "'p lib \<Rightarrow> txb_input \<Rightarrow> script_type option \<Rightarrow> bool \<Rightarrow> (script_type option \<times> chunk list) result" where
  "build_witness lib inp scriptType allowIncomplete =
     (if scriptType = Some P2WPKH then
        bindE (buildStack lib (Some P2PKH) (inp_signatures inp) (inp_pubKeys inp) allowIncomplete) (\<lambda>witness.
        Inr (scriptType, witness))
      else if scriptType = Some P2WSH then
        let witnessScriptType = map_option snd (inp_witnessScript inp) in
        if \<not> allowIncomplete \<and> \<not> supportedType witnessScriptType then Inl (Error ''Impossible to sign this type'')
        else if supportedType witnessScriptType then
          bindE (buildStack lib witnessScriptType (inp_signatures inp) (inp_pubKeys inp) allowIncomplete) (\<lambda>witness.
          Inr (witnessScriptType, witness @ [Data (fst (the (inp_witnessScript inp)))]))
        else Inr (scriptType, [])
      else Inr (scriptType, []))"

definition buildInput :: "'p lib \<Rightarrow> txb_input \<Rightarrow> bool \<Rightarrow> built_input result" where
  "buildInput lib inp allowIncomplete =
     (let scriptType = inp_prevOutType inp in
      bindE (if supportedType scriptType
        then buildStack lib scriptType (inp_signatures inp) (inp_pubKeys inp) allowIncomplete else Inr []) (\<lambda>sig.
      bindE (if scriptType = Some P2SH then build_redeem lib inp allowIncomplete sig else Inr sig) (\<lambda>sig.
      let redeem = (if scriptType = Some P2SH then inp_redeemScript inp else None);
          scriptType = (case redeem of Some (_, t) \<Rightarrow> Some t | None \<Rightarrow> scriptType) in
      bindE (build_witness lib inp scriptType allowIncomplete) (\<lambda>(scriptType, witness).
      let sig = (case redeem of Some (r, _) \<Rightarrow> sig @ [Data r] | None \<Rightarrow> sig) in
      bindE (compile (lib_junk lib) (Chunks sig)) (\<lambda>script.
      Inr \<lparr>built_type = scriptType, built_script = script, built_witness = witness\<rparr>)))))"

end
