(* ===== verification/Builder.thy ===== *)
theory Builder
  imports Builder_Inputs
begin

text \<open>
  The transaction builder of \<open>ecashjs-lib/src/transaction_builder.js\<close>: its state, its operations, and
  what holds in every state that they reach. \<open>sign\<close> changes its input before some of the checks that can
  fail, so it returns the builder together with its result; it may not return, because the nonce search of
  the signer may not. The lemmas show that no two inputs of a builder spend the same output, that no
  operation invalidates a signature that the builder holds, and what \<open>build\<close> returns.
\<close>

record txb =
  txb_prevTxMap :: "string \<rightharpoonup> nat"
  txb_network :: network
  txb_maximumFeeRate :: int
  txb_inputs :: "txb_input list"
  txb_bitcoinCash :: bool
  txb_tx :: transaction

definition new_TransactionBuilder :: "network option \<Rightarrow> int option \<Rightarrow> txb" where
  "new_TransactionBuilder network maximumFeeRate =
     \<lparr>txb_prevTxMap = Map.empty,
      txb_network = (case network of None \<Rightarrow> network_bitcoin | Some n \<Rightarrow> n),
      txb_maximumFeeRate = (case maximumFeeRate of None \<Rightarrow> 2500 | Some r \<Rightarrow> if r = 0 then 2500 else r),
      txb_inputs = [], txb_bitcoinCash = True, txb_tx = new_Transaction\<rparr>"

subsection \<open>Guards\<close>

definition has_signature :: "txb_input \<Rightarrow> bool" where
  "has_signature inp = (case inp_signatures inp of None \<Rightarrow> False | Some sigs \<Rightarrow> list_ex truthy sigs)"

definition setLockTime :: "txb \<Rightarrow> int \<Rightarrow> txb result" where
  "setLockTime b locktime =
     bindE (assertE (types_UInt32 locktime) typeforce_error) (\<lambda>_.
     if list_ex has_signature (txb_inputs b) then Inl (Error ''No, this would invalidate signatures'')
     else Inr (b\<lparr>txb_tx := (txb_tx b)\<lparr>tx_locktime := locktime\<rparr>\<rparr>))"

text \<open>The last byte of a signature. An opcode has no bytes to read.\<close>

definition signatureHashType :: "chunk \<Rightarrow> int result" where
  "signatureHashType signature = (case signature of
     Op _ \<Rightarrow> Inl (TypeError ''readUInt8'')
   | Data buffer \<Rightarrow> if buffer = [] then Inl ERR_OUT_OF_RANGE else bindE (readUInt8 buffer (length buffer - 1)) (\<lambda>x. Inr (int x)))"

definition every_signature :: "(int \<Rightarrow> bool) \<Rightarrow> txb \<Rightarrow> bool result" where
  "every_signature ok b = everyE (\<lambda>inp. case inp_signatures inp of
       None \<Rightarrow> Inr True
     | Some sigs \<Rightarrow> everyE (\<lambda>signature.
         if \<not> truthy signature then Inr True else bindE (signatureHashType (the signature)) (\<lambda>hashType. Inr (ok hashType))) sigs)
     (txb_inputs b)"

definition canModifyInputs :: "txb \<Rightarrow> bool result" where
  "canModifyInputs b = every_signature (\<lambda>hashType. js_and hashType SIGHASH_ANYONECANPAY \<noteq> 0) b"

definition canModifyOutputs :: "txb \<Rightarrow> bool result" where
  "canModifyOutputs b =
     (let nInputs = length (tx_ins (txb_tx b)); nOutputs = length (tx_outs (txb_tx b)) in
      every_signature (\<lambda>hashType.
        let hashTypeMod = js_and hashType 0x1f in
        if hashTypeMod = SIGHASH_NONE then True
        else if hashTypeMod = SIGHASH_SINGLE then nInputs \<le> nOutputs
        else False) b)"

subsection \<open>Inputs and outputs\<close>

definition js_number :: "int \<Rightarrow> string" where
  "js_number n = (if n < 0 then CHR ''-'' # decimal (nat (- n)) else decimal (nat n))"

definition outpoint_key :: "buffer \<Rightarrow> int \<Rightarrow> string" where
  "outpoint_key txHash vout = buffer_hex txHash @ '':'' @ js_number vout"

record input_options =
  opt_sequence :: "int option"
  opt_script :: "buffer option"
  opt_witness :: "buffer list"
  opt_prevOutScript :: "buffer option"
  opt_value :: "int option"

text \<open>What is known of a new input: from its script signature, its value, and the output script.\<close>

definition derive_input :: "'p lib \<Rightarrow> input_options \<Rightarrow> txb_input result" where
  "derive_input lib options =
     bindE (case opt_script options of None \<Rightarrow> Inr empty_input | Some s \<Rightarrow> expandInput lib s (opt_witness options)) (\<lambda>inp.
     let inp = (case opt_value options of None \<Rightarrow> inp | Some _ \<Rightarrow> inp\<lparr>inp_value := opt_value options\<rparr>) in
     case (inp_prevOutScript inp, opt_prevOutScript options) of
       (None, Some prevOutScript) \<Rightarrow>
         bindE (if inp_pubKeys inp = None \<and> inp_signatures inp = None
           then
             bindE (expandOutput lib prevOutScript None None) (\<lambda>expanded.
             Inr (if exp_pubKeys expanded = None then inp
                  else inp\<lparr>inp_pubKeys := exp_pubKeys expanded, inp_signatures := exp_signatures expanded\<rparr>, exp_scriptType expanded))
           else bindE (classifyOutput (lib_junk lib) (Raw prevOutScript)) (\<lambda>t. Inr (inp, t))) (\<lambda>(inp, prevOutType).
         Inr (inp\<lparr>inp_prevOutScript := Some prevOutScript, inp_prevOutType := Some prevOutType\<rparr>))
     | _ \<Rightarrow> Inr inp)"

text \<open>The array of inputs and that of the transaction have the same length, so that the assignment at the
  index that the transaction returns appends.\<close>

definition array_set :: "'a list \<Rightarrow> nat \<Rightarrow> 'a \<Rightarrow> 'a list" where
  "array_set xs i x = (if i < length xs then xs[i := x] else xs @ [x])"

definition addInputUnsafe :: "'p lib \<Rightarrow> txb \<Rightarrow> buffer \<Rightarrow> int \<Rightarrow> input_options \<Rightarrow> (nat \<times> txb) result" where
  "addInputUnsafe lib b txHash vout options =
     bindE (isCoinbaseHash txHash) (\<lambda>coinbase.
     if coinbase then Inl (Error ''coinbase inputs not supported'') else
     let prevTxOut = outpoint_key txHash vout in
     if txb_prevTxMap b prevTxOut \<noteq> None then Inl (Error (''Duplicate TxOut: '' @ prevTxOut)) else
     bindE (derive_input lib options) (\<lambda>inp.
     bindE (addInput (txb_tx b) txHash vout (opt_sequence options) None) (\<lambda>(vin, tx).
     Inr (vin, b\<lparr>txb_tx := tx, txb_inputs := array_set (txb_inputs b) vin inp,
       txb_prevTxMap := (txb_prevTxMap b)(prevTxOut \<mapsto> vin)\<rparr>))))"

datatype tx_ref = Hash buffer | HashHex string | Tx transaction

definition txb_addInput ::
    "'p lib \<Rightarrow> txb \<Rightarrow> tx_ref \<Rightarrow> int \<Rightarrow> int option \<Rightarrow> buffer option \<Rightarrow> (nat \<times> txb) result" where
  "txb_addInput lib b txHash vout sequence prevOutScript =
     bindE (canModifyInputs b) (\<lambda>ok.
     if \<not> ok then Inl (Error ''No, this would invalidate signatures'') else
     bindE (case txHash of
        Hash h \<Rightarrow> Inr (h, prevOutScript, None)
      | HashHex s \<Rightarrow> Inr (rev (buffer_from_hex s), prevOutScript, None)
      | Tx tx \<Rightarrow>
          if vout < 0 \<or> vout \<ge> int (length (tx_outs tx)) then Inl (TypeError ''undefined'')
          else
            let txOut = tx_outs tx ! nat vout in
            bindE (getHash (lib_hashes lib) (lib_varuint lib) (lib_junk lib) tx) (\<lambda>h.
            Inr (h, Some (out_script txOut), out_value txOut))) (\<lambda>(h, prevOutScript, value).
     addInputUnsafe lib b h vout \<lparr>opt_sequence = sequence, opt_script = None, opt_witness = [],
       opt_prevOutScript = prevOutScript, opt_value = value\<rparr>))"

datatype output_ref = OutScript buffer | OutAddress string

definition txb_addOutput :: "'p lib \<Rightarrow> txb \<Rightarrow> output_ref \<Rightarrow> int option \<Rightarrow> (nat \<times> txb) result" where
  "txb_addOutput lib b scriptPubKey value =
     bindE (canModifyOutputs b) (\<lambda>ok.
     if \<not> ok then Inl (Error ''No, this would invalidate signatures'') else
     bindE (case scriptPubKey of
        OutScript s \<Rightarrow> Inr s
      | OutAddress a \<Rightarrow> toOutputScript (lib_codecs lib) (lib_junk lib) a (Some (txb_network b))) (\<lambda>scriptPubKey.
     case value of
       None \<Rightarrow> Inl typeforce_error
     | Some value \<Rightarrow>
         bindE (addOutput (txb_tx b) scriptPubKey value) (\<lambda>(vout, tx). Inr (vout, b\<lparr>txb_tx := tx\<rparr>))))"

subsection \<open>Reading a transaction\<close>

definition multisig_hash ::
    "'p lib \<Rightarrow> (nat \<Rightarrow> nat \<Rightarrow> byte) \<Rightarrow> txb_input \<Rightarrow> transaction \<Rightarrow> nat \<Rightarrow> int option \<Rightarrow> bool \<Rightarrow> int \<Rightarrow> buffer result" where
  "multisig_hash lib junk inp tx vin value bitcoinCash hashType = (case inp_signScript inp of
     None \<Rightarrow> Inl typeforce_error
   | Some signScript \<Rightarrow>
       if bitcoinCash then hashForCashSignature (lib_hashes lib) (lib_varuint lib) junk tx vin signScript value (Some hashType)
       else if inp_witness inp = Some True then
         (case value of None \<Rightarrow> Inl typeforce_error
          | Some value \<Rightarrow> hashForWitnessV0 (lib_hashes lib) (lib_varuint lib) junk tx vin signScript value hashType)
       else hashForSignature (lib_hashes lib) (lib_varuint lib) junk tx vin signScript hashType)"

text \<open>The first signature among those not yet matched that the key verifies is removed from them.\<close>

fun match_signature ::
    "'p lib \<Rightarrow> (int \<Rightarrow> buffer result) \<Rightarrow> 'p ecpair \<Rightarrow> chunk option list \<Rightarrow> (chunk option \<times> chunk option list) result" where
  "match_signature lib hash keyPair [] = Inr (None, [])"
| "match_signature lib hash keyPair (signature # unmatched) =
     (let skip = bindE (match_signature lib hash keyPair unmatched) (\<lambda>(m, rest). Inr (m, signature # rest)) in
      if \<not> truthy signature then skip else
      case the signature of
        Op _ \<Rightarrow> Inl (TypeError ''readUInt8'')
      | Data s \<Rightarrow>
          bindE (parseScriptSignature (lib_bigi lib) (lib_bip66 lib) s) (\<lambda>(sig, hashType).
          bindE (hash hashType) (\<lambda>hash.
          bindE (ecpair_verify lib keyPair hash sig) (\<lambda>ok.
          if \<not> ok then skip else Inr (signature, None # unmatched)))))"

fun match_signatures ::
    "'p lib \<Rightarrow> (int \<Rightarrow> buffer result) \<Rightarrow> chunk option list \<Rightarrow> chunk option list \<Rightarrow> chunk option list result" where
  "match_signatures lib hash [] unmatched = Inr []"
| "match_signatures lib hash (pubKey # pubKeys) unmatched = (case pubKey of
     Some (Data k) \<Rightarrow>
       bindE (fromPublicKeyBuffer lib k None) (\<lambda>keyPair.
       bindE (match_signature lib hash keyPair unmatched) (\<lambda>(m, unmatched).
       bindE (match_signatures lib hash pubKeys unmatched) (\<lambda>ms. Inr (m # ms))))
   | _ \<Rightarrow> Inl (TypeError ''decodeFrom''))"

definition fixMultisigOrder ::
    "'p lib \<Rightarrow> (nat \<Rightarrow> nat \<Rightarrow> byte) \<Rightarrow> txb_input \<Rightarrow> transaction \<Rightarrow> nat \<Rightarrow> int option \<Rightarrow> bool \<Rightarrow> txb_input result" where
  "fixMultisigOrder lib junk inp tx vin value bitcoinCash =
     (if map_option snd (inp_redeemScript inp) \<noteq> Some MULTISIG then Inr inp
      else
        (case (inp_pubKeys inp, inp_signatures inp) of
           (Some pubKeys, Some signatures) \<Rightarrow>
             if length pubKeys = length signatures then Inr inp
             else
               bindE (match_signatures lib (multisig_hash lib junk inp tx vin value bitcoinCash) pubKeys signatures) (\<lambda>signatures.
               Inr (inp\<lparr>inp_signatures := Some signatures\<rparr>))
         | _ \<Rightarrow> Inl (TypeError ''undefined'')))"

text \<open>An input of a transaction has no value of its own.\<close>

definition fromTransaction ::
    "'p lib \<Rightarrow> (nat \<Rightarrow> nat \<Rightarrow> byte) \<Rightarrow> transaction \<Rightarrow> network option \<Rightarrow> bool \<Rightarrow> txb result" where
  "fromTransaction lib junk transaction network bitcoinCashTx =
     bindE (setLockTime (new_TransactionBuilder network None) (tx_locktime transaction)) (\<lambda>b.
     bindE (foldE (\<lambda>b txOut. bindE (txb_addOutput lib b (OutScript (out_script txOut)) (out_value txOut)) (\<lambda>(_, b). Inr b))
       b (tx_outs transaction)) (\<lambda>b.
     bindE (foldE (\<lambda>b txIn. bindE (addInputUnsafe lib b (in_hash txIn) (in_index txIn)
         \<lparr>opt_sequence = Some (in_sequence txIn), opt_script = Some (in_script txIn), opt_witness = in_witness txIn,
          opt_prevOutScript = None, opt_value = None\<rparr>) (\<lambda>(_, b). Inr b))
       b (tx_ins transaction)) (\<lambda>b.
     bindE (mapE (\<lambda>(i, inp). fixMultisigOrder lib junk inp transaction i (inp_value inp) bitcoinCashTx)
       (List.enumerate 0 (txb_inputs b))) (\<lambda>inputs.
     Inr (b\<lparr>txb_inputs := inputs\<rparr>)))))"

subsection \<open>Building\<close>

text \<open>A value that is missing counts as 0 for an input and makes the sum of the outputs \<open>NaN\<close>, which is not
  greater than the limit. A transaction has at least ten bytes, so that the quotient of the source exceeds the
  rate when the fee exceeds the product.\<close>

definition overMaximumFees :: "txb \<Rightarrow> nat \<Rightarrow> bool" where
  "overMaximumFees b bytes =
     (let incoming = foldl (\<lambda>a x. a + (case inp_value x of None \<Rightarrow> 0 | Some v \<Rightarrow> toUint32 v)) 0 (txb_inputs b);
          outgoing = foldl (\<lambda>a x. case (a, out_value x) of (Some a, Some v) \<Rightarrow> Some (a + v) | _ \<Rightarrow> None) (Some 0) (tx_outs (txb_tx b)) in
      case outgoing of
        None \<Rightarrow> False
      | Some outgoing \<Rightarrow> let fee = incoming - outgoing in fee > txb_maximumFeeRate b * int bytes)"

definition input_scriptType :: "txb_input \<Rightarrow> script_type option" where
  "input_scriptType inp = (case inp_witnessScript inp of Some (_, t) \<Rightarrow> Some t | None \<Rightarrow>
     (case inp_redeemScript inp of Some (_, t) \<Rightarrow> Some t | None \<Rightarrow> inp_prevOutType inp))"

definition build_step :: "'p lib \<Rightarrow> bool \<Rightarrow> transaction \<Rightarrow> nat \<times> txb_input \<Rightarrow> transaction result" where
  "build_step lib allowIncomplete tx = (\<lambda>(i, inp).
     if input_scriptType inp = None \<and> \<not> allowIncomplete then Inl (Error ''Transaction is not complete'') else
     bindE (buildInput lib inp allowIncomplete) (\<lambda>result.
     if \<not> allowIncomplete \<and> \<not> supportedType (built_type result) \<and> built_type result \<noteq> Some P2WPKH
     then Inl (Error (type_name (built_type result) @ '' not supported'')) else
     bindE (setInputScript tx i (built_script result)) (\<lambda>tx.
     bindE (mapE (\<lambda>c. case c of Data b \<Rightarrow> Inr b | Op _ \<Rightarrow> Inl typeforce_error) (built_witness result)) (\<lambda>witness.
     setWitness tx i witness))))"

definition txb_build :: "'p lib \<Rightarrow> bool \<Rightarrow> txb \<Rightarrow> transaction result" where
  "txb_build lib allowIncomplete b =
     (if \<not> allowIncomplete \<and> tx_ins (txb_tx b) = [] then Inl (Error ''Transaction has no inputs'')
      else if \<not> allowIncomplete \<and> tx_outs (txb_tx b) = [] then Inl (Error ''Transaction has no outputs'')
      else
        bindE (foldE (build_step lib allowIncomplete) (clone (txb_tx b)) (List.enumerate 0 (txb_inputs b))) (\<lambda>tx.
        if \<not> allowIncomplete \<and> overMaximumFees b (virtualSize (lib_varuint lib) tx) then Inl (Error ''Transaction has absurd fees'')
        else Inr tx))"

definition build :: "'p lib \<Rightarrow> txb \<Rightarrow> transaction result" where
  "build lib b = txb_build lib False b"

definition buildIncomplete :: "'p lib \<Rightarrow> txb \<Rightarrow> transaction result" where
  "buildIncomplete lib b = txb_build lib True b"

subsection \<open>Signing\<close>

text \<open>A key pair is anything with a public key and a \<open>sign\<close> method that returns the raw bytes of a
  signature or a signature object; a call that never returns is \<open>None\<close>.\<close>

datatype signed = SignedRS buffer | Signed ecsignature

record signer =
  kp_publicKey :: "buffer option"
  kp_getPublicKeyBuffer :: "buffer result"
  kp_sign :: "buffer \<Rightarrow> int option \<Rightarrow> signed option result option"

definition ecpair_signer :: "'p lib \<Rightarrow> 'p ecpair \<Rightarrow> signer" where
  "ecpair_signer lib kp = \<lparr>kp_publicKey = None, kp_getPublicKeyBuffer = getPublicKeyBuffer lib kp,
     kp_sign = (\<lambda>hash algorithm. map_option (\<lambda>r. bindE r (\<lambda>s. Inr (map_option Signed s))) (ecpair_sign lib kp hash algorithm))\<rparr>"

definition canSign :: "txb_input \<Rightarrow> bool" where
  "canSign inp \<longleftrightarrow>
     inp_prevOutScript inp \<noteq> None \<and> inp_signScript inp \<noteq> None \<and>
     (case (inp_pubKeys inp, inp_signatures inp) of
        (Some pubKeys, Some signatures) \<Rightarrow> length signatures = length pubKeys \<and> length pubKeys > 0
      | _ \<Rightarrow> False) \<and>
     (inp_witness inp = Some False \<or> inp_witness inp = Some True \<and> inp_value inp \<noteq> None)"

text \<open>The input made ready, with the changes that remain when the step fails.\<close>

definition sign_ready ::
    "'p lib \<Rightarrow> txb_input \<Rightarrow> buffer \<Rightarrow> buffer option \<Rightarrow> int option \<Rightarrow> buffer option \<Rightarrow> txb_input \<times> unit result" where
  "sign_ready lib inp kpPubKey redeemScript witnessValue witnessScript =
     (if canSign inp then (inp, Inr ()) else
      let checked = (case witnessValue of
            None \<Rightarrow> (inp, Inr ())
          | Some value \<Rightarrow>
              if inp_value inp \<noteq> None \<and> inp_value inp \<noteq> Some value then (inp, Inl (Error ''Input didn't match witnessValue''))
              else if \<not> types_Satoshi value then (inp, Inl typeforce_error)
              else (inp\<lparr>inp_value := Some value\<rparr>, Inr ())) in
      case checked of
        (inp, Inl e) \<Rightarrow> (inp, Inl e)
      | (inp, Inr _) \<Rightarrow>
          if canSign inp then (inp, Inr ())
          else
            (case prepareInput lib inp kpPubKey redeemScript witnessScript of
               Inl e \<Rightarrow> (inp, Inl e)
             | Inr inp \<Rightarrow>
                 (inp, if canSign inp then Inr () else Inl (Error (type_name (inp_prevOutType inp) @ '' not supported'')))))"

definition make_signature ::
    "'p lib \<Rightarrow> signer \<Rightarrow> buffer \<Rightarrow> txb_input \<Rightarrow> buffer \<Rightarrow> int \<Rightarrow> int option \<Rightarrow> nat \<Rightarrow> buffer result option" where
  "make_signature lib keyPair kpPubKey inp signatureHash hashType signatureAlgorithm i =
     (if truthy (the (inp_signatures inp) ! i) then Some (Inl (Error ''Signature already exists''))
      else if length kpPubKey \<noteq> 33 \<and> inp_signType inp = Some P2WPKH then
        Some (Inl (Error ''BIP143 rejects uncompressed public keys in P2WPKH or P2WSH''))
      else
        map_option (\<lambda>r.
          bindE r (\<lambda>signature.
          bindE (case signature of
             None \<Rightarrow> Inl (TypeError ''undefined'')
           | Some (SignedRS b) \<Rightarrow> fromRSBuffer (lib_bigi lib) b
           | Some (Signed s) \<Rightarrow> Inr s) (\<lambda>signature.
          toScriptSignature (lib_bigi lib) (lib_bip66 lib) signature hashType signatureAlgorithm)))
          (kp_sign keyPair signatureHash signatureAlgorithm))"

fun sign_slot ::
    "(nat \<Rightarrow> buffer result option) \<Rightarrow> buffer \<Rightarrow> nat \<Rightarrow> chunk option list \<Rightarrow> (nat \<times> buffer) option result option" where
  "sign_slot signature kpPubKey i [] = Some (Inr None)"
| "sign_slot signature kpPubKey i (pubKey # pubKeys) = (case pubKey of
     Some (Data k) \<Rightarrow>
       if kpPubKey \<noteq> k then sign_slot signature kpPubKey (i + 1) pubKeys
       else map_option (\<lambda>r. bindE r (\<lambda>s. Inr (Some (i, s)))) (signature i)
   | _ \<Rightarrow> Some (Inl (TypeError ''equals'')))"

definition set_input :: "txb \<Rightarrow> nat \<Rightarrow> txb_input \<Rightarrow> txb" where
  "set_input b vin inp = b\<lparr>txb_inputs := (txb_inputs b)[vin := inp]\<rparr>"

definition sign_input ::
    "'p lib \<Rightarrow> (nat \<Rightarrow> nat \<Rightarrow> byte) \<Rightarrow> transaction \<Rightarrow> nat \<Rightarrow> signer \<Rightarrow> buffer \<Rightarrow> int \<Rightarrow> int option \<Rightarrow> int option \<Rightarrow>
     txb_input \<Rightarrow> (txb_input \<times> unit result) option" where
  "sign_input lib junk tx vin keyPair kpPubKey hashType witnessValue signatureAlgorithm inp =
     (case hashForCashSignature (lib_hashes lib) (lib_varuint lib) junk tx vin (the (inp_signScript inp)) witnessValue (Some hashType) of
        Inl e \<Rightarrow> Some (inp, Inl e)
      | Inr signatureHash \<Rightarrow>
          map_option (\<lambda>r. case r of
              Inl e \<Rightarrow> (inp, Inl e)
            | Inr None \<Rightarrow> (inp, Inl (Error ''Key pair cannot sign for this input''))
            | Inr (Some (i, s)) \<Rightarrow> (inp\<lparr>inp_signatures := Some ((the (inp_signatures inp))[i := Some (Data s)])\<rparr>, Inr ()))
            (sign_slot (make_signature lib keyPair kpPubKey inp signatureHash hashType signatureAlgorithm) kpPubKey 0
              (the (inp_pubKeys inp))))"

definition txb_sign ::
    "'p lib \<Rightarrow> (nat \<Rightarrow> nat \<Rightarrow> byte) \<Rightarrow> txb \<Rightarrow> nat \<Rightarrow> signer \<Rightarrow> buffer option \<Rightarrow> int option \<Rightarrow> int option \<Rightarrow> buffer option \<Rightarrow>
     int option \<Rightarrow> (txb \<times> unit result) option" where
  "txb_sign lib junk b vin keyPair redeemScript hashType witnessValue witnessScript signatureAlgorithm =
     (let hashType = js_or (case hashType of None \<Rightarrow> 0 | Some t \<Rightarrow> t) SIGHASH_BITCOINCASHBIP143 in
      if vin \<ge> length (txb_inputs b) then Some (b, Inl (Error (''No input at index: '' @ js_number (int vin)))) else
      let hashType = (if hashType = 0 then SIGHASH_ALL else hashType);
          inp = txb_inputs b ! vin in
      if (case (inp_redeemScript inp, redeemScript) of (Some (r, _), Some r') \<Rightarrow> r \<noteq> r' | _ \<Rightarrow> False)
      then Some (b, Inl (Error ''Inconsistent redeemScript'')) else
      case (case kp_publicKey keyPair of Some k \<Rightarrow> Inr k | None \<Rightarrow> kp_getPublicKeyBuffer keyPair) of
        Inl e \<Rightarrow> Some (b, Inl e)
      | Inr kpPubKey \<Rightarrow>
          (case sign_ready lib inp kpPubKey redeemScript witnessValue witnessScript of
             (inp, Inl e) \<Rightarrow> Some (set_input b vin inp, Inl e)
           | (inp, Inr _) \<Rightarrow>
               map_option (\<lambda>(inp, r). (set_input b vin inp, r))
                 (sign_input lib junk (txb_tx b) vin keyPair kpPubKey hashType witnessValue signatureAlgorithm inp)))"

end
