(* ===== verification/Builder_Correct.thy ===== *)
theory Builder_Correct
  imports Builder
begin

text \<open>
  What the transaction builder guarantees. \<open>txb_step\<close> is the relation of its public operations, a failed
  \<open>sign\<close> included. The lemmas give two invariants of the states they reach: the bookkeeping of the inputs, and
  that every signature the builder holds verifies on its present transaction; and what \<open>build\<close> returns.
\<close>

subsection \<open>The public operations\<close>

inductive txb_step :: "'p lib \<Rightarrow> (signer \<Rightarrow> int option \<Rightarrow> bool) \<Rightarrow> txb \<Rightarrow> txb \<Rightarrow> bool"
  for lib :: "'p lib" and may_sign :: "signer \<Rightarrow> int option \<Rightarrow> bool" where
  step_setLockTime: "setLockTime b locktime = Inr b' \<Longrightarrow> txb_step lib may_sign b b'"
| step_addInput: "txb_addInput lib b txHash vout sequence prevOutScript = Inr (vin, b') \<Longrightarrow> txb_step lib may_sign b b'"
| step_addOutput: "txb_addOutput lib b scriptPubKey amount = Inr (n, b') \<Longrightarrow> txb_step lib may_sign b b'"
| step_sign: "may_sign keyPair algorithm \<Longrightarrow>
    txb_sign lib junk b vin keyPair redeemScript hashType witnessValue witnessScript algorithm = Some (b', r) \<Longrightarrow>
    txb_step lib may_sign b b'"

abbreviation txb_steps :: "'p lib \<Rightarrow> (signer \<Rightarrow> int option \<Rightarrow> bool) \<Rightarrow> txb \<Rightarrow> txb \<Rightarrow> bool" where
  "txb_steps lib may_sign \<equiv> (txb_step lib may_sign)\<^sup>*\<^sup>*"

subsection \<open>The bookkeeping of inputs\<close>

definition txin_key :: "txin \<Rightarrow> string" where
  "txin_key i = outpoint_key (in_hash i) (in_index i)"

definition txin_valid :: "txin \<Rightarrow> bool" where
  "txin_valid i \<longleftrightarrow> isCoinbaseHash (in_hash i) = Inr False \<and> types_UInt32 (in_index i) \<and> types_UInt32 (in_sequence i) \<and>
     in_script i = [] \<and> in_witness i = []"

definition txout_valid :: "txout \<Rightarrow> bool" where
  "txout_valid out \<longleftrightarrow> (\<exists>v. out_value out = Some v \<and> types_Satoshi v) \<and> out_valueBuffer out = None"

definition txb_ok :: "txb \<Rightarrow> bool" where
  "txb_ok b \<longleftrightarrow>
     length (txb_inputs b) = length (tx_ins (txb_tx b)) \<and>
     distinct (map txin_key (tx_ins (txb_tx b))) \<and>
     (\<forall>k i. txb_prevTxMap b k = Some i \<longleftrightarrow> i < length (tx_ins (txb_tx b)) \<and> txin_key (tx_ins (txb_tx b) ! i) = k) \<and>
     list_all txin_valid (tx_ins (txb_tx b)) \<and> list_all txout_valid (tx_outs (txb_tx b)) \<and>
     types_UInt32 (tx_locktime (txb_tx b)) \<and> tx_version (txb_tx b) = 2"

lemma length_buffer_hex: "length (buffer_hex b) = 2 * length b"
  by (induction b) (simp_all add: buffer_hex_def hex_of_byte_def)

lemma decimal_inj: "decimal m = decimal n \<Longrightarrow> m = n"
  by (metis of_nat_eq_iff parseInt10_decimal)

lemma outpoint_key_inj:
  assumes "outpoint_key h i = outpoint_key h' i'" "length h = length h'" "0 \<le> i" "0 \<le> i'"
  shows "h = h' \<and> i = i'"
proof -
  have eq: "buffer_hex h = buffer_hex h'" "decimal (nat i) = decimal (nat i')"
    using assms by (simp_all add: outpoint_key_def js_number_def length_buffer_hex)
  from eq(1) have "buffer_from_hex (buffer_hex h) = buffer_from_hex (buffer_hex h')" by simp
  then have "h = h'" by (simp add: buffer_from_hex_hex)
  moreover have "i = i'" using decimal_inj [OF eq(2)] assms(3,4) by simp
  ultimately show ?thesis by simp
qed

lemma isCoinbaseHash_length: "isCoinbaseHash h = Inr x \<Longrightarrow> length h = 32"
  by (auto simp: isCoinbaseHash_def assertE_def split: if_splits)

lemma txb_ok_new: "txb_ok (new_TransactionBuilder network rate)"
  by (simp add: txb_ok_def new_TransactionBuilder_def new_Transaction_def types_UInt32_def)

lemma setLockTime_cases:
  assumes "setLockTime b locktime = Inr b'"
  shows "b' = b\<lparr>txb_tx := (txb_tx b)\<lparr>tx_locktime := locktime\<rparr>\<rparr>" "types_UInt32 locktime" "\<not> list_ex has_signature (txb_inputs b)"
  using assms by (auto simp: setLockTime_def assertE_def split: if_splits)

lemma txb_ok_setLockTime: "txb_ok b \<Longrightarrow> setLockTime b locktime = Inr b' \<Longrightarrow> txb_ok b'"
  using setLockTime_cases(2) [of b locktime b'] setLockTime_cases(1) [of b locktime b'] by (simp add: txb_ok_def)

definition new_txin :: "buffer \<Rightarrow> int \<Rightarrow> int option \<Rightarrow> txin" where
  "new_txin h vout sequence = \<lparr>in_hash = h, in_index = vout, in_script = [],
     in_sequence = (case sequence of Some n \<Rightarrow> n | None \<Rightarrow> DEFAULT_SEQUENCE), in_witness = []\<rparr>"

lemma addInputUnsafe_cases:
  assumes "addInputUnsafe lib b h vout options = Inr (vin, b')"
  obtains inp where "derive_input lib options = Inr inp" "isCoinbaseHash h = Inr False" "txb_prevTxMap b (outpoint_key h vout) = None"
    "types_UInt32 vout" "pred_option types_UInt32 (opt_sequence options)" "vin = length (tx_ins (txb_tx b))"
    "b' = b\<lparr>txb_tx := (txb_tx b)\<lparr>tx_ins := tx_ins (txb_tx b) @ [new_txin h vout (opt_sequence options)]\<rparr>,
       txb_inputs := array_set (txb_inputs b) vin inp, txb_prevTxMap := (txb_prevTxMap b)(outpoint_key h vout \<mapsto> vin)\<rparr>"
proof -
  from assms obtain inp tx where *: "derive_input lib options = Inr inp" "isCoinbaseHash h = Inr False"
    "txb_prevTxMap b (outpoint_key h vout) = None" "addInput (txb_tx b) h vout (opt_sequence options) None = Inr (vin, tx)"
    "b' = b\<lparr>txb_tx := tx, txb_inputs := array_set (txb_inputs b) vin inp, txb_prevTxMap := (txb_prevTxMap b)(outpoint_key h vout \<mapsto> vin)\<rparr>"
    by (auto simp: addInputUnsafe_def Let_def split: if_splits)
  from *(4) have "types_UInt32 vout" "pred_option types_UInt32 (opt_sequence options)" "vin = length (tx_ins (txb_tx b))"
    and tx: "tx = (txb_tx b)\<lparr>tx_ins := tx_ins (txb_tx b) @ [new_txin h vout (opt_sequence options)]\<rparr>"
    by (auto simp: addInput_def assertE_def new_txin_def split: if_splits)
  then show thesis using *(1-3,5) unfolding tx by (intro that)
qed

lemma txb_ok_addInputUnsafe:
  assumes "txb_ok b" "addInputUnsafe lib b h vout options = Inr (vin, b')"
  shows "txb_ok b'"
proof -
  obtain inp where inp: "isCoinbaseHash h = Inr False" "txb_prevTxMap b (outpoint_key h vout) = None"
    "types_UInt32 vout" "pred_option types_UInt32 (opt_sequence options)" "vin = length (tx_ins (txb_tx b))"
    "b' = b\<lparr>txb_tx := (txb_tx b)\<lparr>tx_ins := tx_ins (txb_tx b) @ [new_txin h vout (opt_sequence options)]\<rparr>,
       txb_inputs := array_set (txb_inputs b) vin inp, txb_prevTxMap := (txb_prevTxMap b)(outpoint_key h vout \<mapsto> vin)\<rparr>"
    using assms(2) by (rule addInputUnsafe_cases)
  let ?ins = "tx_ins (txb_tx b)" and ?new = "new_txin h vout (opt_sequence options)"
  have map: "txb_prevTxMap b k = Some i \<longleftrightarrow> i < length ?ins \<and> txin_key (?ins ! i) = k" for k i
    using assms(1) by (simp add: txb_ok_def)
  have key: "txin_key ?new = outpoint_key h vout" by (simp add: txin_key_def new_txin_def)
  have fresh: "txin_key ?new \<notin> txin_key ` set ?ins"
    using map [of "txin_key ?new"] inp(2) key by (fastforce simp: in_set_conv_nth)
  have "txin_valid ?new"
    using inp(1,3,4) by (auto simp: txin_valid_def new_txin_def types_UInt32_def split: option.splits)
  moreover have "((txb_prevTxMap b)(outpoint_key h vout \<mapsto> length ?ins)) k = Some i \<longleftrightarrow>
      i < length (?ins @ [?new]) \<and> txin_key ((?ins @ [?new]) ! i) = k" for k i
    using map [of k i] inp(2) key fresh by (auto simp: nth_append less_Suc_eq)
  ultimately show ?thesis
    using assms(1) fresh unfolding inp(6) by (auto simp: txb_ok_def array_set_def inp(5))
qed

lemma txb_addInput_cases:
  assumes "txb_addInput lib b txHash vout sequence prevOutScript = Inr (vin, b')"
  obtains h options where "canModifyInputs b = Inr True" "addInputUnsafe lib b h vout options = Inr (vin, b')" "opt_script options = None"
  using assms that by (auto simp: txb_addInput_def split: if_splits)

lemma txb_addOutput_cases:
  assumes "txb_addOutput lib b scriptPubKey amount = Inr (n, b')"
  obtains script a where "canModifyOutputs b = Inr True" "amount = Some a" "types_Satoshi a" "n = length (tx_outs (txb_tx b))"
    "b' = b\<lparr>txb_tx := (txb_tx b)\<lparr>tx_outs := tx_outs (txb_tx b) @ [\<lparr>out_script = script, out_value = Some a, out_valueBuffer = None\<rparr>]\<rparr>\<rparr>"
  using assms that by (auto simp: txb_addOutput_def addOutput_def assertE_def split: if_splits option.splits)

lemma set_input_same: "b = set_input b vin (txb_inputs b ! vin)"
  by (simp add: set_input_def)

text \<open>A call of \<open>sign\<close> changes one input; where it gets past its checks, that input was made ready.\<close>

lemma txb_sign_cases:
  assumes "txb_sign lib junk b vin keyPair redeemScript hashType witnessValue witnessScript algorithm = Some (b', r)"
  obtains
    (unchanged) e where "b' = b" "r = Inl e"
  | (not_ready) kpPubKey inp e where "vin < length (txb_inputs b)"
      "sign_ready lib (txb_inputs b ! vin) kpPubKey redeemScript witnessValue witnessScript = (inp, Inl e)"
      "b' = set_input b vin inp" "r = Inl e"
  | (ready) kpPubKey inp inp' ht where "vin < length (txb_inputs b)"
      "(case kp_publicKey keyPair of Some k \<Rightarrow> Inr k | None \<Rightarrow> kp_getPublicKeyBuffer keyPair) = Inr kpPubKey"
      "sign_ready lib (txb_inputs b ! vin) kpPubKey redeemScript witnessValue witnessScript = (inp, Inr ())"
      "sign_input lib junk (txb_tx b) vin keyPair kpPubKey ht witnessValue algorithm inp = Some (inp', r)"
      "ht = js_or (case hashType of None \<Rightarrow> 0 | Some t \<Rightarrow> t) SIGHASH_BITCOINCASHBIP143 \<or> ht = SIGHASH_ALL"
      "b' = set_input b vin inp'"
proof -
  let ?t = "js_or (case hashType of None \<Rightarrow> 0 | Some t \<Rightarrow> t) SIGHASH_BITCOINCASHBIP143"
  let ?ht = "if ?t = 0 then SIGHASH_ALL else ?t"
  let ?inp = "txb_inputs b ! vin"
  let ?key = "case kp_publicKey keyPair of Some k \<Rightarrow> Inr k | None \<Rightarrow> kp_getPublicKeyBuffer keyPair"
  let ?bad = "case (inp_redeemScript ?inp, redeemScript) of (Some (r, _), Some r') \<Rightarrow> r \<noteq> r' | _ \<Rightarrow> False"
  note s = assms [unfolded txb_sign_def Let_def]
  show thesis
  proof (cases "vin \<ge> length (txb_inputs b)")
    case True
    then have "b' = b" "\<exists>e. r = Inl e" using s by auto
    then show thesis using unchanged by blast
  next
    case in_range: False
    show thesis
    proof (cases ?bad)
      case True
      then have "b' = b" "\<exists>e. r = Inl e" using s in_range by auto
      then show thesis using unchanged by blast
    next
      case bad: False
      note s2 = s [unfolded if_not_P [OF in_range] if_not_P [OF bad]]
      show thesis
      proof (cases ?key)
        case (Inl e)
        then have "b' = b" "r = Inl e" using s2 by simp_all
        then show thesis by (rule unchanged)
      next
        case (Inr k)
        obtain inp res where sr: "sign_ready lib ?inp k redeemScript witnessValue witnessScript = (inp, res)" by fastforce
        show thesis
        proof (cases res)
          case (Inl e)
          then have "b' = set_input b vin inp" "r = Inl e" using s2 \<open>?key = Inr k\<close> sr by simp_all
          then show thesis using sr Inl in_range by (intro not_ready [of k inp e]) simp_all
        next
          case (Inr u)
          have "?ht = ?t \<or> ?ht = SIGHASH_ALL" by simp
          moreover obtain inp' where "sign_input lib junk (txb_tx b) vin keyPair k ?ht witnessValue algorithm inp = Some (inp', r)"
            "b' = set_input b vin inp'"
          proof -
            from s2 have "map_option (\<lambda>(inp, r). (set_input b vin inp, r))
                (sign_input lib junk (txb_tx b) vin keyPair k ?ht witnessValue algorithm inp) = Some (b', r)"
              unfolding \<open>?key = Inr k\<close> sum.case sr Inr prod.case .
            then obtain p where "sign_input lib junk (txb_tx b) vin keyPair k ?ht witnessValue algorithm inp = Some p"
              "(\<lambda>(inp, r). (set_input b vin inp, r)) p = (b', r)" unfolding map_option_eq_Some by blast
            then show thesis using that by (cases p) simp
          qed
          ultimately show thesis
            using \<open>?key = Inr k\<close> sr Inr in_range by (intro ready [of k inp ?ht inp']) simp_all
        qed
      qed
    qed
  qed
qed

lemma txb_sign_frame:
  assumes "txb_sign lib junk b vin keyPair redeemScript hashType witnessValue witnessScript algorithm = Some (b', r)"
  obtains inp where "b' = set_input b vin inp"
  using assms
proof (rule txb_sign_cases)
  show thesis if "b' = b" using that set_input_same [of b vin] by (intro \<open>\<And>inp. b' = set_input b vin inp \<Longrightarrow> thesis\<close>) simp
qed (rule that, assumption)+

lemma txb_ok_step: "txb_step lib may_sign b b' \<Longrightarrow> txb_ok b \<Longrightarrow> txb_ok b'"
proof (induction rule: txb_step.induct)
  case (step_setLockTime b locktime b')
  then show ?case by (simp add: txb_ok_setLockTime)
next
  case (step_addInput b txHash vout sequence prevOutScript vin b')
  then show ?case by (metis txb_addInput_cases txb_ok_addInputUnsafe)
next
  case (step_addOutput b scriptPubKey amount n b')
  then show ?case by (elim txb_addOutput_cases) (auto simp: txb_ok_def txout_valid_def)
next
  case (step_sign keyPair algorithm junk b vin redeemScript hashType witnessValue witnessScript b' r)
  then show ?case by - (rule txb_sign_frame [OF step_sign(2)], simp add: set_input_def txb_ok_def)
qed

lemma txb_ok_steps: "txb_steps lib may_sign b b' \<Longrightarrow> txb_ok b \<Longrightarrow> txb_ok b'"
  by (induction rule: rtranclp_induct) (auto intro: txb_ok_step)

lemma foldE_invariant:
  "foldE f s xs = Inr t \<Longrightarrow> P s \<Longrightarrow> (\<And>s x t. P s \<Longrightarrow> f s x = Inr t \<Longrightarrow> P t) \<Longrightarrow> P t"
  by (induction xs arbitrary: s) auto

lemma mapE_length: "mapE f xs = Inr ys \<Longrightarrow> length ys = length xs"
  by (induction xs arbitrary: ys) auto

lemma txb_ok_fromTransaction:
  assumes "fromTransaction lib junk tx network cash = Inr b"
  shows "txb_ok b"
proof -
  from assms obtain b0 b1 b2 inputs where b: "setLockTime (new_TransactionBuilder network None) (tx_locktime tx) = Inr b0"
    "foldE (\<lambda>b txOut. bindE (txb_addOutput lib b (OutScript (out_script txOut)) (out_value txOut)) (\<lambda>(_, b). Inr b)) b0 (tx_outs tx) = Inr b1"
    "foldE (\<lambda>b txIn. bindE (addInputUnsafe lib b (in_hash txIn) (in_index txIn)
         \<lparr>opt_sequence = Some (in_sequence txIn), opt_script = Some (in_script txIn), opt_witness = in_witness txIn,
          opt_prevOutScript = None, opt_value = None\<rparr>) (\<lambda>(_, b). Inr b)) b1 (tx_ins tx) = Inr b2"
    "length inputs = length (txb_inputs b2)" "b = b2\<lparr>txb_inputs := inputs\<rparr>"
    by (auto simp: fromTransaction_def dest!: mapE_length)
  have "txb_ok b0" using txb_ok_setLockTime [OF txb_ok_new b(1)] .
  from b(2) this have "txb_ok b1"
    by (rule foldE_invariant) (auto elim!: txb_addOutput_cases simp: txb_ok_def txout_valid_def)
  from b(3) this have "txb_ok b2"
    by (rule foldE_invariant) (auto dest: txb_ok_addInputUnsafe)
  then show ?thesis using b(4) by (simp add: b(5) txb_ok_def)
qed

subsection \<open>The signatures\<close>

definition held :: "txb_input \<Rightarrow> nat \<Rightarrow> buffer \<Rightarrow> bool" where
  "held inp j s \<longleftrightarrow> (\<exists>sigs. inp_signatures inp = Some sigs \<and> j < length sigs \<and> sigs ! j = Some (Data s))"

text \<open>The bytes \<open>s\<close> parse as a signature that the public key of the same slot verifies on the digest of the
  transaction for this input, its script, some amount and the hash type of the signature.\<close>

definition signature_verifies :: "'p lib \<Rightarrow> transaction \<Rightarrow> nat \<Rightarrow> txb_input \<Rightarrow> nat \<Rightarrow> buffer \<Rightarrow> bool" where
  "signature_verifies lib tx vin inp j s \<longleftrightarrow>
     (\<exists>keys k kp sig ht script junk amount hash.
        inp_pubKeys inp = Some keys \<and> j < length keys \<and> keys ! j = Some (Data k) \<and> fromPublicKeyBuffer lib k None = Inr kp \<and>
        parseScriptSignature (lib_bigi lib) (lib_bip66 lib) s = Inr (sig, ht) \<and> inp_signScript inp = Some script \<and>
        hashForCashSignature (lib_hashes lib) (lib_varuint lib) junk tx vin script (Some amount) (Some ht) = Inr hash \<and>
        ecpair_verify lib kp hash sig = Inr True)"

definition input_signed :: "'p lib \<Rightarrow> transaction \<Rightarrow> nat \<Rightarrow> txb_input \<Rightarrow> bool" where
  "input_signed lib tx vin inp \<longleftrightarrow> (\<forall>j s. held inp j s \<longrightarrow> signature_verifies lib tx vin inp j s)"

definition txb_signed :: "'p lib \<Rightarrow> transaction \<Rightarrow> txb \<Rightarrow> bool" where
  "txb_signed lib tx b \<longleftrightarrow> (\<forall>vin < length (txb_inputs b). input_signed lib tx vin (txb_inputs b ! vin))"

lemma parse_hashType: "parseScriptSignature bi b66 s = Inr (sig, ht) \<Longrightarrow> s \<noteq> [] \<and> ht = int (unat (last s))"
  by (auto simp: parseScriptSignature_def readUInt8_eq last_conv_nth Let_def split: if_splits simp del: of_nat_unat)

lemma cash_scope:
  assumes "sighash_covers ht i tx = sighash_covers ht i tx'" "i < length (tx_ins tx)" "i < length (tx_ins tx')"
  shows "hashForCashSignature h v junk tx i s amount (Some ht) = hashForCashSignature h v junk tx' i s amount (Some ht)"
  using hashForWitnessV0_scope [OF assms] hashForSignature_scope [OF assms]
  by (simp add: hashForCashSignature_def split: option.splits)

text \<open>A change that the hash type of a signature does not cover keeps the signature valid.\<close>

lemma signature_verifies_scope:
  assumes "signature_verifies lib tx vin inp j s" "vin < length (tx_ins tx)" "vin < length (tx_ins tx')"
    and "s \<noteq> [] \<Longrightarrow> sighash_covers (int (unat (last s))) vin tx = sighash_covers (int (unat (last s))) vin tx'"
  shows "signature_verifies lib tx' vin inp j s"
proof -
  obtain keys k kp sig ht script junk amount hash where
    *: "inp_pubKeys inp = Some keys" "j < length keys" "keys ! j = Some (Data k)" "fromPublicKeyBuffer lib k None = Inr kp"
      "parseScriptSignature (lib_bigi lib) (lib_bip66 lib) s = Inr (sig, ht)" "inp_signScript inp = Some script"
      "hashForCashSignature (lib_hashes lib) (lib_varuint lib) junk tx vin script (Some amount) (Some ht) = Inr hash"
      "ecpair_verify lib kp hash sig = Inr True"
    using assms(1) unfolding signature_verifies_def by blast
  have "sighash_covers ht vin tx = sighash_covers ht vin tx'"
    using assms(4) parse_hashType [OF *(5)] by blast
  from cash_scope [OF this assms(2,3)] *(7)
  have "hashForCashSignature (lib_hashes lib) (lib_varuint lib) junk tx' vin script (Some amount) (Some ht) = Inr hash" by simp
  with *(1-6,8) show ?thesis unfolding signature_verifies_def by blast
qed

lemma txb_signed_scope:
  assumes "txb_signed lib tx b" "txb_inputs b' = txb_inputs b" "length (txb_inputs b) \<le> length (tx_ins tx)"
    "length (tx_ins tx) \<le> length (tx_ins tx')"
    and "\<And>vin j s. vin < length (txb_inputs b) \<Longrightarrow> held (txb_inputs b ! vin) j s \<Longrightarrow> s \<noteq> [] \<Longrightarrow>
      sighash_covers (int (unat (last s))) vin tx = sighash_covers (int (unat (last s))) vin tx'"
  shows "txb_signed lib tx' b'"
  unfolding txb_signed_def input_signed_def
proof (intro allI impI)
  fix vin j s assume vin: "vin < length (txb_inputs b')" and held: "held (txb_inputs b' ! vin) j s"
  have len: "vin < length (tx_ins tx)" "vin < length (tx_ins tx')" using vin assms(2-4) by simp_all
  have "signature_verifies lib tx vin (txb_inputs b ! vin) j s"
    using assms(1,2) vin held by (simp add: txb_signed_def input_signed_def)
  from signature_verifies_scope [OF this len] show "signature_verifies lib tx' vin (txb_inputs b' ! vin) j s"
    using assms(5) [of vin j s] vin held assms(2) by simp
qed

lemma everyE_True: "everyE p xs = Inr True \<longleftrightarrow> (\<forall>x \<in> set xs. p x = Inr True)"
  by (induction xs) auto

lemma every_signature_held:
  assumes "every_signature ok b = Inr True" "vin < length (txb_inputs b)" "held (txb_inputs b ! vin) j s"
  shows "s \<noteq> [] \<and> ok (int (unat (last s)))"
proof -
  let ?inp = "txb_inputs b ! vin"
  obtain sigs where sigs: "inp_signatures ?inp = Some sigs" "j < length sigs" "sigs ! j = Some (Data s)"
    using assms(3) by (auto simp: held_def)
  have "?inp \<in> set (txb_inputs b)" using assms(2) by simp
  with assms(1) sigs(1) have "everyE (\<lambda>signature. if \<not> truthy signature then Inr True
      else bindE (signatureHashType (the signature)) (\<lambda>hashType. Inr (ok hashType))) sigs = Inr True"
    by (fastforce simp: every_signature_def everyE_True)
  moreover have "Some (Data s) \<in> set sigs" using sigs(2,3) by (metis nth_mem)
  ultimately have "bindE (signatureHashType (Data s)) (\<lambda>hashType. Inr (ok hashType)) = Inr True"
    unfolding everyE_True by fastforce
  then show ?thesis
    by (auto simp: signatureHashType_def readUInt8_eq last_conv_nth split: if_splits simp del: of_nat_unat)
qed

lemma covers_addInput:
  "anyone_can_pay ht \<Longrightarrow> i < length (tx_ins tx) \<Longrightarrow>
     sighash_covers ht i (tx\<lparr>tx_ins := tx_ins tx @ xs\<rparr>) = sighash_covers ht i tx"
  by (simp add: sighash_covers_def covered_ins_def covered_outs_def nth_append)

lemma covers_addOutput:
  assumes "js_and ht 0x1f = SIGHASH_NONE \<or> js_and ht 0x1f = SIGHASH_SINGLE \<and> i < length (tx_outs tx)"
  shows "sighash_covers ht i (tx\<lparr>tx_outs := tx_outs tx @ xs\<rparr>) = sighash_covers ht i tx"
  using assms by (auto simp: sighash_covers_def covered_ins_def covered_outs_def commits_all_def nth_append)

lemma held_None [simp]: "inp_signatures inp = None \<Longrightarrow> \<not> held inp j s"
  "inp_signatures inp = map_option (map (\<lambda>_. None)) keys \<Longrightarrow> \<not> held inp j s"
  by (auto simp: held_def)

lemma derive_input_fresh:
  assumes "derive_input lib options = Inr inp" "opt_script options = None"
  shows "\<not> held inp j s"
  using assms
  by (auto simp: derive_input_def empty_input_def held_def exp_signatures_def Let_def split: option.splits if_splits)

lemma prepareInput_fresh:
  assumes "prepareInput lib inp kpPubKey redeemScript witnessScript = Inr inp'"
  shows "inp' = inp \<or> (\<forall>j s. \<not> held inp' j s)"
proof (cases "prepare lib inp kpPubKey redeemScript witnessScript")
  case (Inr p)
  show ?thesis
  proof (cases p)
    case (Some q)
    have "inp_signatures inp' = exp_signatures (prep_expanded q)" using assms Inr Some by (auto simp: prepareInput_def)
    then show ?thesis by (simp add: exp_signatures_def)
  qed (use assms Inr in \<open>simp add: prepareInput_def\<close>)
qed (use assms in \<open>simp add: prepareInput_def\<close>)

lemma input_signed_value: "input_signed lib tx vin (inp\<lparr>inp_value := v\<rparr>) \<longleftrightarrow> input_signed lib tx vin inp"
  by (simp add: input_signed_def held_def signature_verifies_def)

lemma input_signed_prepare:
  assumes "input_signed lib tx vin inp" "prepareInput lib inp kpPubKey redeemScript witnessScript = Inr inp'"
  shows "input_signed lib tx vin inp'"
  using prepareInput_fresh [OF assms(2)] assms(1) by (auto simp: input_signed_def)

lemma sign_ready_signed:
  assumes "input_signed lib tx vin inp" "sign_ready lib inp kpPubKey redeemScript witnessValue witnessScript = (inp', r)"
  shows "input_signed lib tx vin inp' \<and> (r = Inr () \<longrightarrow> canSign inp')"
proof -
  have v: "input_signed lib tx vin (inp\<lparr>inp_value := x\<rparr>)" for x using assms(1) by (simp add: input_signed_value)
  note prep = input_signed_prepare [OF assms(1)] input_signed_prepare [OF v]
  show ?thesis
    using assms v prep by (auto simp: sign_ready_def Let_def split: if_splits option.splits sum.splits)
qed

lemma sign_slot_result:
  "sign_slot f k i keys = Some (Inr (Some (j, s))) \<Longrightarrow>
     i \<le> j \<and> j < i + length keys \<and> keys ! (j - i) = Some (Data k) \<and> f j = Some (Inr s)"
proof (induction keys arbitrary: i)
  case (Cons key keys)
  then obtain k' where key: "key = Some (Data k')" by (auto split: option.splits chunk.splits)
  show ?case
  proof (cases "k = k'")
    case True
    then show ?thesis using Cons.prems key by auto
  next
    case False
    then have "sign_slot f k (i + 1) keys = Some (Inr (Some (j, s)))" using Cons.prems key by simp
    from Cons.IH [OF this] show ?thesis by (auto simp: nth_Cons split: nat.splits) (metis Suc_diff_Suc Suc_le_lessD nat.inject)
  qed
qed simp

text \<open>The key pairs that the invariant is about: pairs with a private key, signing with ECDSA.\<close>

definition ecdsa_keys :: "'p lib \<Rightarrow> signer \<Rightarrow> int option \<Rightarrow> bool" where
  "ecdsa_keys lib keyPair algorithm \<longleftrightarrow> algorithm \<noteq> Some ECSignature_SCHNORR \<and>
     (\<exists>d c net kp. new_ECPair lib (Some d) None c net = Inr kp \<and> keyPair = ecpair_signer lib kp)"

context key_lib
begin

lemma ecpair_key:
  assumes "ecdsa_keys lib keyPair algorithm"
    "(case kp_publicKey keyPair of Some k \<Rightarrow> Inr k | None \<Rightarrow> kp_getPublicKeyBuffer keyPair) = Inr k"
    "kp_sign keyPair hash algorithm = Some (Inr (Some sv))"
  obtains sig pub where "sv = Signed sig" "fromPublicKeyBuffer lib k None = Inr pub" "ecpair_verify lib pub hash sig = Inr True"
    "0 \<le> sig_r sig" "sig_r sig < 2 ^ 256" "0 \<le> sig_s sig" "sig_s sig < 2 ^ 256"
proof -
  from assms(1) obtain d c net kp where alg: "algorithm \<noteq> Some ECSignature_SCHNORR"
    and kp: "new_ECPair lib (Some d) None c net = Inr kp" "keyPair = ecpair_signer lib kp"
    by (auto simp: ecdsa_keys_def)
  from kp(1) have d: "0 < d" "d < c_n (lib_curve lib)" "ec_d kp = Some d" "ec_Q kp = None"
    by (auto simp: new_ECPair_def assertE_def Let_def split: if_splits)
  have k: "k = c_getEncoded (lib_curve lib) (point d) (ec_compressed kp)"
    using assms(2) d by (simp add: kp(2) ecpair_signer_def getPublicKeyBuffer_def ecpair_Q_def)
  have "d mod c_n (lib_curve lib) \<noteq> 0" "0 \<le> d" using d by simp_all
  from encoded [OF this(2,1) refl] have pub: "fromPublicKeyBuffer lib k None =
      Inr \<lparr>ec_d = None, ec_Q = Some (point d), ec_compressed = ec_compressed kp, ec_network = network_bitcoin\<rparr>"
    by (simp add: k fromPublicKeyBuffer_def new_ECPair_def assertE_def)
  obtain sig where sig: "sv = Signed sig" "ecdsa_sign (lib_hmacs lib) (lib_bigi lib) (lib_curve lib) hash d = Some (Inr sig)"
    using assms(3) d alg by (auto simp: kp(2) ecpair_signer_def ecpair_sign_def Let_def split: if_splits option.splits)
  note v = ec.ecdsa_sign_verifies [OF less_imp_le [OF d(1)] sig(2)]
  have "c_n (lib_curve lib) div 2 < 2 ^ 256" using order_256 ec.order by linarith
  with v order_256 show thesis
    by (intro that [OF sig(1) pub]) (simp_all add: ecpair_verify_def ecpair_Q_def)
qed

lemma sign_input_signed:
  assumes "ecdsa_keys lib keyPair algorithm"
    "(case kp_publicKey keyPair of Some k \<Rightarrow> Inr k | None \<Rightarrow> kp_getPublicKeyBuffer keyPair) = Inr k"
    "canSign inp" "input_signed lib tx vin inp"
    "sign_input lib junk tx vin keyPair k ht witnessValue algorithm inp = Some (inp', r)"
  shows "input_signed lib tx vin inp'"
proof -
  obtain keys sigs script where inp: "inp_pubKeys inp = Some keys" "inp_signatures inp = Some sigs" "length sigs = length keys"
    "inp_signScript inp = Some script"
    using assms(3) by (auto simp: canSign_def split: option.splits)
  show ?thesis
  proof (cases "inp' = inp")
    case False
    obtain hash i s where h: "hashForCashSignature (lib_hashes lib) (lib_varuint lib) junk tx vin script witnessValue (Some ht) = Inr hash"
      and slot: "sign_slot (make_signature lib keyPair k inp hash ht algorithm) k 0 keys = Some (Inr (Some (i, s)))"
      and inp': "inp' = inp\<lparr>inp_signatures := Some (sigs[i := Some (Data s)])\<rparr>"
    proof -
      obtain hash where h: "hashForCashSignature (lib_hashes lib) (lib_varuint lib) junk tx vin script witnessValue (Some ht) = Inr hash"
        using assms(5) False by (auto simp: sign_input_def inp split: sum.splits)
      let ?slot = "sign_slot (make_signature lib keyPair k inp hash ht algorithm) k 0 keys"
      obtain z where z: "?slot = Some z" using assms(5) h by (auto simp: sign_input_def inp)
      show thesis
      proof (cases z)
        case (Inr q)
        show thesis
        proof (cases q)
          case (Some p)
          then show thesis using assms(5) h z Inr that by (cases p) (simp add: sign_input_def inp)
        qed (use assms(5) False h z Inr in \<open>simp add: sign_input_def inp\<close>)
      qed (use assms(5) False h z in \<open>simp add: sign_input_def inp\<close>)
    qed
    obtain amount where amount: "witnessValue = Some amount"
      using h by (cases witnessValue) (auto simp: hashForCashSignature_def assertE_def)
    from sign_slot_result [OF slot] have i: "i < length keys" "keys ! i = Some (Data k)"
      and sig: "make_signature lib keyPair k inp hash ht algorithm i = Some (Inr s)" by auto
    obtain sv where signed: "kp_sign keyPair hash algorithm = Some (Inr (Some sv))"
      and s: "bindE (case sv of SignedRS b \<Rightarrow> fromRSBuffer (lib_bigi lib) b | Signed s \<Rightarrow> Inr s) (\<lambda>signature.
          toScriptSignature (lib_bigi lib) (lib_bip66 lib) signature ht algorithm) = Inr s"
      using sig by (auto simp: make_signature_def split: if_splits option.splits)
    from ecpair_key [OF assms(1,2) signed] obtain e pub where e: "sv = Signed e" "fromPublicKeyBuffer lib k None = Inr pub"
      "ecpair_verify lib pub hash e = Inr True" "0 \<le> sig_r e" "sig_r e < 2 ^ 256" "0 \<le> sig_s e" "sig_s e < 2 ^ 256" .
    have parse: "parseScriptSignature (lib_bigi lib) (lib_bip66 lib) s = Inr (e, ht)"
      using sc.script_signature(3) [OF _ e(4-7), of ht algorithm s] s e(1) assms(1) by (simp add: ecdsa_keys_def)
    have new: "signature_verifies lib tx vin inp' i s"
      unfolding signature_verifies_def inp'
      using inp i e(2,3) parse h amount by (intro exI [of _ keys] exI [of _ k] exI [of _ pub] exI [of _ e] exI [of _ ht]
          exI [of _ script] exI [of _ junk] exI [of _ amount] exI [of _ hash]) simp
    have old: "signature_verifies lib tx vin inp' j t" if "held inp j t" for j t
      using assms(4) that by (auto simp: inp' input_signed_def signature_verifies_def)
    show ?thesis
      unfolding input_signed_def
    proof (intro allI impI)
      fix j t assume "held inp' j t"
      then consider "j = i" "t = s" | "held inp j t"
        using i(1) inp(2,3) by (cases "j = i") (auto simp: held_def inp')
      then show "signature_verifies lib tx vin inp' j t" by cases (use new old in auto)
    qed
  qed (use assms(4) in simp)
qed

lemma txb_signed_step:
  assumes "txb_step lib (ecdsa_keys lib) b b'" "txb_ok b" "txb_signed lib (txb_tx b) b"
  shows "txb_signed lib (txb_tx b') b'"
  using assms
proof (induction rule: txb_step.induct)
  case (step_setLockTime b locktime b')
  note b' = setLockTime_cases [OF step_setLockTime(1)]
  have "\<not> held (txb_inputs b ! vin) j s" if "vin < length (txb_inputs b)" for vin j s
  proof
    assume "held (txb_inputs b ! vin) j s"
    then have "has_signature (txb_inputs b ! vin)" by (force simp: held_def has_signature_def list_ex_iff in_set_conv_nth intro!: bexI [of _ "Some (Data s)"])
    then show False using b'(3) that by (auto simp: list_ex_length)
  qed
  then show ?case by (simp add: txb_signed_def input_signed_def b'(1))
next
  case (step_addInput b txHash vout sequence prevOutScript vin b')
  obtain h options where add: "canModifyInputs b = Inr True" "addInputUnsafe lib b h vout options = Inr (vin, b')" "opt_script options = None"
    using step_addInput(1) by (rule txb_addInput_cases)
  obtain inp where inp: "derive_input lib options = Inr inp" "vin = length (tx_ins (txb_tx b))"
    "b' = b\<lparr>txb_tx := (txb_tx b)\<lparr>tx_ins := tx_ins (txb_tx b) @ [new_txin h vout (opt_sequence options)]\<rparr>,
       txb_inputs := array_set (txb_inputs b) vin inp, txb_prevTxMap := (txb_prevTxMap b)(outpoint_key h vout \<mapsto> vin)\<rparr>"
    using add(2) by (rule addInputUnsafe_cases)
  have len: "length (txb_inputs b) = length (tx_ins (txb_tx b))" using step_addInput(2) by (simp add: txb_ok_def)
  have "txb_signed lib (txb_tx b') b"
  proof (rule txb_signed_scope [OF step_addInput(3)])
    fix i j s assume i: "i < length (txb_inputs b)" "held (txb_inputs b ! i) j s"
    then have "anyone_can_pay (int (unat (last s)))"
      using every_signature_held [OF add(1) [unfolded canModifyInputs_def] i] by (simp add: anyone_can_pay_def)
    then show "sighash_covers (int (unat (last s))) i (txb_tx b) = sighash_covers (int (unat (last s))) i (txb_tx b')"
      using covers_addInput i(1) len by (simp add: inp(3))
  qed (simp_all add: len inp(3))
  then show ?case
    using derive_input_fresh [OF inp(1) add(3)] len
    by (auto simp: txb_signed_def inp(2,3) array_set_def nth_append input_signed_def)
next
  case (step_addOutput b scriptPubKey amount n b')
  obtain script a where out: "canModifyOutputs b = Inr True"
    "b' = b\<lparr>txb_tx := (txb_tx b)\<lparr>tx_outs := tx_outs (txb_tx b) @ [\<lparr>out_script = script, out_value = Some a, out_valueBuffer = None\<rparr>]\<rparr>\<rparr>"
    using step_addOutput(1) by (rule txb_addOutput_cases)
  have len: "length (txb_inputs b) = length (tx_ins (txb_tx b))" using step_addOutput(2) by (simp add: txb_ok_def)
  show ?case
  proof (rule txb_signed_scope [OF step_addOutput(3)])
    fix i j s assume i: "i < length (txb_inputs b)" "held (txb_inputs b ! i) j s"
    let ?ht = "int (unat (last s))"
    from every_signature_held [OF out(1) [unfolded canModifyOutputs_def Let_def] i] i(1) len
    have "js_and ?ht 0x1f = SIGHASH_NONE \<or> js_and ?ht 0x1f = SIGHASH_SINGLE \<and> i < length (tx_outs (txb_tx b))"
      by (auto split: if_splits simp del: of_nat_unat)
    then show "sighash_covers ?ht i (txb_tx b) = sighash_covers ?ht i (txb_tx b')"
      using covers_addOutput by (simp add: out(2))
  qed (simp_all add: len out(2))
next
  case (step_sign keyPair algorithm junk b vin redeemScript hashType witnessValue witnessScript b' r)
  have one: "txb_signed lib (txb_tx b) (set_input b vin inp)" if "input_signed lib (txb_tx b) vin inp" for inp
    using step_sign(4) that by (cases "vin < length (txb_inputs b)") (auto simp: txb_signed_def set_input_def nth_list_update)
  have old: "vin < length (txb_inputs b) \<Longrightarrow> input_signed lib (txb_tx b) vin (txb_inputs b ! vin)"
    using step_sign(4) by (simp add: txb_signed_def)
  have tx: "txb_tx (set_input b vin inp) = txb_tx b" for inp by (simp add: set_input_def)
  from step_sign(2) show ?case
  proof (cases rule: txb_sign_cases)
    case (unchanged e)
    then show ?thesis using step_sign(4) by simp
  next
    case (not_ready k inp e)
    then show ?thesis using one tx sign_ready_signed [OF old] by auto
  next
    case (ready k inp inp' ht)
    from sign_ready_signed [OF old [OF ready(1)] ready(3)] have inp: "input_signed lib (txb_tx b) vin inp" "canSign inp" by auto
    from sign_input_signed [OF step_sign(1) ready(2) inp(2,1) ready(4)] show ?thesis using one tx ready(6) by simp
  qed
qed

lemma txb_signed_steps:
  assumes "txb_steps lib (ecdsa_keys lib) (new_TransactionBuilder network rate) b"
  shows "txb_signed lib (txb_tx b) b"
  using assms
proof (induction rule: rtranclp_induct)
  case base
  show ?case by (simp add: txb_signed_def new_TransactionBuilder_def)
next
  case (step b b')
  from txb_signed_step [OF step(2) txb_ok_steps [OF step(1) txb_ok_new] step(3)] show ?case .
qed

end

subsection \<open>Building\<close>

text \<open>What the steps of \<open>build\<close> keep of the transaction.\<close>

definition same_frame :: "transaction \<Rightarrow> transaction \<Rightarrow> bool" where
  "same_frame tx tx' \<longleftrightarrow> tx_version tx' = tx_version tx \<and> tx_locktime tx' = tx_locktime tx \<and> tx_outs tx' = tx_outs tx \<and>
     map (\<lambda>i. (in_hash i, in_index i, in_sequence i)) (tx_ins tx') = map (\<lambda>i. (in_hash i, in_index i, in_sequence i)) (tx_ins tx)"

lemma same_frame_refl: "same_frame tx tx"
  by (simp add: same_frame_def)

lemma same_frame_length: "same_frame tx tx' \<Longrightarrow> length (tx_ins tx') = length (tx_ins tx)"
  by (auto simp: same_frame_def dest: map_eq_imp_length_eq)

lemma same_frame_nth:
  assumes "same_frame tx tx'" "i < length (tx_ins tx)"
  shows "in_hash (tx_ins tx' ! i) = in_hash (tx_ins tx ! i) \<and> in_index (tx_ins tx' ! i) = in_index (tx_ins tx ! i) \<and>
    in_sequence (tx_ins tx' ! i) = in_sequence (tx_ins tx ! i)"
proof -
  let ?f = "\<lambda>i. (in_hash i, in_index i, in_sequence i)"
  have "map ?f (tx_ins tx') ! i = map ?f (tx_ins tx) ! i" using assms(1) by (simp add: same_frame_def)
  then show ?thesis using assms(2) same_frame_length [OF assms(1)] by simp
qed

lemma covers_frame:
  assumes "same_frame tx tx'" "i < length (tx_ins tx)"
  shows "sighash_covers ht i tx = sighash_covers ht i tx'"
proof -
  have "covered_ins ht i tx = covered_ins ht i tx'"
    using same_frame_nth [OF assms(1)] same_frame_length [OF assms(1)] assms(2)
    by (auto simp: covered_ins_def intro!: nth_equalityI)
  then show ?thesis using assms(1) by (simp add: sighash_covers_def same_frame_def covered_outs_def)
qed

lemma same_frame_update:
  "same_frame tx (tx\<lparr>tx_ins := (tx_ins tx)[i := (tx_ins tx ! i)\<lparr>in_script := s, in_witness := w\<rparr>]\<rparr>)"
  by (cases "i < length (tx_ins tx)") (simp_all add: same_frame_def map_update list_update_beyond list_update_same_conv)

definition input_built :: "'p lib \<Rightarrow> bool \<Rightarrow> txb_input \<Rightarrow> txin \<Rightarrow> bool" where
  "input_built lib allowIncomplete inp txIn \<longleftrightarrow> (\<exists>r. buildInput lib inp allowIncomplete = Inr r \<and>
     in_script txIn = built_script r \<and> map Data (in_witness txIn) = built_witness r \<and>
     (\<not> allowIncomplete \<longrightarrow> input_scriptType inp \<noteq> None \<and> (supportedType (built_type r) \<or> built_type r = Some P2WPKH)))"

lemma witness_buffers: "mapE (\<lambda>c. case c of Data b \<Rightarrow> Inr b | Op _ \<Rightarrow> Inl e) cs = Inr bs \<Longrightarrow> cs = map Data bs"
  by (induction cs arbitrary: bs) (auto split: chunk.splits)

lemma build_step_cases:
  assumes "build_step lib allowIncomplete tx (i, inp) = Inr tx'"
  obtains s w where "i < length (tx_ins tx)" "tx' = tx\<lparr>tx_ins := (tx_ins tx)[i := (tx_ins tx ! i)\<lparr>in_script := s, in_witness := w\<rparr>]\<rparr>"
    "\<And>txIn. in_script txIn = s \<Longrightarrow> in_witness txIn = w \<Longrightarrow> input_built lib allowIncomplete inp txIn"
proof -
  from assms obtain r tx1 w where r: "buildInput lib inp allowIncomplete = Inr r" "setInputScript tx i (built_script r) = Inr tx1"
    "mapE (\<lambda>c. case c of Data b \<Rightarrow> Inr b | Op _ \<Rightarrow> Inl typeforce_error) (built_witness r) = Inr w" "setWitness tx1 i w = Inr tx'"
    "\<not> allowIncomplete \<longrightarrow> input_scriptType inp \<noteq> None \<and> (supportedType (built_type r) \<or> built_type r = Some P2WPKH)"
    by (auto simp: build_step_def split: if_splits)
  then have "i < length (tx_ins tx)" "tx' = tx\<lparr>tx_ins := (tx_ins tx)[i := (tx_ins tx ! i)\<lparr>in_script := built_script r, in_witness := w\<rparr>]\<rparr>"
    by (auto simp: setInputScript_def setWitness_def split: if_splits)
  moreover have "built_witness r = map Data w" using witness_buffers [OF r(3)] .
  ultimately show thesis using r(1,5) by (intro that) (auto simp: input_built_def)
qed

lemma build_fold:
  "foldE (build_step lib allowIncomplete) tx (List.enumerate n inputs) = Inr tx' \<Longrightarrow>
     same_frame tx tx' \<and> (\<forall>k < n. tx_ins tx' ! k = tx_ins tx ! k) \<and>
     (\<forall>k < length inputs. n + k < length (tx_ins tx) \<and> input_built lib allowIncomplete (inputs ! k) (tx_ins tx' ! (n + k)))"
proof (induction inputs arbitrary: n tx)
  case (Cons inp inputs)
  then obtain tx1 where tx1: "build_step lib allowIncomplete tx (n, inp) = Inr tx1"
    "foldE (build_step lib allowIncomplete) tx1 (List.enumerate (Suc n) inputs) = Inr tx'" by auto
  obtain s w where sw: "n < length (tx_ins tx)" "tx1 = tx\<lparr>tx_ins := (tx_ins tx)[n := (tx_ins tx ! n)\<lparr>in_script := s, in_witness := w\<rparr>]\<rparr>"
    "\<And>txIn. in_script txIn = s \<Longrightarrow> in_witness txIn = w \<Longrightarrow> input_built lib allowIncomplete inp txIn"
    using tx1(1) by (rule build_step_cases) blast
  note IH = Cons.IH [OF tx1(2)]
  have "same_frame tx tx'" using IH same_frame_update [where tx = tx and i = n and s = s and w = w] sw(2) by (simp add: same_frame_def)
  moreover have "input_built lib allowIncomplete inp (tx_ins tx' ! n)" using IH sw by simp
  moreover have "n + k < length (tx_ins tx) \<and> input_built lib allowIncomplete ((inp # inputs) ! k) (tx_ins tx' ! (n + k))"
    if "k < length (inp # inputs)" for k
    using that IH sw(1,2) \<open>input_built lib allowIncomplete inp (tx_ins tx' ! n)\<close> by (cases k) auto
  ultimately show ?case using IH sw(2) by simp
qed (simp add: same_frame_refl)

lemma clone_valid: "list_all txout_valid (tx_outs tx) \<Longrightarrow> clone tx = tx"
  by (cases tx) (auto simp: clone_def list_all_iff txout_valid_def intro!: map_idI)

lemma txb_build_cases:
  assumes "txb_ok b" "txb_build lib allowIncomplete b = Inr tx"
  shows "same_frame (txb_tx b) tx"
    and "\<And>k. k < length (txb_inputs b) \<Longrightarrow> input_built lib allowIncomplete (txb_inputs b ! k) (tx_ins tx ! k)"
    and "\<not> allowIncomplete \<Longrightarrow> tx_ins tx \<noteq> [] \<and> tx_outs tx \<noteq> [] \<and> \<not> overMaximumFees b (virtualSize (lib_varuint lib) tx)"
proof -
  have f: "foldE (build_step lib allowIncomplete) (txb_tx b) (List.enumerate 0 (txb_inputs b)) = Inr tx"
    and c: "\<not> allowIncomplete \<Longrightarrow> tx_ins (txb_tx b) \<noteq> [] \<and> tx_outs (txb_tx b) \<noteq> [] \<and> \<not> overMaximumFees b (virtualSize (lib_varuint lib) tx)"
    using assms clone_valid [of "txb_tx b"] by (auto simp: txb_build_def txb_ok_def split: if_splits)
  note * = build_fold [OF f]
  then show frame: "same_frame (txb_tx b) tx" by blast
  show "\<And>k. k < length (txb_inputs b) \<Longrightarrow> input_built lib allowIncomplete (txb_inputs b ! k) (tx_ins tx ! k)" using * by simp
  show "\<not> allowIncomplete \<Longrightarrow> tx_ins tx \<noteq> [] \<and> tx_outs tx \<noteq> [] \<and> \<not> overMaximumFees b (virtualSize (lib_varuint lib) tx)"
    using c same_frame_length [OF frame] frame by (auto simp: same_frame_def)
qed

lemma txb_signed_build:
  assumes "txb_ok b" "txb_signed lib (txb_tx b) b" "txb_build lib allowIncomplete b = Inr tx"
  shows "txb_signed lib tx b"
proof (rule txb_signed_scope [OF assms(2) refl])
  note frame = txb_build_cases(1) [OF assms(1,3)]
  have len: "length (txb_inputs b) = length (tx_ins (txb_tx b))" using assms(1) by (simp add: txb_ok_def)
  then show "length (txb_inputs b) \<le> length (tx_ins (txb_tx b))" by simp
  show "length (tx_ins (txb_tx b)) \<le> length (tx_ins tx)" using same_frame_length [OF frame] by simp
  fix vin j and s :: buffer assume "vin < length (txb_inputs b)"
  then show "sighash_covers (int (unat (last s))) vin (txb_tx b) = sighash_covers (int (unat (last s))) vin tx"
    using covers_frame [OF frame] len by simp
qed

subsection \<open>A sample run\<close>

text \<open>One output, one input that pays to the hash of the key with the private key 1, and its signature, over
  the stand-in library.\<close>

definition sample_key :: buffer where
  "sample_key = 2 # replicate 31 0 @ [1]"

definition sample_script :: buffer where
  "sample_script = [0x76, 0xa9, 0x14] @ take 20 sample_key @ [0x88, 0xac]"

definition sample_known :: txb_input where
  "sample_known = empty_input\<lparr>inp_pubKeys := Some [], inp_signatures := Some [], inp_prevOutScript := Some sample_script,
     inp_prevOutType := Some P2PKH\<rparr>"

definition sample_ready :: txb_input where
  "sample_ready = sample_known\<lparr>inp_value := Some 1000, inp_pubKeys := Some [Some (Data sample_key)], inp_signatures := Some [None],
     inp_signType := Some P2PKH, inp_signScript := Some sample_script, inp_witness := Some False\<rparr>"

definition sample_signature :: buffer where
  "sample_signature = [3, 0, 0, 0, 0, 0x41]"

definition sample_signed :: txb_input where
  "sample_signed = sample_ready\<lparr>inp_signatures := Some [Some (Data sample_signature)]\<rparr>"

definition sample_spend :: transaction where
  "sample_spend = \<lparr>tx_version = 2, tx_locktime = 0, tx_ins = [new_txin (replicate 32 7) 0 None],
     tx_outs = [\<lparr>out_script = [0x51], out_value = Some 1000, out_valueBuffer = None\<rparr>]\<rparr>"

definition sample_hash :: buffer where
  "sample_hash = [2, 0, 0, 0, 7, 7, 7, 7, 7, 7, 7, 7, 7, 7, 7, 7, 7, 7, 7, 7, 7, 7, 7, 7, 7, 7, 7, 7, 7, 7, 7, 7]"

definition sample_txb :: "txb_input \<Rightarrow> txb" where
  "sample_txb inp = \<lparr>txb_prevTxMap = [outpoint_key (replicate 32 7) 0 \<mapsto> 0], txb_network = network_bitcoin,
     txb_maximumFeeRate = 2500, txb_inputs = [inp], txb_bitcoinCash = True, txb_tx = sample_spend\<rparr>"

definition sample_pair :: "int ecpair" where
  "sample_pair = \<lparr>ec_d = Some 1, ec_Q = None, ec_compressed = True, ec_network = network_bitcoin\<rparr>"

lemma sample_derive: "derive_input lib7 \<lparr>opt_sequence = None, opt_script = None, opt_witness = [],
    opt_prevOutScript = Some sample_script, opt_value = None\<rparr> = Inr sample_known"
  by code_simp

lemma sample_sign_ready: "sign_ready lib7 sample_known sample_key None (Some 1000) None = (sample_ready, Inr ())"
  by code_simp

lemma sample_hash: "hashForCashSignature padded_hashes compactSize_varuint junk sample_spend 0 sample_script (Some 1000) (Some 0x41) =
    Inr sample_hash"
proof -
  have ok: "tx_ok sample_spend" "list_all txout_plain (tx_outs sample_spend)"
    by (simp_all add: sample_spend_def tx_ok_def txin_ok_def txout_ok_def txout_plain_def new_txin_def varslice_ok_def
        types_UInt32_def types_UInt53_def vector_ok_def)
  have mode: "\<not> anyone_can_pay 0x41" "js_and 0x41 SIGHASH_BITCOINCASHBIP143 \<noteq> 0" by code_simp+
  have "replicate 28 (7 :: byte) = [7, 7, 7, 7, 7, 7, 7, 7, 7, 7, 7, 7, 7, 7, 7, 7, 7, 7, 7, 7, 7, 7, 7, 7, 7, 7, 7, 7]" by (simp add: numeral_eq_Suc)
  then have "hash256 padded_hashes (bip143_preimage padded_hashes sample_spend 0 sample_script 1000 0x41) = sample_hash"
    by (simp add: bip143_preimage_def msg_prevouts_def mode hash256_def padded_hashes_def digest_def sample_spend_def
        sample_hash_def le_bytes_numeral outpoint_bytes_def new_txin_def)
  moreover have "hashForWitnessV0 padded_hashes compactSize_varuint junk sample_spend 0 sample_script 1000 0x41 =
      Inr (hash256 padded_hashes (bip143_preimage padded_hashes sample_spend 0 sample_script 1000 0x41))"
    by (rule sg.hashForWitnessV0_bytes [OF ok])
      (simp_all add: sample_spend_def sample_script_def sample_key_def varslice_ok_def types_UInt32_def types_Satoshi_def types_UInt53_def)
  ultimately show ?thesis
    by (simp add: hashForCashSignature_def mode(2) types_UInt32_def types_UInt53_def)
qed

lemma sample_ecdsa: "ecdsa_sign (const_hmacs 3) unary_bigi ring7 sample_hash 1 = Some (Inr \<lparr>sig_r = 3, sig_s = 1\<rparr>)"
proof -
  let ?e = "904625697906609744080195295135939400139504754084473812275062403954861606663"
  have e: "bi_fromBuffer unary_bigi sample_hash = ?e" by (simp add: sample_hash_def unary_bigi_def be_nat_def)
  have "bi_modInverse unary_bigi 3 7 = 5" by code_simp
  then have a: "ecdsa_attempt unary_bigi ring7 ?e 1 3 = Some (3, 6)"
    by (simp add: ecdsa_attempt_def ring7_simps Let_def)
  let ?x = "bi_toBuffer unary_bigi 1 32"
  have "rfc6979_candidate (const_hmacs 3) unary_bigi (rfc6979_start (const_hmacs 3) sample_hash ?x None) 0 = 3"
    by (simp add: rfc6979_candidate_def rfc6979_start_def Let_def const_hmacs_def unary_bigi_def be_nat_be_bytes)
  then have "rfc6979_loop (const_hmacs 3) unary_bigi 7 (\<lambda>k. ecdsa_attempt unary_bigi ring7 ?e 1 k \<noteq> None)
      (rfc6979_start (const_hmacs 3) sample_hash ?x None) = Some 3"
    using a by (subst rfc6979_loop_step) (simp add: nonce_ok_def)
  moreover have "length ?x = 32" "length sample_hash = 32" by (simp_all add: unary_bigi_def sample_hash_def)
  moreover have "c_n ring7 = 7" "N_OVER_TWO ring7 = 3" by (simp_all add: ring7_def N_OVER_TWO_def)
  ultimately show ?thesis
    using a by (simp add: ecdsa_sign_def deterministicGenerateK_def e)
qed

lemma sample_sign_input:
  "sign_input lib7 junk sample_spend 0 (ecpair_signer lib7 sample_pair) sample_key 0x41 (Some 1000) None sample_ready =
     Some (sample_signed, Inr ())"
proof -
  have s: "toScriptSignature unary_bigi paired_bip66 \<lparr>sig_r = 3, sig_s = 1\<rparr> 0x41 None = Inr sample_signature" by code_simp
  have "inp_signScript sample_ready = Some sample_script" "inp_signatures sample_ready = Some [None]"
    "inp_pubKeys sample_ready = Some [Some (Data sample_key)]" "inp_signType sample_ready = Some P2PKH"
    by (simp_all add: sample_ready_def)
  then show ?thesis
    by (simp add: sign_input_def sample_hash make_signature_def ecpair_signer_def ecpair_sign_def sample_pair_def sample_ecdsa s
        sample_signed_def)
qed

lemma sample_public: "getPublicKeyBuffer lib7 sample_pair = Inr sample_key"
proof -
  have "le_bytes k 0 = replicate k 0" for k by (induction k) simp_all
  moreover have "le_bytes 32 1 = 1 # le_bytes 31 0" using le_bytes.simps(2) [of 31 1] by simp
  ultimately have "rev (le_bytes 32 1) = replicate 31 0 @ [1]" by simp
  then show ?thesis
    by (simp add: getPublicKeyBuffer_def ecpair_Q_def sample_pair_def ring7_def sample_key_def be_bytes_def)
qed

lemma sample_sign:
  "txb_sign lib7 junk (sample_txb sample_known) 0 (ecpair_signer lib7 sample_pair) None (Some 1) (Some 1000) None None =
     Some (sample_txb sample_signed, Inr ())"
proof -
  have ht: "js_or 1 SIGHASH_BITCOINCASHBIP143 = 0x41" by code_simp
  have "inp_redeemScript sample_known = None" by (simp add: sample_known_def empty_input_def)
  moreover have "sign_input lib7 junk (txb_tx (sample_txb sample_known)) 0 (ecpair_signer lib7 sample_pair) sample_key 0x41 (Some 1000)
      None sample_ready = Some (sample_signed, Inr ())"
    using sample_sign_input by (simp add: sample_txb_def)
  moreover have "txb_inputs (sample_txb sample_known) = [sample_known]" "set_input (sample_txb sample_known) 0 sample_signed = sample_txb sample_signed"
    by (simp_all add: sample_txb_def set_input_def)
  moreover have "kp_publicKey (ecpair_signer lib7 sample_pair) = None" "kp_getPublicKeyBuffer (ecpair_signer lib7 sample_pair) = Inr sample_key"
    by (simp_all add: ecpair_signer_def sample_public)
  ultimately show ?thesis
    by (simp add: txb_sign_def ht sample_sign_ready)
qed

lemma sample_steps: "txb_steps lib7 (ecdsa_keys lib7) (new_TransactionBuilder None None) (sample_txb sample_signed)"
proof -
  let ?b0 = "new_TransactionBuilder None None"
  let ?b1 = "?b0\<lparr>txb_tx := (txb_tx ?b0)\<lparr>tx_outs := [\<lparr>out_script = [0x51], out_value = Some 1000, out_valueBuffer = None\<rparr>]\<rparr>\<rparr>"
  have "txb_addOutput lib7 ?b0 (OutScript [0x51]) (Some 1000) = Inr (0, ?b1)"
    by (simp add: txb_addOutput_def canModifyOutputs_def every_signature_def new_TransactionBuilder_def addOutput_def new_Transaction_def
        types_Satoshi_def types_UInt53_def assertE_def Let_def)
  then have s1: "txb_step lib7 (ecdsa_keys lib7) ?b0 ?b1" by (rule step_addOutput)
  have "txb_addInput lib7 ?b1 (Hash (replicate 32 7)) 0 None (Some sample_script) = Inr (0, sample_txb sample_known)"
  proof -
    have "isCoinbaseHash (replicate 32 7) = Inr False" by code_simp
    then show ?thesis
      by (simp add: txb_addInput_def canModifyInputs_def every_signature_def addInputUnsafe_def sample_derive addInput_def assertE_def
          types_UInt32_def array_set_def new_TransactionBuilder_def new_Transaction_def sample_txb_def sample_spend_def new_txin_def Let_def)
  qed
  then have s2: "txb_step lib7 (ecdsa_keys lib7) ?b1 (sample_txb sample_known)" by (rule step_addInput)
  have "ecdsa_keys lib7 (ecpair_signer lib7 sample_pair) None"
    unfolding ecdsa_keys_def
    by (intro conjI exI [of _ 1] exI [of _ None] exI [of _ sample_pair]) (simp_all add: new_ECPair_def assertE_def sample_pair_def ring7_simps)
  from step_sign [where may_sign = "ecdsa_keys lib7", OF this sample_sign] have s3: "txb_step lib7 (ecdsa_keys lib7) (sample_txb sample_known) (sample_txb sample_signed)" .
  show ?thesis
    by (rule rtranclp.rtrancl_into_rtrancl [OF rtranclp.rtrancl_into_rtrancl [OF r_into_rtranclp [of "txb_step lib7 (ecdsa_keys lib7)", OF s1] s2] s3])
qed

subsection \<open>Reading a transaction and building it again\<close>

text \<open>Inputs that are not signed, or are signed for a public key hash.\<close>

definition readable_input :: "'p lib \<Rightarrow> txin \<Rightarrow> bool" where
  "readable_input lib i \<longleftrightarrow> isCoinbaseHash (in_hash i) = Inr False \<and> types_UInt32 (in_index i) \<and> types_UInt32 (in_sequence i) \<and>
     in_witness i = [] \<and>
     (in_script i = [] \<or>
      (\<exists>s k. 1 < length s \<and> length s < 2 ^ 32 \<and> isCanonicalSignature (lib_check lib) (Data s) \<and> isCanonicalPubKey (Data k) \<and>
         in_script i = push_bytes s @ push_bytes k))"

lemma pushes_two:
  assumes "1 < length s" "length s < 2 ^ 32" "isCanonicalPubKey (Data k)"
  shows "compile junk (Chunks [Data s, Data k]) = Inr (push_bytes s @ push_bytes k)"
    and "decompile (Raw (push_bytes s @ push_bytes k)) = Inr [Data s, Data k]"
proof -
  have k: "1 < length k" "length k < 2 ^ 32" using assms(3) by (auto simp: isCanonicalPubKey_def split: if_splits)
  have m: "asMinimalOP s = None" "asMinimalOP k = None" using assms(1) k(1) by (auto simp: asMinimalOP_def)
  let ?cs = "[Data s, Data k]"
  have ok: "list_all chunk_ok ?cs" "list_all chunk_plain ?cs" using assms(2) k(2) by (simp_all add: chunk_ok_def chunk_plain_def)
  have b: "concat (map chunk_bytes ?cs) = push_bytes s @ push_bytes k" using m by (simp add: chunk_bytes_def)
  have n: "map normal_chunk ?cs = ?cs" using m by (simp add: normal_chunk_def minimal_chunk_def)
  show "compile junk (Chunks ?cs) = Inr (push_bytes s @ push_bytes k)" using compile_bytes [OF ok(1), of junk] b by simp
  show "decompile (Raw (push_bytes s @ push_bytes k)) = Inr ?cs" using decompile_bytes(1) [OF ok] b n by simp
qed

lemma expand_readable:
  assumes "readable_input lib i"
  obtains inp r where "expandInput lib (in_script i) [] = Inr inp" "inp_redeemScript inp = None"
    "buildInput lib inp True = Inr r" "built_script r = in_script i" "built_witness r = []"
proof (cases "in_script i = []")
  case True
  have b: "buildInput lib empty_input True = Inr \<lparr>built_type = None, built_script = [], built_witness = []\<rparr>"
    using compile_bytes [of "[]" "lib_junk lib"]
    by (simp add: buildInput_def empty_input_def supportedType_def build_witness_def Let_def del: compile.simps)
  have "inp_redeemScript empty_input = None" by (simp add: empty_input_def)
  from that [OF _ this b] show thesis using True by (simp add: expandInput_def)
next
  case False
  then obtain s k where sk: "1 < length s" "length s < 2 ^ 32" "isCanonicalSignature (lib_check lib) (Data s)"
    "isCanonicalPubKey (Data k)" "in_script i = push_bytes s @ push_bytes k"
    using assms by (auto simp: readable_input_def)
  note c = pushes_two [OF sk(1,2,4)]
  let ?inp = "\<lparr>inp_value = None, inp_pubKeys = Some [Some (Data k)], inp_signatures = Some [Some (Data s)],
    inp_prevOutScript = None, inp_prevOutType = Some P2PKH, inp_signType = Some P2PKH,
    inp_signScript = None, inp_witness = Some False, inp_redeemScript = None, inp_witnessScript = None\<rparr>"
  have "p2pkh_input_check (lib_check lib) (Chunks [Data s, Data k]) = Inr True" using sk(3,4) by (simp add: p2pkh_input_check_def)
  then have t: "classifyInput (lib_check lib) (lib_junk lib) (Chunks [Data s, Data k]) True = Inr P2PKH"
    "classifyInput (lib_check lib) (lib_junk lib) (Raw (in_script i)) False = Inr P2PKH"
    using c(2) sk(5) by (simp_all add: classifyInput_def del: decompile.simps(2))
  have w: "classifyWitness (lib_check lib) (lib_junk lib) (Chunks []) True = Inr NONSTANDARD"
    by (simp add: classifyWitness_def p2wpkh_input_check_def p2wsh_input_check_def)
  have "length (in_script i) \<noteq> 0" "decompile (Raw (in_script i)) = Inr [Data s, Data k]" using False c(2) sk(5) by simp_all
  then have "expandInput lib (in_script i) [] = Inr ?inp"
    using t w by (simp add: expandInput_def expanded_input_def extractChunks_def del: decompile.simps(2))
  moreover have "supportedType (Some P2PKH)" by code_simp
  then have b: "buildInput lib ?inp True = Inr \<lparr>built_type = Some P2PKH, built_script = in_script i, built_witness = []\<rparr>"
    using c(1) sk(3-5)
    by (simp add: buildInput_def buildStack_def p2pkh_input_encodeStack_def assertE_def build_witness_def Let_def del: compile.simps)
  ultimately show thesis by (intro that [OF _ _ b]) simp_all
qed

definition expanded :: "'p lib \<Rightarrow> txin \<Rightarrow> txb_input" where
  "expanded lib i = (case expandInput lib (in_script i) [] of Inr inp \<Rightarrow> inp | Inl _ \<Rightarrow> empty_input)"

lemma expanded_readable:
  assumes "readable_input lib i"
  shows "expandInput lib (in_script i) [] = Inr (expanded lib i)" "inp_redeemScript (expanded lib i) = None"
    "\<exists>r. buildInput lib (expanded lib i) True = Inr r \<and> built_script r = in_script i \<and> built_witness r = []"
  using expand_readable [OF assms] by (metis expanded_def sum.simps(6))+

abbreviation bare :: "txin \<Rightarrow> txin" where
  "bare i \<equiv> i\<lparr>in_script := []\<rparr>"

abbreviation (input) read_output :: "'p lib \<Rightarrow> txb \<Rightarrow> txout \<Rightarrow> txb result" where
  "read_output lib b txOut \<equiv> bindE (txb_addOutput lib b (OutScript (out_script txOut)) (out_value txOut)) (\<lambda>(_, b). Inr b)"

abbreviation (input) read_input :: "'p lib \<Rightarrow> txb \<Rightarrow> txin \<Rightarrow> txb result" where
  "read_input lib b txIn \<equiv> bindE (addInputUnsafe lib b (in_hash txIn) (in_index txIn)
     \<lparr>opt_sequence = Some (in_sequence txIn), opt_script = Some (in_script txIn), opt_witness = in_witness txIn,
      opt_prevOutScript = None, opt_value = None\<rparr>) (\<lambda>(_, b). Inr b)"

lemma read_outputs:
  assumes "txb_inputs b = []" "list_all txout_valid outs"
  shows "foldE (\<lambda>b txOut. read_output lib b txOut) b outs = Inr (b\<lparr>txb_tx := (txb_tx b)\<lparr>tx_outs := tx_outs (txb_tx b) @ outs\<rparr>\<rparr>)"
  using assms
proof (induction outs arbitrary: b)
  case (Cons out outs)
  let ?b = "b\<lparr>txb_tx := (txb_tx b)\<lparr>tx_outs := tx_outs (txb_tx b) @ [out]\<rparr>\<rparr>"
  have one: "read_output lib b out = Inr ?b"
    using Cons.prems
    by (cases out) (auto simp: txb_addOutput_def canModifyOutputs_def every_signature_def addOutput_def assertE_def txout_valid_def Let_def)
  have "foldE (\<lambda>b txOut. read_output lib b txOut) ?b outs = Inr (?b\<lparr>txb_tx := (txb_tx ?b)\<lparr>tx_outs := tx_outs (txb_tx ?b) @ outs\<rparr>\<rparr>)"
    using Cons.prems by (intro Cons.IH) simp_all
  then show ?case by (simp only: foldE.simps one bindE.simps) simp
qed simp

lemma read_one:
  assumes "readable_input lib i" "length (txb_inputs b) = length (tx_ins (txb_tx b))" "txb_prevTxMap b (txin_key i) = None"
  shows "read_input lib b i = Inr (b\<lparr>txb_tx := (txb_tx b)\<lparr>tx_ins := tx_ins (txb_tx b) @ [bare i]\<rparr>,
    txb_inputs := txb_inputs b @ [expanded lib i], txb_prevTxMap := (txb_prevTxMap b)(txin_key i \<mapsto> length (tx_ins (txb_tx b)))\<rparr>)"
proof -
  have i: "isCoinbaseHash (in_hash i) = Inr False" "types_UInt32 (in_index i)" "types_UInt32 (in_sequence i)" "in_witness i = []"
    using assms(1) by (simp_all add: readable_input_def)
  have "derive_input lib \<lparr>opt_sequence = Some (in_sequence i), opt_script = Some (in_script i), opt_witness = in_witness i,
      opt_prevOutScript = None, opt_value = None\<rparr> = Inr (expanded lib i)"
    using expanded_readable(1) [OF assms(1)] i(4) by (simp add: derive_input_def split: option.split)
  moreover have "bare i = \<lparr>in_hash = in_hash i, in_index = in_index i, in_script = [], in_sequence = in_sequence i, in_witness = []\<rparr>"
    using i(4) by (cases i) simp
  ultimately show ?thesis
    using i(1-3) assms(2,3) isCoinbaseHash_length [OF i(1)]
    by (simp add: addInputUnsafe_def txin_key_def addInput_def assertE_def array_set_def Let_def)
qed

lemma read_inputs:
  assumes "list_all (readable_input lib) ins" "length (txb_inputs b) = length (tx_ins (txb_tx b))"
    "distinct (map txin_key ins)" "\<forall>i \<in> set ins. txb_prevTxMap b (txin_key i) = None"
  shows "\<exists>m. foldE (\<lambda>b txIn. read_input lib b txIn) b ins = Inr (b\<lparr>txb_tx := (txb_tx b)\<lparr>tx_ins := tx_ins (txb_tx b) @ map bare ins\<rparr>,
    txb_inputs := txb_inputs b @ map (expanded lib) ins, txb_prevTxMap := m\<rparr>)"
  using assms
proof (induction ins arbitrary: b)
  case Nil
  then show ?case by (intro exI [of _ "txb_prevTxMap b"]) simp
next
  case (Cons i ins)
  let ?b = "b\<lparr>txb_tx := (txb_tx b)\<lparr>tx_ins := tx_ins (txb_tx b) @ [bare i]\<rparr>,
    txb_inputs := txb_inputs b @ [expanded lib i], txb_prevTxMap := (txb_prevTxMap b)(txin_key i \<mapsto> length (tx_ins (txb_tx b)))\<rparr>"
  have one: "read_input lib b i = Inr ?b" using Cons.prems by (intro read_one) simp_all
  have "\<exists>m. foldE (\<lambda>b txIn. read_input lib b txIn) ?b ins = Inr (?b\<lparr>txb_tx := (txb_tx ?b)\<lparr>tx_ins := tx_ins (txb_tx ?b) @ map bare ins\<rparr>,
      txb_inputs := txb_inputs ?b @ map (expanded lib) ins, txb_prevTxMap := m\<rparr>)"
    using Cons.prems by (intro Cons.IH) (auto simp: image_iff)
  then show ?case by (simp only: foldE.simps one bindE.simps) simp
qed

lemma build_readable:
  assumes "list_all (readable_input lib) ins" "tx_ins tx = pre @ map bare ins" "length pre = n"
  shows "foldE (build_step lib True) tx (List.enumerate n (map (expanded lib) ins)) = Inr (tx\<lparr>tx_ins := pre @ ins\<rparr>)"
  using assms
proof (induction ins arbitrary: pre n tx)
  case (Cons i ins)
  obtain r where r: "buildInput lib (expanded lib i) True = Inr r" "built_script r = in_script i" "built_witness r = []"
    using expanded_readable(3) [of lib i] Cons.prems by auto
  have "in_witness i = []" using Cons.prems by (simp add: readable_input_def)
  then have i: "(bare i)\<lparr>in_script := in_script i, in_witness := []\<rparr> = i" by (cases i) simp
  have "build_step lib True tx (n, expanded lib i) = Inr (tx\<lparr>tx_ins := (pre @ [i]) @ map bare ins\<rparr>)"
    using r i Cons.prems(2) by (simp add: build_step_def setInputScript_def setWitness_def Cons.prems(3) [symmetric])
  then show ?case using Cons.IH [of "tx\<lparr>tx_ins := (pre @ [i]) @ map bare ins\<rparr>" "pre @ [i]" "Suc n"] Cons.prems by simp
qed simp

subsection \<open>Properties\<close>

text \<open>C3. No operation of the builder spoils a signature: in every state that the public operations reach
  from a new builder with ECDSA key pairs, failed calls of \<open>sign\<close> included, each signature that an input
  holds verifies, under the public key of its slot, on the digest of the present transaction for that input;
  and it still verifies on the transaction that \<open>build\<close> or \<open>buildIncomplete\<close> returns. The digest is
  \<open>hashForCashSignature\<close> with the hash type of the signature, the script that the builder's input holds as
  \<open>signScript\<close>, and some amount: the builder takes the amount on trust and does not compare it with the output
  spent.\<close>

theorem builder_signatures_valid:
  assumes "key_lib lib" "txb_steps lib (ecdsa_keys lib) (new_TransactionBuilder network rate) b"
    "vin < length (txb_inputs b)" "held (txb_inputs b ! vin) j s"
  shows "signature_verifies lib (txb_tx b) vin (txb_inputs b ! vin) j s \<and>
    (\<forall>allowIncomplete tx. txb_build lib allowIncomplete b = Inr tx \<longrightarrow> signature_verifies lib tx vin (txb_inputs b ! vin) j s)"
proof -
  have ok: "txb_ok b" using txb_ok_steps [OF assms(2) txb_ok_new] .
  have signed: "txb_signed lib (txb_tx b) b" using key_lib.txb_signed_steps [OF assms(1,2)] .
  have at: "signature_verifies lib tx vin (txb_inputs b ! vin) j s" if "txb_signed lib tx b" for tx
    using that assms(3,4) by (simp add: txb_signed_def input_signed_def)
  from at [OF signed] at [OF txb_signed_build [OF ok signed]] show ?thesis by blast
qed

lemma sample_held: "txb_inputs (sample_txb sample_signed) = [sample_signed]" "held sample_signed 0 sample_signature"
  by (simp_all add: sample_txb_def held_def sample_signed_def)

theorem builder_signatures_valid_witness:
  "signature_verifies lib7 sample_spend 0 sample_signed 0 sample_signature"
proof -
  have "txb_tx (sample_txb sample_signed) = sample_spend" by (simp add: sample_txb_def)
  then show ?thesis
    using builder_signatures_valid [OF lib7.key_lib_axioms sample_steps, of 0 0 sample_signature] sample_held by simp
qed

text \<open>C13. The bookkeeping of the builder: in every state that is reached from a new builder or from one read
  from a transaction, whatever signs, there is one entry for each input of the transaction, no two inputs
  spend the same output, no input is a coinbase input, and the map of spent outputs holds exactly the
  outputs that the inputs spend.\<close>

theorem builder_bookkeeping:
  assumes "b0 = new_TransactionBuilder network rate \<or> fromTransaction lib junk tx network' cash = Inr b0"
    "txb_steps lib may_sign b0 b"
  shows "length (txb_inputs b) = length (tx_ins (txb_tx b)) \<and>
    distinct (map (\<lambda>i. (in_hash i, in_index i)) (tx_ins (txb_tx b))) \<and>
    list_all (\<lambda>i. isCoinbaseHash (in_hash i) = Inr False) (tx_ins (txb_tx b)) \<and>
    (\<forall>k. txb_prevTxMap b k \<noteq> None \<longleftrightarrow> (\<exists>i \<in> set (tx_ins (txb_tx b)). k = outpoint_key (in_hash i) (in_index i)))"
proof -
  have "txb_ok b0" using assms(1) txb_ok_new txb_ok_fromTransaction by blast
  then have ok: "txb_ok b" using txb_ok_steps [OF assms(2)] by blast
  have "distinct (map txin_key (tx_ins (txb_tx b)))" using ok by (simp add: txb_ok_def)
  then have "distinct (map (\<lambda>(h, n). outpoint_key h n) (map (\<lambda>i. (in_hash i, in_index i)) (tx_ins (txb_tx b))))"
    by (simp add: comp_def txin_key_def [symmetric])
  then have "distinct (map (\<lambda>i. (in_hash i, in_index i)) (tx_ins (txb_tx b)))" by (simp only: distinct_map)
  moreover have "txb_prevTxMap b k \<noteq> None \<longleftrightarrow> (\<exists>i \<in> set (tx_ins (txb_tx b)). k = txin_key i)" for k
  proof -
    have "txb_prevTxMap b k \<noteq> None \<longleftrightarrow> (\<exists>i. txb_prevTxMap b k = Some i)" by auto
    also have "\<dots> \<longleftrightarrow> (\<exists>i < length (tx_ins (txb_tx b)). k = txin_key (tx_ins (txb_tx b) ! i))" using ok by (auto simp: txb_ok_def)
    finally show ?thesis unfolding Bex_def in_set_conv_nth by blast
  qed
  moreover have "list_all (\<lambda>i. isCoinbaseHash (in_hash i) = Inr False) (tx_ins (txb_tx b))"
    using ok by (simp add: txb_ok_def txin_valid_def list_all_iff)
  moreover have "length (txb_inputs b) = length (tx_ins (txb_tx b))" using ok by (simp add: txb_ok_def)
  ultimately show ?thesis by (simp only: txin_key_def simp_thms)
qed

theorem builder_bookkeeping_witness:
  "txb_prevTxMap (sample_txb sample_signed) (outpoint_key (replicate 32 7) 0) \<noteq> None"
  using builder_bookkeeping [OF disjI1 [OF refl] sample_steps]
  by (simp add: sample_txb_def sample_spend_def new_txin_def)

text \<open>What \<open>build\<close> returns: the transaction of the builder, with the same version, lock time, outputs,
  spent outputs and sequence numbers, and with the script signature and the witness of each input taken from
  what the builder knows of that input. It has inputs and outputs, every input is of a kind that the builder
  can sign, and the check of the fee has passed.\<close>

theorem build_result:
  assumes "b0 = new_TransactionBuilder network rate \<or> fromTransaction lib junk tx0 network' cash = Inr b0"
    "txb_steps lib may_sign b0 b" "build lib b = Inr tx"
  shows "same_frame (txb_tx b) tx \<and> tx_ins tx \<noteq> [] \<and> tx_outs tx \<noteq> [] \<and>
    (\<forall>i < length (tx_ins tx). input_built lib False (txb_inputs b ! i) (tx_ins tx ! i)) \<and>
    \<not> overMaximumFees b (virtualSize (lib_varuint lib) tx)"
proof -
  have "txb_ok b0" using assms(1) txb_ok_new txb_ok_fromTransaction by blast
  then have ok: "txb_ok b" using txb_ok_steps [OF assms(2)] by blast
  note built = txb_build_cases [OF ok assms(3) [unfolded build_def]]
  have "length (tx_ins tx) = length (txb_inputs b)" using same_frame_length [OF built(1)] ok by (simp add: txb_ok_def)
  then show ?thesis using built by simp
qed

definition sample_built :: transaction where
  "sample_built = sample_spend\<lparr>tx_ins := [(new_txin (replicate 32 7) 0 None)\<lparr>
     in_script := [6] @ sample_signature @ [33] @ sample_key, in_witness := []\<rparr>]\<rparr>"

lemma sample_build: "build lib7 (sample_txb sample_signed) = Inr sample_built"
proof -
  have b: "buildInput lib7 sample_signed False =
      Inr \<lparr>built_type = Some P2PKH, built_script = [6] @ sample_signature @ [33] @ sample_key, built_witness = []\<rparr>"
    by code_simp
  have "input_scriptType sample_signed \<noteq> None" "supportedType (Some P2PKH)" by code_simp+
  with b have step: "build_step lib7 False sample_spend (0, sample_signed) = Inr sample_built"
    by (simp add: build_step_def setInputScript_def setWitness_def sample_spend_def sample_built_def)
  have "clone sample_spend = sample_spend" by (simp add: clone_def sample_spend_def new_txin_def)
  moreover have "inp_value sample_signed = Some 1000" by (simp add: sample_signed_def sample_ready_def)
  then have "\<not> overMaximumFees (sample_txb sample_signed) n" for n
    by (simp add: overMaximumFees_def sample_txb_def sample_spend_def toUint32_def)
  ultimately show ?thesis
    using step by (simp add: build_def txb_build_def sample_txb_def) (simp add: sample_spend_def)
qed

theorem build_result_witness: "same_frame sample_spend sample_built"
proof -
  have "txb_tx (sample_txb sample_signed) = sample_spend" by (simp add: sample_txb_def)
  then show ?thesis
    using build_result [OF disjI1 [OF refl] sample_steps sample_build] by simp
qed

lemma p2pkh_stack:
  assumes "buildStack lib (Some P2PKH) signatures pubKeys False = Inr sig"
  obtains s k where "signatures = Some [Some (Data s)]" "pubKeys = Some [Some (Data k)]" "sig = [Data s, Data k]"
proof -
  from assms obtain s c where *: "signatures = Some [Some (Data s)]" "pubKeys = Some [Some c]"
    "p2pkh_input_encodeStack (lib_check lib) (Data s) c = Inr sig"
    by (auto simp: buildStack_def Let_def split: option.splits list.splits chunk.splits)
  then have "isCanonicalPubKey c" "sig = [Data s, c]" by (auto simp: p2pkh_input_encodeStack_def assertE_def split: if_splits)
  moreover from this(1) obtain k where "c = Data k" by (cases c) (auto simp: isCanonicalPubKey_def)
  ultimately show thesis using * that by simp
qed

lemma p2pkh_built:
  assumes "input_built lib False inp txIn" "inp_prevOutType inp = Some P2PKH"
  obtains s k where "held inp 0 s" "inp_pubKeys inp = Some [Some (Data k)]"
    "compile (lib_junk lib) (Chunks [Data s, Data k]) = Inr (in_script txIn)" "in_witness txIn = []"
proof -
  have t: "supportedType (Some P2PKH)" by code_simp
  from assms obtain r where r: "buildInput lib inp False = Inr r" "in_script txIn = built_script r" "map Data (in_witness txIn) = built_witness r"
    by (auto simp: input_built_def)
  then obtain sig where sig: "buildStack lib (Some P2PKH) (inp_signatures inp) (inp_pubKeys inp) False = Inr sig"
    "compile (lib_junk lib) (Chunks sig) = Inr (built_script r)" "built_witness r = []"
    using t by (auto simp: buildInput_def build_witness_def assms(2) Let_def simp del: compile.simps)
  from sig(1) obtain s k where "inp_signatures inp = Some [Some (Data s)]" "inp_pubKeys inp = Some [Some (Data k)]" "sig = [Data s, Data k]"
    by (rule p2pkh_stack)
  then show thesis using r sig by (intro that) (simp_all add: held_def del: compile.simps)
qed

text \<open>C4. End to end for the common kind of input: when \<open>build\<close> returns, the script signature of an input
  that pays to a public key hash is the push of a signature and the push of a public key, it has no witness,
  and the signature verifies under that key on the digest of the returned transaction. The digest is
  \<open>hashForCashSignature\<close> with the hash type of the signature, the script that the builder's input holds as
  \<open>signScript\<close>, and some amount.\<close>

theorem build_p2pkh_valid:
  assumes "key_lib lib" "txb_steps lib (ecdsa_keys lib) (new_TransactionBuilder network rate) b" "build lib b = Inr tx"
    "vin < length (tx_ins tx)" "inp_prevOutType (txb_inputs b ! vin) = Some P2PKH"
  shows "\<exists>s k kp sig ht script junk amount hash.
    compile (lib_junk lib) (Chunks [Data s, Data k]) = Inr (in_script (tx_ins tx ! vin)) \<and> in_witness (tx_ins tx ! vin) = [] \<and>
    fromPublicKeyBuffer lib k None = Inr kp \<and> parseScriptSignature (lib_bigi lib) (lib_bip66 lib) s = Inr (sig, ht) \<and>
    inp_signScript (txb_inputs b ! vin) = Some script \<and>
    hashForCashSignature (lib_hashes lib) (lib_varuint lib) junk tx vin script (Some amount) (Some ht) = Inr hash \<and>
    ecpair_verify lib kp hash sig = Inr True"
proof -
  let ?inp = "txb_inputs b ! vin"
  have ok: "txb_ok b" using txb_ok_steps [OF assms(2) txb_ok_new] .
  note built = txb_build_cases [OF ok assms(3) [unfolded build_def]]
  have vin: "vin < length (txb_inputs b)" using assms(4) same_frame_length [OF built(1)] ok by (simp add: txb_ok_def)
  obtain s k where sk: "held ?inp 0 s" "inp_pubKeys ?inp = Some [Some (Data k)]"
    "compile (lib_junk lib) (Chunks [Data s, Data k]) = Inr (in_script (tx_ins tx ! vin))" "in_witness (tx_ins tx ! vin) = []"
    using built(2) [OF vin] assms(5) by (rule p2pkh_built)
  have "txb_signed lib tx b"
    using txb_signed_build [OF ok key_lib.txb_signed_steps [OF assms(1,2)] assms(3) [unfolded build_def]] .
  then have "signature_verifies lib tx vin ?inp 0 s" using vin sk(1) by (simp add: txb_signed_def input_signed_def)
  then obtain kp sig ht script junk amount hash where "fromPublicKeyBuffer lib k None = Inr kp"
    "parseScriptSignature (lib_bigi lib) (lib_bip66 lib) s = Inr (sig, ht)" "inp_signScript ?inp = Some script"
    "hashForCashSignature (lib_hashes lib) (lib_varuint lib) junk tx vin script (Some amount) (Some ht) = Inr hash"
    "ecpair_verify lib kp hash sig = Inr True"
    using sk(2) unfolding signature_verifies_def by (elim exE conjE) simp
  with sk(3,4) show ?thesis by blast
qed

theorem build_p2pkh_valid_witness:
  "\<exists>s k kp sig ht. compile (lib_junk lib7) (Chunks [Data s, Data k]) = Inr (in_script (tx_ins sample_built ! 0)) \<and>
     fromPublicKeyBuffer lib7 k None = Inr kp \<and> parseScriptSignature unary_bigi paired_bip66 s = Inr (sig, ht)"
proof -
  have "0 < length (tx_ins sample_built)" "inp_prevOutType (txb_inputs (sample_txb sample_signed) ! 0) = Some P2PKH"
    by (simp_all add: sample_built_def sample_txb_def sample_signed_def sample_ready_def sample_known_def)
  from build_p2pkh_valid [OF lib7.key_lib_axioms sample_steps sample_build this]
  show ?thesis unfolding lib7_simps by (elim exE conjE) (intro exI conjI)
qed

text \<open>C38. A call of \<open>sign\<close> without a hash type never succeeds, whatever the key and the input: the fork bit is
  set before the default \<open>SIGHASH_ALL\<close> would apply, so that the default is never used and the hash type 0x40
  that remains is rejected when the signature is serialised.\<close>

theorem sign_needs_hashType:
  "txb_sign lib junk b vin keyPair redeemScript None witnessValue witnessScript algorithm \<noteq> Some (b', Inr ())"
proof
  assume s: "txb_sign lib junk b vin keyPair redeemScript None witnessValue witnessScript algorithm = Some (b', Inr ())"
  have ht: "js_or 0 SIGHASH_BITCOINCASHBIP143 = 0x40" "js_and 0x40 (js_not 0xc0) = 0" by code_simp+
  then have never: "toScriptSignature bi b66 sig 0x40 algorithm = Inl (Error ''Invalid hashType'')" for bi b66 sig
    by (simp add: toScriptSignature_def)
  have "make_signature lib keyPair k inp hash 0x40 algorithm i \<noteq> Some (Inr sg)" for k inp hash i sg
    by (auto simp: make_signature_def never)
  then have none: "sign_slot (make_signature lib keyPair k inp hash 0x40 algorithm) k i keys \<noteq> Some (Inr (Some p))" for k inp hash i keys p
    using sign_slot_result [of "make_signature lib keyPair k inp hash 0x40 algorithm" k i keys] by (cases p) blast
  have fails: "sign_input lib junk tx vin keyPair k 0x40 witnessValue algorithm inp \<noteq> Some (inp', Inr ())" for tx k inp inp'
    using none [of k inp] by (auto simp: sign_input_def split: sum.splits option.splits)
  show False
    using s fails by (auto simp: txb_sign_def ht Let_def split: if_splits sum.splits prod.splits)
qed

text \<open>C39. The limit on the fee does not see the upper bits of the input values: \<open>>>> 0\<close> reads each value modulo
  2 to the 32, so that the check gives the same answer for the reduced values, and inputs whose values are
  multiples of 2 to the 32 pass it with any fee.\<close>

theorem fee_limit_truncates:
  "overMaximumFees (b\<lparr>txb_inputs := map (\<lambda>x. x\<lparr>inp_value := map_option (\<lambda>v. v mod 2 ^ 32) (inp_value x)\<rparr>) (txb_inputs b)\<rparr>) bytes =
     overMaximumFees b bytes \<and>
   (list_all (pred_option (\<lambda>v. v mod 2 ^ 32 = 0)) (map inp_value (txb_inputs b)) \<and> txb_maximumFeeRate b \<ge> 0 \<and>
    list_all (\<lambda>out. pred_option (\<lambda>v. v \<ge> 0) (out_value out)) (tx_outs (txb_tx b)) \<longrightarrow> \<not> overMaximumFees b bytes)"
proof -
  let ?in = "\<lambda>a x. a + (case inp_value x of None \<Rightarrow> 0 | Some v \<Rightarrow> toUint32 v)"
  let ?cut = "\<lambda>x. x\<lparr>inp_value := map_option (\<lambda>v. v mod 2 ^ 32) (inp_value x)\<rparr>"
  let ?out = "\<lambda>a x. case (a, out_value x) of (Some a, Some v) \<Rightarrow> Some (a + v) | _ \<Rightarrow> (None :: int option)"
  have cut: "foldl ?in a (map ?cut xs) = foldl ?in a xs" for a xs
    by (induction xs arbitrary: a) (auto simp: toUint32_def take_bit_eq_mod split: option.splits)
  have zero: "foldl ?in a xs = a" if "list_all (pred_option (\<lambda>v. v mod 2 ^ 32 = 0)) (map inp_value xs)" for a xs
    using that by (induction xs arbitrary: a) (auto simp: toUint32_def take_bit_eq_mod split: option.splits)
  have none: "foldl ?out None xs = None" for xs by (induction xs) auto
  have pos: "foldl ?out (Some a) xs = Some r \<Longrightarrow> a \<le> r" if "list_all (\<lambda>out. pred_option (\<lambda>v. v \<ge> 0) (out_value out)) xs" for a r xs
    using that
  proof (induction xs arbitrary: a)
    case (Cons x xs)
    then obtain v where v: "out_value x = Some v" by (cases "out_value x") (simp_all add: none [simplified])
    then have "a + v \<le> r" using Cons.IH [of "a + v"] Cons.prems by simp
    then show ?case using v Cons.prems(2) by simp
  qed simp
  show ?thesis
  proof (intro conjI impI)
    show "overMaximumFees (b\<lparr>txb_inputs := map ?cut (txb_inputs b)\<rparr>) bytes = overMaximumFees b bytes"
      unfolding overMaximumFees_def Let_def by (simp add: cut [simplified] split: option.split)
    assume a: "list_all (pred_option (\<lambda>v. v mod 2 ^ 32 = 0)) (map inp_value (txb_inputs b)) \<and> txb_maximumFeeRate b \<ge> 0 \<and>
      list_all (\<lambda>out. pred_option (\<lambda>v. v \<ge> 0) (out_value out)) (tx_outs (txb_tx b))"
    then have "0 \<le> txb_maximumFeeRate b * int bytes" by simp
    moreover have "0 \<le> r" if "foldl ?out (Some 0) (tx_outs (txb_tx b)) = Some r" for r using pos that a by blast
    moreover have "foldl ?in 0 (txb_inputs b) = 0" using zero a by blast
    ultimately show "\<not> overMaximumFees b bytes"
      unfolding overMaximumFees_def Let_def by (fastforce split: option.splits)
  qed
qed

theorem fee_limit_truncates_witness:
  "\<not> overMaximumFees (sample_txb (sample_signed\<lparr>inp_value := Some (2 ^ 40)\<rparr>)) 200"
  using fee_limit_truncates [of "sample_txb (sample_signed\<lparr>inp_value := Some (2 ^ 40)\<rparr>)" 200]
  by (simp add: sample_txb_def sample_spend_def)

text \<open>C12. Reading a transaction and building it again: for a transaction whose inputs spend different outputs
  and are not signed or are signed for a public key hash, \<open>fromTransaction\<close> followed by \<open>buildIncomplete\<close>
  returns the same transaction, script signatures included, except for the version: that is not copied, and
  is 2 whatever it was.\<close>

theorem fromTransaction_build:
  assumes "types_UInt32 (tx_locktime tx)" "list_all txout_valid (tx_outs tx)" "list_all (readable_input lib) (tx_ins tx)"
    "distinct (map (\<lambda>i. (in_hash i, in_index i)) (tx_ins tx))"
  shows "bindE (fromTransaction lib junk tx network cash) (buildIncomplete lib) = Inr (tx\<lparr>tx_version := 2\<rparr>)"
proof -
  let ?b0 = "new_TransactionBuilder network None"
  let ?b1 = "?b0\<lparr>txb_tx := new_Transaction\<lparr>tx_locktime := tx_locktime tx\<rparr>\<rparr>"
  let ?b2 = "?b1\<lparr>txb_tx := new_Transaction\<lparr>tx_locktime := tx_locktime tx, tx_outs := tx_outs tx\<rparr>\<rparr>"
  have b1: "setLockTime ?b0 (tx_locktime tx) = Inr ?b1"
    using assms(1) by (simp add: setLockTime_def new_TransactionBuilder_def assertE_def)
  have b2: "foldE (\<lambda>b txOut. read_output lib b txOut) ?b1 (tx_outs tx) = Inr ?b2"
    using read_outputs [of ?b1 "tx_outs tx" lib] assms(2) by (simp add: new_TransactionBuilder_def new_Transaction_def)
  have key: "(in_hash i, in_index i) = (in_hash j, in_index j)"
    if "i \<in> set (tx_ins tx)" "j \<in> set (tx_ins tx)" "txin_key i = txin_key j" for i j
  proof -
    have "length (in_hash i) = 32" "length (in_hash j) = 32" "0 \<le> in_index i" "0 \<le> in_index j"
      using that(1,2) assms(3) by (auto simp: list_all_iff readable_input_def types_UInt32_def dest: isCoinbaseHash_length)
    then show ?thesis using that(3) outpoint_key_inj [of "in_hash i" "in_index i" "in_hash j" "in_index j"] by (simp add: txin_key_def)
  qed
  have "inj_on txin_key (set (tx_ins tx))"
  proof (rule inj_onI)
    fix i j assume ij: "i \<in> set (tx_ins tx)" "j \<in> set (tx_ins tx)" "txin_key i = txin_key j"
    from assms(4) have "inj_on (\<lambda>i. (in_hash i, in_index i)) (set (tx_ins tx))" by (simp add: distinct_map)
    from inj_onD [OF this key [OF ij] ij(1,2)] show "i = j" .
  qed
  then have "distinct (map txin_key (tx_ins tx))" using assms(4) by (simp add: distinct_map)
  then have "\<exists>m. foldE (\<lambda>b txIn. read_input lib b txIn) ?b2 (tx_ins tx) = Inr (?b2\<lparr>
      txb_tx := (txb_tx ?b2)\<lparr>tx_ins := tx_ins (txb_tx ?b2) @ map bare (tx_ins tx)\<rparr>,
      txb_inputs := txb_inputs ?b2 @ map (expanded lib) (tx_ins tx), txb_prevTxMap := m\<rparr>)"
    using assms(3) by (intro read_inputs) (simp_all add: new_TransactionBuilder_def new_Transaction_def)
  then obtain m where b3: "foldE (\<lambda>b txIn. read_input lib b txIn) ?b2 (tx_ins tx) = Inr (?b2\<lparr>
      txb_tx := (txb_tx ?b2)\<lparr>tx_ins := tx_ins (txb_tx ?b2) @ map bare (tx_ins tx)\<rparr>,
      txb_inputs := txb_inputs ?b2 @ map (expanded lib) (tx_ins tx), txb_prevTxMap := m\<rparr>)"
    by (rule exE)
  let ?inputs = "map (expanded lib) (tx_ins tx)"
  let ?b3 = "?b2\<lparr>txb_tx := (txb_tx ?b2)\<lparr>tx_ins := map bare (tx_ins tx)\<rparr>, txb_inputs := ?inputs, txb_prevTxMap := m\<rparr>"
  have fix_none: "fixMultisigOrder lib junk inp tx i v cash = Inr inp" if "inp \<in> set ?inputs" for inp i v
  proof -
    from that obtain x where "readable_input lib x" "inp = expanded lib x" using assms(3) by (auto simp: list_all_iff)
    then show ?thesis using expanded_readable(2) [of lib x] by (simp add: fixMultisigOrder_def)
  qed
  have "mapE (\<lambda>(i, inp). fixMultisigOrder lib junk inp tx i (inp_value inp) cash) (List.enumerate n xs) = Inr xs"
    if "set xs \<subseteq> set ?inputs" for n xs
    using that fix_none by (induction xs arbitrary: n) auto
  from this [OF subset_refl] have fixed: "mapE (\<lambda>(i, inp). fixMultisigOrder lib junk inp tx i (inp_value inp) cash)
      (List.enumerate 0 (txb_inputs ?b3)) = Inr ?inputs" by simp
  have b3': "?b2\<lparr>txb_tx := (txb_tx ?b2)\<lparr>tx_ins := tx_ins (txb_tx ?b2) @ map bare (tx_ins tx)\<rparr>,
      txb_inputs := txb_inputs ?b2 @ ?inputs, txb_prevTxMap := m\<rparr> = ?b3"
    by (simp add: new_TransactionBuilder_def new_Transaction_def)
  have from_tx: "fromTransaction lib junk tx network cash = Inr (?b3\<lparr>txb_inputs := ?inputs\<rparr>)"
    unfolding fromTransaction_def b1 bindE.simps b2 b3 b3' fixed by (rule refl)
  have "clone (txb_tx ?b3) = txb_tx ?b3" using assms(2) by (intro clone_valid) simp
  moreover have "foldE (build_step lib True) (txb_tx ?b3) (List.enumerate 0 ?inputs) = Inr ((txb_tx ?b3)\<lparr>tx_ins := tx_ins tx\<rparr>)"
    using build_readable [OF assms(3), of "txb_tx ?b3" "[]" 0] by simp
  moreover have "(txb_tx ?b3)\<lparr>tx_ins := tx_ins tx\<rparr> = tx\<lparr>tx_version := 2\<rparr>" by (cases tx) (simp add: new_Transaction_def)
  ultimately have built: "txb_build lib True ?b3 = Inr (tx\<lparr>tx_version := 2\<rparr>)" by (simp add: txb_build_def)
  have same: "?b3\<lparr>txb_inputs := ?inputs\<rparr> = ?b3" by (simp add: new_TransactionBuilder_def)
  show ?thesis unfolding from_tx bindE.simps buildIncomplete_def same by (rule built)
qed

theorem fromTransaction_build_witness:
  "bindE (fromTransaction lib7 (\<lambda>_ _. 0) (sample_built\<lparr>tx_version := 1\<rparr>) None True) (buildIncomplete lib7) = Inr sample_built"
proof -
  have sig: "isCanonicalSignature (lib_check lib7) (Data sample_signature)" "isCanonicalPubKey (Data sample_key)"
    "isCoinbaseHash (replicate 32 7) = Inr False" by code_simp+
  have "push_bytes sample_signature = 6 # sample_signature" "push_bytes sample_key = 33 # sample_key"
    by (simp_all add: push_bytes_def pushdata_bytes_def sample_signature_def sample_key_def)
  then have "readable_input lib7 ((new_txin (replicate 32 7) 0 None)\<lparr>in_script := [6] @ sample_signature @ [33] @ sample_key, in_witness := []\<rparr>)"
    using sig unfolding readable_input_def new_txin_def
    by (intro conjI disjI2 exI [of _ sample_signature] exI [of _ sample_key]) (simp_all add: types_UInt32_def sample_signature_def)
  then have "list_all (readable_input lib7) (tx_ins (sample_built\<lparr>tx_version := 1\<rparr>))" by (simp add: sample_built_def)
  from fromTransaction_build [OF _ _ this, of "\<lambda>_ _. 0" None True] show ?thesis
    by (simp add: sample_built_def sample_spend_def types_UInt32_def txout_valid_def types_Satoshi_def types_UInt53_def)
qed

end
