(* ===== verification/Cashaddr.thy ===== *)
theory Cashaddr
  imports Buffers
begin

text \<open>
  The address format of the node: \<open>src/cashaddr.cpp\<close> (the checksummed base-32 string),
  \<open>ConvertBits\<close> of \<open>util/strencodings.h\<close> and \<open>src/cashaddrenc.cpp\<close> (destinations). A
  \<open>std::vector<uint8_t>\<close> is a list of bytes, a \<open>uint64_t\<close> a 64-bit word, a \<open>std::string\<close> a list of
  8-bit characters. \<open>Inl\<close> stands for an exception, and for an access outside a vector, which C++ leaves
  undefined.
\<close>

subsection \<open>The checksum\<close>

definition CHARSET :: string where
  "CHARSET = ''qpzry9x8gf2tvdw0s3jn54khce6mua7l''"

definition CHARSET_REV :: "int list" where
  "CHARSET_REV = [
    -1, -1, -1, -1, -1, -1, -1, -1, -1, -1, -1, -1, -1, -1, -1, -1, -1, -1, -1,
    -1, -1, -1, -1, -1, -1, -1, -1, -1, -1, -1, -1, -1, -1, -1, -1, -1, -1, -1,
    -1, -1, -1, -1, -1, -1, -1, -1, -1, -1, 15, -1, 10, 17, 21, 20, 26, 30, 7,
    5,  -1, -1, -1, -1, -1, -1, -1, 29, -1, 24, 13, 25, 9,  8,  23, -1, 18, 22,
    31, 27, 19, -1, 1,  0,  3,  16, 11, 28, 12, 14, 6,  4,  2,  -1, -1, -1, -1,
    -1, -1, 29, -1, 24, 13, 25, 9,  8,  23, -1, 18, 22, 31, 27, 19, -1, 1,  0,
    3,  16, 11, 28, 12, 14, 6,  4,  2,  -1, -1, -1, -1, -1]"

text \<open>The body of the loop of \<open>PolyMod\<close>.\<close>

definition polymod_step :: "64 word \<Rightarrow> byte \<Rightarrow> 64 word" where
  "polymod_step c d =
     (let c0 = ucast (drop_bit 35 c) :: byte;
          c = push_bit 5 (c AND 0x07ffffffff) XOR ucast d;
          c = (if c0 AND 0x01 \<noteq> 0 then c XOR 0x98f2bc8e61 else c);
          c = (if c0 AND 0x02 \<noteq> 0 then c XOR 0x79b76d99e2 else c);
          c = (if c0 AND 0x04 \<noteq> 0 then c XOR 0xf33e5fb3c4 else c);
          c = (if c0 AND 0x08 \<noteq> 0 then c XOR 0xae2eabe2a8 else c);
          c = (if c0 AND 0x10 \<noteq> 0 then c XOR 0x1e4f43e470 else c) in
      c)"

definition PolyMod :: "byte list \<Rightarrow> 64 word" where
  "PolyMod v = foldl polymod_step 1 v XOR 1"

definition LowerCase :: "char \<Rightarrow> char" where
  "LowerCase c = char_of (of_char c OR (0x20 :: nat))"

definition ExpandPrefix :: "string \<Rightarrow> byte list" where
  "ExpandPrefix prefix = map (\<lambda>c. of_char c AND 0x1f) prefix @ [0]"

definition VerifyChecksum :: "string \<Rightarrow> byte list \<Rightarrow> bool" where
  "VerifyChecksum prefix payload \<longleftrightarrow> PolyMod (ExpandPrefix prefix @ payload) = 0"

definition CreateChecksum :: "string \<Rightarrow> byte list \<Rightarrow> byte list" where
  "CreateChecksum prefix payload =
     (let m = PolyMod (ExpandPrefix prefix @ payload @ replicate 8 0) in
      map (\<lambda>i. ucast (drop_bit (5 * (7 - i)) m AND 0x1f)) [0..<8])"

subsection \<open>Strings\<close>

text \<open>\<open>CHARSET\<close> is a C string: index 32 holds its terminator, and a larger index is outside it.\<close>

definition charset_at :: "byte \<Rightarrow> char result" where
  "charset_at c =
     (if unat c < 32 then Inr (CHARSET ! unat c)
      else if unat c = 32 then Inr (CHR 0x00)
      else Inl (Error ''CHARSET[c]: out of range''))"

definition cashaddr_Encode :: "string \<Rightarrow> byte list \<Rightarrow> string result" where
  "cashaddr_Encode prefix payload =
     (let checksum = CreateChecksum prefix payload;
          combined = payload @ checksum in
      bindE (mapE charset_at combined) (\<lambda>cs. Inr (prefix @ '':'' @ cs)))"

text \<open>The flags of the first loop of \<open>Decode\<close>; \<open>None\<close> when it returns early.\<close>

record scan =
  sc_lower :: bool
  sc_upper :: bool
  sc_hasNumber :: bool
  sc_prefixSize :: nat

definition char_code :: "char \<Rightarrow> nat" where
  "char_code c = of_char c"

definition decode_scan_step :: "nat \<Rightarrow> char \<Rightarrow> scan \<Rightarrow> scan option" where
  "decode_scan_step i c s =
     (if 97 \<le> char_code c \<and> char_code c \<le> 122 then Some (s\<lparr>sc_lower := True\<rparr>)
      else if 65 \<le> char_code c \<and> char_code c \<le> 90 then Some (s\<lparr>sc_upper := True\<rparr>)
      else if 48 \<le> char_code c \<and> char_code c \<le> 57 then Some (s\<lparr>sc_hasNumber := True\<rparr>)
      else if c = CHR '':'' then
        (if sc_hasNumber s \<or> i = 0 \<or> sc_prefixSize s \<noteq> 0 then None else Some (s\<lparr>sc_prefixSize := i\<rparr>))
      else None)"

fun decode_scan :: "nat \<Rightarrow> string \<Rightarrow> scan \<Rightarrow> scan option" where
  "decode_scan i [] s = Some s"
| "decode_scan i (c # cs) s =
     (case decode_scan_step i c s of None \<Rightarrow> None | Some s' \<Rightarrow> decode_scan (Suc i) cs s')"

text \<open>The loop that decodes the values.\<close>

fun decode_values :: "string \<Rightarrow> byte list option" where
  "decode_values [] = Some []"
| "decode_values (c # cs) =
     (if char_code c > 127 \<or> CHARSET_REV ! char_code c = -1 then None
      else map_option (Cons (word_of_int (CHARSET_REV ! char_code c))) (decode_values cs))"

text \<open>\<open>([], [])\<close> is the \<open>{}\<close> of a failure. The last line takes \<open>values.end() - 8\<close> without a look at the
  length.\<close>

definition cashaddr_Decode :: "string \<Rightarrow> string \<Rightarrow> (string \<times> byte list) result" where
  "cashaddr_Decode str default_prefix =
     (case decode_scan 0 str \<lparr>sc_lower = False, sc_upper = False, sc_hasNumber = False, sc_prefixSize = 0\<rparr> of
        None \<Rightarrow> Inr ([], [])
      | Some s \<Rightarrow>
          if sc_upper s \<and> sc_lower s then Inr ([], [])
          else
            let (prefix, prefixSize) =
                  (if sc_prefixSize s = 0 then (default_prefix, 0)
                   else (map LowerCase (take (sc_prefixSize s) str), sc_prefixSize s + 1)) in
            (case decode_values (drop prefixSize str) of
               None \<Rightarrow> Inr ([], [])
             | Some values \<Rightarrow>
                 if \<not> VerifyChecksum prefix values then Inr ([], [])
                 else if length values < 8 then Inl (Error ''values.end() - 8: out of range'')
                 else Inr (prefix, take (length values - 8) values)))"

subsection \<open>The checksum is zero after \<open>CreateChecksum\<close>\<close>

lemma polymod_step_bits:
  "polymod_step c d = push_bit 5 (take_bit 35 c) XOR ucast d XOR
     (if bit c 35 then 0x98f2bc8e61 else 0) XOR (if bit c 36 then 0x79b76d99e2 else 0) XOR
     (if bit c 37 then 0xf33e5fb3c4 else 0) XOR (if bit c 38 then 0xae2eabe2a8 else 0) XOR
     (if bit c 39 then 0x1e4f43e470 else 0)"
proof -
  have "(ucast (drop_bit 35 c) AND 2 ^ n \<noteq> (0 :: byte)) = bit c (35 + n)" if "n < 8" for n
    using that by (simp add: and_exp_eq_0_iff_not_bit bit_ucast_iff bit_drop_bit_eq)
  from this [of 0] this [of 1] this [of 2] this [of 3] this [of 4]
  have b: "(ucast (drop_bit 35 c) AND 0x01 \<noteq> (0 :: byte)) = bit c 35"
    "(ucast (drop_bit 35 c) AND 0x02 \<noteq> (0 :: byte)) = bit c 36"
    "(ucast (drop_bit 35 c) AND 0x04 \<noteq> (0 :: byte)) = bit c 37"
    "(ucast (drop_bit 35 c) AND 0x08 \<noteq> (0 :: byte)) = bit c 38"
    "(ucast (drop_bit 35 c) AND 0x10 \<noteq> (0 :: byte)) = bit c 39"
    by simp_all
  have m: "c AND 0x07ffffffff = take_bit 35 c"
    by (simp add: take_bit_eq_mask mask_eq_exp_minus_1)
  show ?thesis
    by (simp add: polymod_step_def Let_def b m xor.assoc)
qed

lemma polymod_step_xor:
  "polymod_step (a XOR b) (d XOR e) = polymod_step a d XOR polymod_step b e"
proof -
  have "(if bit (a XOR b) n then k else 0) =
      (if bit a n then k else 0) XOR (if bit b n then k else (0 :: 64 word))" for n k
    by (simp add: bit_xor_iff)
  then show ?thesis
    by (simp add: polymod_step_bits take_bit_xor push_bit_xor unsigned_xor_eq ac_simps)
qed

text \<open>A state below \<open>2 ^ 35\<close> is shifted and nothing is reduced.\<close>

definition below_bit :: "nat \<Rightarrow> 'a::len word \<Rightarrow> bool" where
  "below_bit k w \<longleftrightarrow> (\<forall>n \<ge> k. \<not> bit w n)"

lemma below_bit_5: "below_bit 5 (d :: byte) \<longleftrightarrow> unat d < 32"
proof
  assume "below_bit 5 d"
  then have "take_bit 5 d = d"
    by (intro bit_eqI) (auto simp: below_bit_def bit_take_bit_iff intro: leI)
  then have "take_bit 5 (unat d) = unat d"
    by (simp flip: unsigned_take_bit_eq)
  then have "unat d < 2 ^ 5" using take_bit_nat_less_exp [of 5 "unat d"] by (simp only:)
  then show "unat d < 32" by simp
next
  assume "unat d < 32"
  then have "take_bit 5 (unat d) = unat d" by (intro take_bit_nat_eq_self) simp
  then have "take_bit 5 d = d" by (intro word_unat_eq_iff [THEN iffD2]) (simp add: unsigned_take_bit_eq)
  then have "n < 5" if "bit d n" for n
    using that bit_take_bit_iff [of 5 d n] by simp
  then show "below_bit 5 d" unfolding below_bit_def by (blast dest: leD)
qed

lemma polymod_step_small:
  assumes "below_bit 35 c"
  shows "polymod_step c d = push_bit 5 c XOR ucast d"
proof -
  have "take_bit 35 c = c"
    using assms by (intro bit_eqI) (auto simp: below_bit_def bit_take_bit_iff intro: leI)
  then show ?thesis using assms by (simp add: polymod_step_bits below_bit_def)
qed

definition pack5 :: "64 word \<Rightarrow> byte list \<Rightarrow> 64 word" where
  "pack5 = foldl (\<lambda>e d. push_bit 5 e XOR ucast d)"

lemma pack5_simps [simp]:
  "pack5 e [] = e"
  "pack5 e (d # ds) = pack5 (push_bit 5 e XOR ucast d) ds"
  by (simp_all add: pack5_def)

lemma foldl_polymod_xor:
  assumes "below_bit (5 * (8 - length ds)) e" "length ds \<le> 8" "list_all (below_bit 5) ds"
  shows "foldl polymod_step (s XOR e) ds = foldl polymod_step s (replicate (length ds) 0) XOR pack5 e ds"
  using assms
proof (induction ds arbitrary: s e)
  case Nil
  then show ?case by simp
next
  case (Cons d ds)
  let ?e = "push_bit 5 e XOR ucast d"
  have d: "below_bit 5 d" using Cons.prems by simp
  have "below_bit 35 e" using Cons.prems(1,2) by (auto simp: below_bit_def)
  then have "polymod_step (s XOR e) d = polymod_step s 0 XOR ?e"
    using polymod_step_xor [of s e 0 d] by (simp add: polymod_step_small)
  moreover have "below_bit (5 * (8 - length ds)) ?e"
    unfolding below_bit_def
  proof (intro allI impI)
    fix n
    assume n: "5 * (8 - length ds) \<le> n"
    then have "5 * (8 - length (d # ds)) \<le> n - 5" "5 \<le> n" using Cons.prems(2) by auto
    then show "\<not> bit ?e n"
      using Cons.prems(1) d by (auto simp: below_bit_def bit_xor_iff bit_push_bit_iff bit_ucast_iff)
  qed
  ultimately show ?case using Cons.IH [of ?e "polymod_step s 0"] Cons.prems by simp
qed

text \<open>The eight digits of a 40-bit number.\<close>

definition digits5 :: "nat \<Rightarrow> 64 word \<Rightarrow> byte list" where
  "digits5 k m = map (\<lambda>i. ucast (drop_bit (5 * (k - 1 - i)) m AND 0x1f)) [0..<k]"

lemma bit_digit: "bit (ucast (w AND 0x1f :: 64 word) :: byte) n \<longleftrightarrow> n < 5 \<and> bit w n"
proof -
  have "w AND 0x1f = take_bit 5 w" by (simp add: take_bit_eq_mask mask_eq_exp_minus_1)
  then show ?thesis by (auto simp only: bit_ucast_iff bit_take_bit_iff) simp_all
qed

lemma digit_word: "ucast (ucast (w AND 0x1f :: 64 word) :: byte) = take_bit 5 w"
  by (rule bit_word_eqI) (simp only: bit_ucast_iff [of "ucast (w AND 0x1f) :: byte"] bit_digit bit_take_bit_iff, auto)

lemma shift_digit: "push_bit 5 (drop_bit 5 w) XOR take_bit 5 w = (w :: 64 word)"
  by (rule bit_word_eqI) (auto simp: bit_xor_iff bit_push_bit_iff bit_drop_bit_eq bit_take_bit_iff)

lemma digits5_Suc: "digits5 (Suc k) m = ucast (drop_bit (5 * k) m AND 0x1f) # digits5 k m"
proof -
  have "map (\<lambda>i. ucast (drop_bit (5 * (Suc k - 1 - i)) m AND 0x1f)) [1..<Suc k] = (digits5 k m :: byte list)"
    unfolding digits5_def One_nat_def map_Suc_upt [symmetric] map_map by (simp add: comp_def)
  then show ?thesis unfolding digits5_def by (subst upt_conv_Cons) simp_all
qed

lemma pack5_digits: "pack5 (drop_bit (5 * k) m) (digits5 k m) = m"
proof (induction k)
  case 0
  then show ?case by (simp add: digits5_def)
next
  case (Suc k)
  have "drop_bit (5 * Suc k) m = drop_bit 5 (drop_bit (5 * k) m)"
    by (simp add: drop_bit_drop_bit)
  then show ?case using Suc by (simp only: digits5_Suc pack5_simps digit_word shift_digit)
qed

lemma below_bit_40_polymod: "below_bit 40 (polymod_step c d)"
  unfolding below_bit_def
proof (intro allI impI)
  fix n :: nat
  assume n: "40 \<le> n"
  have k: "\<not> bit (if b then k else 0 :: 64 word) n" if "k AND mask 40 = k" for b k
  proof -
    have "\<not> bit k n" using n bit_and_iff [of k "mask 40" n] that by (simp add: bit_mask_iff)
    then show ?thesis by simp
  qed
  have "\<not> bit d n" using n bit_imp_le_length [of d n] by auto
  then have "\<not> bit (ucast d :: 64 word) n" by (simp add: bit_ucast_iff)
  moreover have "\<not> bit (push_bit 5 (take_bit 35 c)) n"
    using n by (auto simp: bit_push_bit_iff bit_take_bit_iff)
  ultimately show "\<not> bit (polymod_step c d) n"
    unfolding polymod_step_bits bit_xor_iff by (simp only: k mask_eq_exp_minus_1) (simp add: k mask_eq_exp_minus_1)
qed

theorem checksum_verifies: "VerifyChecksum prefix (payload @ CreateChecksum prefix payload)"
proof -
  define s where "s = foldl polymod_step 1 (ExpandPrefix prefix @ payload)"
  define z where "z = foldl polymod_step s (replicate 8 0)"
  define m where "m = z XOR 1"
  have c: "CreateChecksum prefix payload = digits5 8 m"
    by (simp add: CreateChecksum_def PolyMod_def digits5_def m_def z_def s_def)
  have "below_bit 5 (ucast (w AND 0x1f :: 64 word) :: byte)" for w
    unfolding below_bit_def bit_digit by simp
  then have d: "list_all (below_bit 5) (digits5 8 m)"
    unfolding digits5_def list_all_iff by (simp only: set_map ball_simps) blast
  have "z = polymod_step (foldl polymod_step s (replicate 7 0)) 0"
    by (simp add: z_def numeral_eq_Suc)
  then have "below_bit 40 z" by (simp only: below_bit_40_polymod)
  then have m40: "\<not> bit m (40 + n)" for n
    by (simp only: m_def below_bit_def bit_xor_iff bit_1_iff) simp
  have "drop_bit (5 * 8) m = 0"
    by (rule bit_word_eqI) (simp only: bit_drop_bit_eq comp_apply, simp add: m40)
  then have "pack5 0 (digits5 8 m) = m" using pack5_digits [of 8 m] by simp
  moreover have "length (digits5 8 m) = 8" by (simp add: digits5_def)
  ultimately have "foldl polymod_step s (digits5 8 m) = z XOR m"
    using foldl_polymod_xor [of "digits5 8 m" 0 s] d by (simp add: below_bit_def z_def)
  also have "\<dots> = 1" by (simp add: m_def flip: xor.assoc)
  finally have "foldl polymod_step 1 (ExpandPrefix prefix @ payload @ digits5 8 m) = 1"
    by (simp add: s_def)
  then show ?thesis by (simp add: VerifyChecksum_def PolyMod_def c)
qed

subsection \<open>A string decodes to what it encodes\<close>

definition prefix_ok :: "string \<Rightarrow> bool" where
  "prefix_ok prefix \<longleftrightarrow> prefix \<noteq> [] \<and> list_all (\<lambda>c. 97 \<le> char_code c \<and> char_code c \<le> 122) prefix"

definition digit_ok :: "byte \<Rightarrow> bool" where
  "digit_ok d \<longleftrightarrow> unat d < 32"

text \<open>The two tables are inverse, and the characters are digits and lower-case letters.\<close>

lemma charset_table:
  "list_all (\<lambda>i. let c = CHARSET ! i in char_code c \<le> 127 \<and> CHARSET_REV ! char_code c = int i \<and>
     (97 \<le> char_code c \<and> char_code c \<le> 122 \<or> 48 \<le> char_code c \<and> char_code c \<le> 57)) [0..<32]"
  by code_simp

lemma charset_nth:
  assumes "digit_ok d"
  shows "charset_at d = Inr (CHARSET ! unat d)" "char_code (CHARSET ! unat d) \<le> 127"
    "CHARSET_REV ! char_code (CHARSET ! unat d) = uint d"
    "97 \<le> char_code (CHARSET ! unat d) \<and> char_code (CHARSET ! unat d) \<le> 122 \<or>
     48 \<le> char_code (CHARSET ! unat d) \<and> char_code (CHARSET ! unat d) \<le> 57"
proof -
  have "unat d \<in> set [0..<32]" using assms unfolding digit_ok_def set_upt atLeastLessThan_iff by linarith
  from bspec [OF charset_table [unfolded list_all_iff Let_def] this]
  show "char_code (CHARSET ! unat d) \<le> 127" "CHARSET_REV ! char_code (CHARSET ! unat d) = uint d"
    "97 \<le> char_code (CHARSET ! unat d) \<and> char_code (CHARSET ! unat d) \<le> 122 \<or>
     48 \<le> char_code (CHARSET ! unat d) \<and> char_code (CHARSET ! unat d) \<le> 57"
    by simp_all
qed (use assms in \<open>simp add: charset_at_def digit_ok_def\<close>)

definition charset_string :: "byte list \<Rightarrow> string" where
  "charset_string = map (\<lambda>d. CHARSET ! unat d)"

lemma mapE_charset: "list_all digit_ok ds \<Longrightarrow> mapE charset_at ds = Inr (charset_string ds)"
  unfolding charset_string_def by (rule mapE_Inr) (auto simp: list_all_iff charset_nth)

lemma decode_values_charset: "list_all digit_ok ds \<Longrightarrow> decode_values (charset_string ds) = Some ds"
proof (induction ds)
  case (Cons d ds)
  then have IH: "decode_values (charset_string ds) = Some ds" and d: "digit_ok d" by simp_all
  have "0 \<le> uint d" by simp
  then have "uint d \<noteq> -1" by linarith
  then show ?case
    using charset_nth(2) [OF d] IH charset_nth(3) [OF d]
    by (simp only: charset_string_def list.map decode_values.simps) simp
qed (simp add: charset_string_def)

lemma charset_no_colon:
  assumes "list_all digit_ok ds"
  shows "CHR '':'' \<notin> set (charset_string ds)"
proof
  assume "CHR '':'' \<in> set (charset_string ds)"
  then obtain d where "d \<in> set ds" "CHARSET ! unat d = CHR '':''" by (auto simp: charset_string_def)
  then show False using charset_nth(4) [of d] assms by (auto simp: list_all_iff char_code_def)
qed

text \<open>The scan over lower-case letters and over the characters of the values.\<close>

lemma decode_scan_prefix:
  assumes "list_all (\<lambda>c. 97 \<le> char_code c \<and> char_code c \<le> 122) p"
  shows "decode_scan i (p @ cs) s = decode_scan (i + length p) cs (s\<lparr>sc_lower := sc_lower s \<or> p \<noteq> []\<rparr>)"
  using assms by (induction p arbitrary: i s) (simp_all add: decode_scan_step_def)

lemma decode_scan_values:
  assumes "list_all digit_ok ds"
  shows "\<exists>s'. decode_scan i (charset_string ds) s = Some s' \<and> sc_upper s' = sc_upper s \<and> sc_prefixSize s' = sc_prefixSize s"
  using assms
proof (induction ds arbitrary: i s)
  case (Cons d ds)
  then have d: "digit_ok d" and ds: "list_all digit_ok ds" by simp_all
  obtain s' where "decode_scan_step i (CHARSET ! unat d) s = Some s'" "sc_upper s' = sc_upper s"
      "sc_prefixSize s' = sc_prefixSize s"
    using charset_nth(4) [OF d] by (auto simp: decode_scan_step_def)
  then show ?case using Cons.IH [OF ds, of "Suc i" s'] by (simp add: charset_string_def)
qed (simp add: charset_string_def)

lemma LowerCase_lower:
  assumes "97 \<le> char_code c" "char_code c \<le> 122"
  shows "LowerCase c = c"
proof -
  have "\<forall>n \<in> set [97..<123]. n OR 0x20 = (n :: nat)" by code_simp
  moreover have "char_code c \<in> set [97..<123]" using assms unfolding set_upt atLeastLessThan_iff by linarith
  ultimately have "char_code c OR 0x20 = char_code c" by (rule bspec)
  then show ?thesis unfolding LowerCase_def char_code_def by simp
qed

lemma digit_ok_checksum: "list_all digit_ok (CreateChecksum prefix payload)"
proof -
  have "digit_ok (ucast (w AND 0x1f :: 64 word))" for w
    unfolding digit_ok_def below_bit_5 [symmetric] below_bit_def bit_digit by simp
  then show ?thesis unfolding CreateChecksum_def Let_def list_all_iff set_map by blast
qed

lemma length_checksum: "length (CreateChecksum prefix payload) = 8"
  by (simp add: CreateChecksum_def Let_def)

lemma cashaddr_Encode_ok:
  assumes "list_all digit_ok payload"
  shows "cashaddr_Encode prefix payload =
    Inr (prefix @ '':'' @ charset_string (payload @ CreateChecksum prefix payload))"
  using assms mapE_charset [of "payload @ CreateChecksum prefix payload"] digit_ok_checksum
  by (simp add: cashaddr_Encode_def)

text \<open>Decoding the characters of given values, after a prefix and a colon, or with the default prefix.\<close>

lemma cashaddr_Decode_prefixed:
  assumes "prefix_ok prefix" "list_all digit_ok vs"
  shows "cashaddr_Decode (prefix @ '':'' @ charset_string vs) default_prefix =
    (if \<not> VerifyChecksum prefix vs then Inr ([], [])
     else if length vs < 8 then Inl (Error ''values.end() - 8: out of range'')
     else Inr (prefix, take (length vs - 8) vs))"
proof -
  have p: "prefix \<noteq> []" "list_all (\<lambda>c. 97 \<le> char_code c \<and> char_code c \<le> 122) prefix"
    using assms(1) by (simp_all add: prefix_ok_def)
  have l: "map LowerCase prefix = prefix"
    using p(2) by (intro map_idI) (auto simp: list_all_iff intro: LowerCase_lower)
  have c: "decode_scan_step (length prefix) CHR '':'' s = Some (s\<lparr>sc_prefixSize := length prefix\<rparr>)"
    if "\<not> sc_hasNumber s" "sc_prefixSize s = 0" for s
    using p(1) that by (simp add: decode_scan_step_def char_code_def)
  from decode_scan_values [OF assms(2), of "Suc (length prefix)"
      "\<lparr>sc_lower = True, sc_upper = False, sc_hasNumber = False, sc_prefixSize = length prefix\<rparr>"]
  obtain s where "decode_scan (Suc (length prefix)) (charset_string vs)
      \<lparr>sc_lower = True, sc_upper = False, sc_hasNumber = False, sc_prefixSize = length prefix\<rparr> = Some s"
      "\<not> sc_upper s" "sc_prefixSize s = length prefix"
    by (auto simp del: decode_scan.simps)
  then have s: "decode_scan 0 (prefix @ '':'' @ charset_string vs)
      \<lparr>sc_lower = False, sc_upper = False, sc_hasNumber = False, sc_prefixSize = 0\<rparr> = Some s"
      "\<not> sc_upper s" "sc_prefixSize s = length prefix"
    using p by (simp_all add: decode_scan_prefix [OF p(2)] c)
  show ?thesis
    unfolding cashaddr_Decode_def s(1) using p(1) s(2,3) l decode_values_charset [OF assms(2)] by simp
qed

lemma cashaddr_Decode_bare:
  assumes "list_all digit_ok vs"
  shows "cashaddr_Decode (charset_string vs) default_prefix =
    (if \<not> VerifyChecksum default_prefix vs then Inr ([], [])
     else if length vs < 8 then Inl (Error ''values.end() - 8: out of range'')
     else Inr (default_prefix, take (length vs - 8) vs))"
  using decode_scan_values [OF assms, of 0 "\<lparr>sc_lower = False, sc_upper = False, sc_hasNumber = False, sc_prefixSize = 0\<rparr>"]
    decode_values_charset [OF assms] by (auto simp: cashaddr_Decode_def)

theorem cashaddr_roundtrip:
  assumes "prefix_ok prefix" "list_all digit_ok payload"
  shows "bindE (cashaddr_Encode prefix payload) (\<lambda>str. cashaddr_Decode str default_prefix) = Inr (prefix, payload)"
proof -
  have "list_all digit_ok (payload @ CreateChecksum prefix payload)" using assms(2) digit_ok_checksum by simp
  from cashaddr_Decode_prefixed [OF assms(1) this] show ?thesis
    unfolding cashaddr_Encode_ok [OF assms(2)] bindE.simps using checksum_verifies [of prefix payload]
    by (simp add: length_checksum)
qed

end
