(* ===== verification/Cashaddrenc.thy ===== *)
theory Cashaddrenc
  imports Cashaddr
begin

text \<open>
  \<open>ConvertBits\<close> of \<open>util/strencodings.h\<close> and the destinations of \<open>src/cashaddrenc.cpp\<close>. The
  accumulator of \<open>ConvertBits\<close> is masked to fewer than 13 bits in every use, so its \<open>size_t\<close> is a
  natural number here.
\<close>

subsection \<open>Regrouping bits\<close>

text \<open>The inner loop: it emits digits while enough bits are left.\<close>

fun convert_out :: "nat \<Rightarrow> nat \<Rightarrow> nat \<Rightarrow> nat list \<times> nat" where
  "convert_out tobits acc bits =
     (if 0 < tobits \<and> tobits \<le> bits then
        (case convert_out tobits acc (bits - tobits) of (out, rest) \<Rightarrow>
           ((drop_bit (bits - tobits) acc AND mask tobits) # out, rest))
      else ([], bits))"

declare convert_out.simps [simp del]

fun convert_loop :: "nat \<Rightarrow> nat \<Rightarrow> nat \<Rightarrow> nat \<Rightarrow> nat list \<Rightarrow> nat list \<times> nat \<times> nat" where
  "convert_loop frombits tobits acc bits [] = ([], acc, bits)"
| "convert_loop frombits tobits acc bits (x # xs) =
     (let acc = (push_bit frombits acc OR x) AND mask (frombits + tobits - 1);
          (out, bits) = convert_out tobits acc (bits + frombits);
          (outs, s) = convert_loop frombits tobits acc bits xs in
      (out @ outs, s))"

definition ConvertBits :: "nat \<Rightarrow> nat \<Rightarrow> bool \<Rightarrow> byte list \<Rightarrow> byte list \<times> bool" where
  "ConvertBits frombits tobits pad xs =
     (case convert_loop frombits tobits 0 0 (map unat xs) of (out, acc, bits) \<Rightarrow>
        if pad then
          (map word_of_nat (if bits \<noteq> 0 then out @ [push_bit (tobits - bits) acc AND mask tobits] else out), True)
        else
          (map word_of_nat out,
           \<not> (frombits \<le> bits \<or> push_bit (tobits - bits) acc AND mask tobits \<noteq> 0)))"

subsection \<open>Destinations\<close>

datatype CTxDestination = CNoDestination | PKHash buffer | ScriptHash buffer

abbreviation (input) PUBKEY_TYPE :: byte where "PUBKEY_TYPE \<equiv> 0"
abbreviation (input) SCRIPT_TYPE :: byte where "SCRIPT_TYPE \<equiv> 1"

record CashAddrContent =
  ca_type :: byte
  ca_hash :: buffer

abbreviation no_content :: CashAddrContent where
  "no_content \<equiv> \<lparr>ca_type = PUBKEY_TYPE, ca_hash = []\<rparr>"

definition encoded_size :: "nat \<Rightarrow> byte option" where
  "encoded_size bits =
     (if bits = 160 then Some 0 else if bits = 192 then Some 1 else if bits = 224 then Some 2
      else if bits = 256 then Some 3 else if bits = 320 then Some 4 else if bits = 384 then Some 5
      else if bits = 448 then Some 6 else if bits = 512 then Some 7 else None)"

definition PackAddrData :: "buffer \<Rightarrow> byte \<Rightarrow> byte list result" where
  "PackAddrData hash type =
     (case encoded_size (length hash * 8) of
        None \<Rightarrow> Inl (Error ''Error packing cashaddr: invalid address length'')
      | Some es \<Rightarrow>
          let version_byte = push_bit 3 type OR es in
          Inr (fst (ConvertBits 8 5 True (version_byte # hash))))"

definition EncodeCashAddrContent :: "string \<Rightarrow> CashAddrContent \<Rightarrow> string result" where
  "EncodeCashAddrContent prefix content =
     bindE (PackAddrData (ca_hash content) (ca_type content)) (\<lambda>data. cashaddr_Encode prefix data)"

fun EncodeCashAddr :: "CTxDestination \<Rightarrow> string \<Rightarrow> string result" where
  "EncodeCashAddr (PKHash hash) prefix = bindE (PackAddrData hash PUBKEY_TYPE) (cashaddr_Encode prefix)"
| "EncodeCashAddr (ScriptHash hash) prefix = bindE (PackAddrData hash SCRIPT_TYPE) (cashaddr_Encode prefix)"
| "EncodeCashAddr CNoDestination prefix = Inr []"

definition DecodeCashAddrContent :: "string \<Rightarrow> string \<Rightarrow> CashAddrContent result" where
  "DecodeCashAddrContent addr expectedPrefix =
     bindE (cashaddr_Decode addr expectedPrefix) (\<lambda>(prefix, payload).
     if prefix \<noteq> expectedPrefix then Inr no_content
     else if payload = [] then Inr no_content
     else case ConvertBits 5 8 False payload of (data, ok) \<Rightarrow>
       if \<not> ok then Inr no_content
       else
         bindE (case data of [] \<Rightarrow> Inl (Error ''data[0]: out of range'') | version # _ \<Rightarrow> Inr version) (\<lambda>version.
         if version AND 0x80 \<noteq> 0 then Inr no_content
         else
           let type = drop_bit 3 version AND 0x1f;
               hash_size = 20 + 4 * unat (version AND 0x03);
               hash_size = (if version AND 0x04 \<noteq> 0 then hash_size * 2 else hash_size) in
           if length data \<noteq> hash_size + 1 then Inr no_content
           else Inr \<lparr>ca_type = type, ca_hash = drop 1 data\<rparr>))"

definition DecodeCashAddrDestination :: "CashAddrContent \<Rightarrow> CTxDestination" where
  "DecodeCashAddrDestination content =
     (if length (ca_hash content) \<noteq> 20 then CNoDestination
      else if ca_type content = PUBKEY_TYPE then PKHash (ca_hash content)
      else if ca_type content = SCRIPT_TYPE then ScriptHash (ca_hash content)
      else CNoDestination)"

definition DecodeCashAddr :: "string \<Rightarrow> string \<Rightarrow> CTxDestination result" where
  "DecodeCashAddr addr prefix =
     bindE (DecodeCashAddrContent addr prefix) (\<lambda>content.
     if length (ca_hash content) = 0 then Inr CNoDestination
     else Inr (DecodeCashAddrDestination content))"

subsection \<open>Regrouping keeps the number\<close>

text \<open>The number that a list of \<open>k\<close>-bit digits writes, after \<open>a\<close>.\<close>

definition digits_nat :: "nat \<Rightarrow> nat \<Rightarrow> nat list \<Rightarrow> nat" where
  "digits_nat k = foldl (\<lambda>a d. a * 2 ^ k + d)"

lemma digits_nat_simps [simp]:
  "digits_nat k a [] = a"
  "digits_nat k a (d # ds) = digits_nat k (a * 2 ^ k + d) ds"
  "digits_nat k a (xs @ ys) = digits_nat k (digits_nat k a xs) ys"
  by (simp_all add: digits_nat_def)

lemma digits_nat_start: "digits_nat k a ds = a * 2 ^ (k * length ds) + digits_nat k 0 ds"
proof (induction ds arbitrary: a)
  case (Cons d ds)
  show ?case
    using Cons.IH [of "a * 2 ^ k + d"] Cons.IH [of d] by (simp add: algebra_simps power_add)
qed simp

lemma digits_nat_bound: "list_all (\<lambda>d. d < 2 ^ k) ds \<Longrightarrow> digits_nat k 0 ds < 2 ^ (k * length ds)"
proof (induction ds)
  case (Cons d ds)
  then have "digits_nat k 0 (d # ds) < d * 2 ^ (k * length ds) + 2 ^ (k * length ds)"
    using digits_nat_start [of k d ds] by simp
  also have "\<dots> = Suc d * 2 ^ (k * length ds)" by simp
  also have "\<dots> \<le> 2 ^ k * 2 ^ (k * length ds)" using Cons.prems by (intro mult_le_mono1) simp
  finally show ?case by (simp add: power_add)
qed simp

lemma digits_nat_inject:
  assumes "digits_nat k 0 xs = digits_nat k 0 ys" "length xs = length ys"
    "list_all (\<lambda>d. d < 2 ^ k) xs" "list_all (\<lambda>d. d < 2 ^ k) ys"
  shows "xs = ys"
  using assms(2,1,3,4)
proof (induction xs ys rule: list_induct2)
  case (Cons x xs y ys)
  let ?m = "2 ^ (k * length xs) :: nat"
  have e: "x * ?m + digits_nat k 0 xs = y * ?m + digits_nat k 0 ys"
    using Cons.prems(1) digits_nat_start [of k x xs] digits_nat_start [of k y ys] Cons.hyps by simp
  have b: "digits_nat k 0 xs < ?m" "digits_nat k 0 ys < ?m"
    using digits_nat_bound [of k xs] digits_nat_bound [of k ys] Cons.prems Cons.hyps by simp_all
  have "(x * ?m + digits_nat k 0 xs) div ?m = x" "(y * ?m + digits_nat k 0 ys) div ?m = y"
    "(x * ?m + digits_nat k 0 xs) mod ?m = digits_nat k 0 xs" "(y * ?m + digits_nat k 0 ys) mod ?m = digits_nat k 0 ys"
    using b by simp_all
  then have "x = y" "digits_nat k 0 xs = digits_nat k 0 ys" using e by simp_all
  then show ?case using Cons.IH Cons.prems by simp
qed simp

lemma convert_out_spec:
  assumes "0 < t" "convert_out t acc bits = (out, rest)"
  shows "rest = bits mod t" "length out = bits div t" "list_all (\<lambda>d. d < 2 ^ t) out"
    "digits_nat t 0 out = (acc mod 2 ^ bits) div 2 ^ (bits mod t)"
proof -
  have "rest = bits mod t \<and> length out = bits div t \<and> list_all (\<lambda>d. d < 2 ^ t) out \<and>
    digits_nat t 0 out = (acc mod 2 ^ bits) div 2 ^ (bits mod t)"
    using assms
  proof (induction bits arbitrary: out rest rule: less_induct)
    case (less bits)
    show ?case
    proof (cases "t \<le> bits")
      case False
      then show ?thesis using less.prems by (subst (asm) convert_out.simps) simp
    next
      case True
      obtain out' where o: "convert_out t acc (bits - t) = (out', rest)"
          "out = (drop_bit (bits - t) acc AND mask t) # out'"
        using less.prems True by (subst (asm) convert_out.simps) (auto split: prod.splits)
      have ih: "rest = (bits - t) mod t" "length out' = (bits - t) div t" "list_all (\<lambda>d. d < 2 ^ t) out'"
          "digits_nat t 0 out' = (acc mod 2 ^ (bits - t)) div 2 ^ ((bits - t) mod t)"
        using less.IH [of "bits - t" out' rest] less.prems(1) True o(1) by auto
      let ?d = "drop_bit (bits - t) acc AND mask t" and ?q = "(bits - t) div t" and ?b = "bits mod t"
      have d: "?d = (acc div 2 ^ (bits - t)) mod 2 ^ t"
        by (simp add: drop_bit_eq_div flip: take_bit_eq_mask take_bit_eq_mod)
      have m: "(bits - t) mod t = ?b" "bits div t = Suc ?q"
        using True less.prems(1) by (simp_all add: le_mod_geq le_div_geq)
      have s: "bits - t = t * ?q + ?b" using m(1) by (metis mult_div_mod_eq)
      have "acc mod 2 ^ bits = ?d * 2 ^ (bits - t) + acc mod 2 ^ (bits - t)"
        using True mod_mult2_eq [of acc "2 ^ (bits - t)" "2 ^ t"] d
        by (simp add: mult.commute flip: power_add)
      also have "\<dots> = (?d * 2 ^ (t * ?q)) * 2 ^ ?b + acc mod 2 ^ (bits - t)"
        by (subst (1) s) (simp add: power_add)
      finally have "(acc mod 2 ^ bits) div 2 ^ ?b = ?d * 2 ^ (t * ?q) + (acc mod 2 ^ (bits - t)) div 2 ^ ?b"
        by simp
      then show ?thesis
        using ih o(2) m d digits_nat_start [of t ?d out'] by simp
    qed
  qed
  then show "rest = bits mod t" "length out = bits div t" "list_all (\<lambda>d. d < 2 ^ t) out"
    "digits_nat t 0 out = (acc mod 2 ^ bits) div 2 ^ (bits mod t)" by auto
qed

lemma or_digit: "x < 2 ^ f \<Longrightarrow> push_bit f acc OR x = acc * 2 ^ f + (x :: nat)"
proof -
  assume "x < 2 ^ f"
  then have x: "take_bit f x = x" by (rule take_bit_nat_eq_self)
  have "bit x n \<Longrightarrow> n < f" for n
    using bit_take_bit_iff [of f x n] unfolding x by blast
  then have "push_bit f acc AND x = 0"
    by (intro bit_eqI) (auto simp: bit_and_iff bit_push_bit_iff dest: leD)
  then have "push_bit f acc OR x = push_bit f acc + x" by (simp add: disjunctive_add_eq_or)
  then show ?thesis by (simp add: push_bit_eq_mult)
qed

lemma convert_loop_spec:
  assumes "0 < f" "0 < t" "bits < t" "list_all (\<lambda>x. x < 2 ^ f) xs"
    "convert_loop f t acc bits xs = (out, acc', bits')"
  defines "n \<equiv> bits + f * length xs" and "v \<equiv> digits_nat f (acc mod 2 ^ bits) xs"
  shows "bits' = n mod t \<and> length out = n div t \<and> list_all (\<lambda>d. d < 2 ^ t) out \<and>
    digits_nat t 0 out = v div 2 ^ (n mod t) \<and> acc' mod 2 ^ (n mod t) = v mod 2 ^ (n mod t)"
  using assms(3-5) unfolding n_def v_def
proof (induction xs arbitrary: bits acc out)
  case Nil
  then show ?case using assms(2) by simp
next
  case (Cons x xs)
  define acc1 where "acc1 = (push_bit f acc OR x) AND mask (f + t - 1)"
  define y where "y = (acc mod 2 ^ bits) * 2 ^ f + x"
  define b where "b = (bits + f) mod t"
  define q where "q = (bits + f) div t"
  define n' where "n' = b + f * length xs"
  define v' where "v' = digits_nat f (acc1 mod 2 ^ b) xs"
  obtain o1 where o1: "convert_out t acc1 (bits + f) = (o1, b)"
    using convert_out_spec(1) [OF assms(2)] unfolding b_def by (metis surj_pair)
  obtain o2 where o2: "convert_loop f t acc1 b xs = (o2, acc', bits')" "out = o1 @ o2"
    using Cons.prems(3) o1 by (auto simp: acc1_def Let_def split: prod.splits)
  have x: "x < 2 ^ f" "list_all (\<lambda>x. x < 2 ^ f) xs" using Cons.prems(2) by simp_all
  have "acc1 = (acc * 2 ^ f + x) mod 2 ^ (f + t - 1)"
    by (simp add: acc1_def or_digit [OF x(1)] flip: take_bit_eq_mask take_bit_eq_mod)
  moreover have "bits + f \<le> f + t - 1" using Cons.prems(1) by simp
  ultimately have "acc1 mod 2 ^ (bits + f) = (acc * 2 ^ f + x) mod 2 ^ (bits + f)"
    by (simp add: mod_exp_eq min_absorb2 min.absorb1)
  also have "\<dots> = y"
    using x(1) mod_mult2_eq [of "acc * 2 ^ f + x" "2 ^ f" "2 ^ bits"]
    by (simp add: y_def power_add mult.commute)
  finally have a1: "acc1 mod 2 ^ (bits + f) = y" .
  have "b \<le> bits + f" by (simp add: b_def)
  then have a1b: "acc1 mod 2 ^ b = y mod 2 ^ b"
    by (metis a1 le_imp_power_dvd mod_mod_cancel)
  have out1: "length o1 = q" "list_all (\<lambda>d. d < 2 ^ t) o1" "digits_nat t 0 o1 = y div 2 ^ b"
    using convert_out_spec [OF assms(2) o1] by (simp_all add: a1 q_def b_def)
  have "b < t" using assms(2) by (simp add: b_def)
  from Cons.IH [OF this x(2) o2(1)]
  have ih: "bits' = n' mod t" "length o2 = n' div t" "list_all (\<lambda>d. d < 2 ^ t) o2"
      "digits_nat t 0 o2 = v' div 2 ^ (n' mod t)" "acc' mod 2 ^ (n' mod t) = v' mod 2 ^ (n' mod t)"
    unfolding n'_def v'_def by blast+
  have n: "bits + f * length (x # xs) = t * q + n'"
    by (simp add: n'_def q_def b_def)
  have "digits_nat f (acc mod 2 ^ bits) (x # xs) = digits_nat f y xs"
    by (simp add: y_def)
  also have "\<dots> = y * 2 ^ (f * length xs) + digits_nat f 0 xs" by (rule digits_nat_start)
  also have "\<dots> = (y div 2 ^ b) * 2 ^ n' + ((y mod 2 ^ b) * 2 ^ (f * length xs) + digits_nat f 0 xs)"
  proof -
    have "y * 2 ^ (f * length xs) = (y div 2 ^ b * 2 ^ b + y mod 2 ^ b) * 2 ^ (f * length xs)"
      by (simp only: div_mult_mod_eq)
    then show ?thesis by (simp only: n'_def power_add add_mult_distrib mult.assoc add.assoc)
  qed
  also have "\<dots> = (y div 2 ^ b) * 2 ^ n' + v'"
    using digits_nat_start [of f "y mod 2 ^ b" xs] by (simp add: v'_def a1b)
  finally have v: "digits_nat f (acc mod 2 ^ bits) (x # xs) = (y div 2 ^ b) * 2 ^ n' + v'" .
  have "n' = t * (n' div t) + n' mod t" by simp
  then have p: "(2::nat) ^ n' = 2 ^ (t * (n' div t)) * 2 ^ (n' mod t)" by (metis power_add)
  have "digits_nat t 0 (o1 @ o2) = (y div 2 ^ b) * 2 ^ (t * (n' div t)) + v' div 2 ^ (n' mod t)"
    using digits_nat_start [of t "y div 2 ^ b" o2] out1 ih by simp
  then show ?case
    using out1 ih assms(2) unfolding n v o2(2) p by (simp flip: mult.assoc)
qed

subsection \<open>Five-bit digits and back\<close>

lemma ceil_5:
  fixes n :: nat
  shows "(n + 4) div 5 = n div 5 + (if n mod 5 = 0 then 0 else 1)"
    "5 * ((n + 4) div 5) = n + (if n mod 5 = 0 then 0 else 5 - n mod 5)"
proof -
  have n: "n = 5 * (n div 5) + n mod 5" "n mod 5 < 5" by simp_all
  have "(5 * (n div 5) + (n mod 5 + 4)) div 5 = n div 5 + (n mod 5 + 4) div 5" by (rule div_mult_self4) simp
  moreover have "5 * (n div 5) + (n mod 5 + 4) = n + 4" using n(1) by linarith
  ultimately have "(n + 4) div 5 = n div 5 + (n mod 5 + 4) div 5" by simp
  moreover have "(n mod 5 + 4) div 5 = (if n mod 5 = 0 then 0 else 1)"
    using n(2) by (auto intro: div_nat_eqI)
  ultimately show c: "(n + 4) div 5 = n div 5 + (if n mod 5 = 0 then 0 else 1)" by simp
  show "5 * ((n + 4) div 5) = n + (if n mod 5 = 0 then 0 else 5 - n mod 5)"
  proof (cases "n mod 5 = 0")
    case True
    then show ?thesis unfolding c using n(1) by simp
  next
    case False
    then have "5 * ((n + 4) div 5) = 5 * (n div 5) + 5" unfolding c by simp
    then show ?thesis using False n by (simp only: if_False)
  qed
qed

lemma last_digit:
  fixes acc :: nat
  shows "bits \<le> t \<Longrightarrow> push_bit (t - bits) acc AND mask t = (acc mod 2 ^ bits) * 2 ^ (t - bits)"
  unfolding take_bit_eq_mask [symmetric] take_bit_push_bit by (simp add: push_bit_eq_mult take_bit_eq_mod)

lemma ConvertBits_8_5:
  assumes "ConvertBits 8 5 True xs = (ds, ok)"
  shows "ok" "list_all digit_ok ds" "length ds = (8 * length xs + 4) div 5"
    "digits_nat 5 0 (map unat ds) = digits_nat 8 0 (map unat xs) * 2 ^ (5 * length ds - 8 * length xs)"
proof -
  obtain out acc bits where c: "convert_loop 8 5 0 0 (map unat xs) = (out, acc, bits)" by (metis surj_pair)
  let ?n = "8 * length xs" and ?v = "digits_nat 8 0 (map unat xs)"
  have s: "bits = ?n mod 5" "length out = ?n div 5" "list_all (\<lambda>d. d < 2 ^ 5) out"
      "digits_nat 5 0 out = ?v div 2 ^ (?n mod 5)" "acc mod 2 ^ (?n mod 5) = ?v mod 2 ^ (?n mod 5)"
    using convert_loop_spec [of 8 5 0 "map unat xs" 0 out acc bits] c by (simp_all add: list_all_iff)
  define os where "os = (if bits \<noteq> 0 then out @ [push_bit (5 - bits) acc AND mask 5] else out)"
  have ds: "ds = map word_of_nat os" "ok"
    using assms by (auto simp: ConvertBits_def c os_def)
  have l: "list_all (\<lambda>d. d < 32) os"
    using s(3) by (auto simp: os_def list_all_iff take_bit_eq_mod simp flip: take_bit_eq_mask)
  then have u: "map unat ds = os"
    unfolding ds map_map by (intro map_idI) (auto simp: list_all_iff unat_word_of_nat_byte)
  show "ok" by (fact ds)
  show "list_all digit_ok ds" using l unfolding u [symmetric] by (simp add: list_all_iff digit_ok_def)
  show len: "length ds = (8 * length xs + 4) div 5"
  proof -
    have "length ds = ?n div 5 + (if ?n mod 5 = 0 then 0 else 1)" using s(1,2) by (simp add: ds os_def)
    also have "\<dots> = (?n + 4) div 5" by (rule ceil_5(1) [symmetric])
    finally show ?thesis .
  qed
  show "digits_nat 5 0 (map unat ds) = ?v * 2 ^ (5 * length ds - ?n)"
  proof (cases "bits = 0")
    case True
    moreover have "5 * ((?n + 4) div 5) - ?n = 0" using True s(1) by (simp only: ceil_5(2)) simp
    ultimately show ?thesis using s by (simp add: u len os_def)
  next
    case False
    then have b: "5 * ((?n + 4) div 5) - ?n = 5 - bits" using s(1) by (simp only: ceil_5(2)) simp
    have "bits < 5" using s(1) by simp
    have d: "push_bit (5 - bits) acc AND mask 5 = (?v mod 2 ^ bits) * 2 ^ (5 - bits)"
      using last_digit [of bits 5 acc] \<open>bits < 5\<close> s(1,5) by simp
    have "(2::nat) ^ 5 = 2 ^ bits * 2 ^ (5 - bits)" using \<open>bits < 5\<close> by (simp flip: power_add)
    moreover have "os = out @ [(?v mod 2 ^ bits) * 2 ^ (5 - bits)]" using False d by (simp add: os_def)
    moreover have "digits_nat 5 0 out = ?v div 2 ^ bits" using s(1,4) by simp
    ultimately have "digits_nat 5 0 os = ?v div 2 ^ bits * (2 ^ bits * 2 ^ (5 - bits)) + (?v mod 2 ^ bits) * 2 ^ (5 - bits)"
      by (simp only: digits_nat_simps)
    then have "digits_nat 5 0 os = (?v div 2 ^ bits * 2 ^ bits + ?v mod 2 ^ bits) * 2 ^ (5 - bits)"
      by (simp only: add_mult_distrib mult.assoc)
    then show ?thesis unfolding u len b by (simp only: div_mult_mod_eq)
  qed
qed

theorem convert_roundtrip: "ConvertBits 5 8 False (fst (ConvertBits 8 5 True xs)) = (xs, True)"
proof -
  obtain ds where ds: "ConvertBits 8 5 True xs = (ds, True)"
    using ConvertBits_8_5(1) by (metis surj_pair)
  note d = ConvertBits_8_5 [OF ds]
  obtain out acc bits where c: "convert_loop 5 8 0 0 (map unat ds) = (out, acc, bits)" by (metis surj_pair)
  let ?n = "5 * length ds" and ?v = "digits_nat 5 0 (map unat ds)" and ?p = "5 * length ds - 8 * length xs"
  have n: "?n div 8 = length xs" "?n mod 8 = ?p" "?p < 5" 
  proof -
    define p where "p = (if 8 * length xs mod 5 = 0 then 0 else 5 - 8 * length xs mod 5)"
    have "p < 5" by (simp add: p_def)
    moreover have "?n = length xs * 8 + p" unfolding d(3) ceil_5(2) p_def by simp
    ultimately show "?n div 8 = length xs" "?n mod 8 = ?p" "?p < 5" by (simp_all add: div_mult_self3 mult.commute)
  qed
  have s: "bits = ?p" "length out = length xs" "list_all (\<lambda>d. d < 2 ^ 8) out"
      "digits_nat 8 0 out = ?v div 2 ^ ?p" "acc mod 2 ^ ?p = ?v mod 2 ^ ?p"
    using convert_loop_spec [of 5 8 0 "map unat ds" 0 out acc bits] c d(2) n
    by (simp_all add: list_all_iff digit_ok_def)
  have "out = map unat xs"
    by (rule digits_nat_inject [of 8]) (use s d(4) in \<open>simp_all add: list_all_iff\<close>)
  moreover have "push_bit (8 - bits) acc AND mask 8 = 0"
    using last_digit [of bits 8 acc] s(1,5) n(3) d(4) by simp
  moreover have "bits < 5" using s(1) n(3) by simp
  ultimately show ?thesis
    unfolding ds fst_conv ConvertBits_def [of 5 8 False ds] c by (simp add: map_idI comp_def)
qed

subsection \<open>Addresses\<close>

text \<open>The version byte: a type below 16 and a size below 8.\<close>

definition hash_sizes :: "nat list" where
  "hash_sizes = [20, 24, 28, 32, 40, 48, 56, 64]"

lemma version_table:
  "list_all (\<lambda>t. list_all (\<lambda>s.
     let v = push_bit 3 (word_of_nat t) OR word_of_nat s :: byte; n = 20 + 4 * unat (v AND 0x03) in
     v AND 0x80 = 0 \<and> drop_bit 3 v AND 0x1f = word_of_nat t \<and>
     (if v AND 0x04 \<noteq> 0 then n * 2 else n) = hash_sizes ! s) [0..<8]) [0..<16]"
  by code_simp

lemma version_byte:
  fixes t s :: byte
  assumes "unat t < 16" "unat s < 8"
  defines "v \<equiv> push_bit 3 t OR s"
  shows "v AND 0x80 = 0" "drop_bit 3 v AND 0x1f = t"
    "(if v AND 0x04 \<noteq> 0 then (20 + 4 * unat (v AND 0x03)) * 2 else 20 + 4 * unat (v AND 0x03)) = hash_sizes ! unat s"
proof -
  have "unat t \<in> set [0..<16]" "unat s \<in> set [0..<8]" using assms unfolding set_upt atLeastLessThan_iff by linarith+
  from bspec [OF bspec [OF version_table [unfolded list_all_iff Let_def] this(1)] this(2)]
  show "v AND 0x80 = 0" "drop_bit 3 v AND 0x1f = t"
    "(if v AND 0x04 \<noteq> 0 then (20 + 4 * unat (v AND 0x03)) * 2 else 20 + 4 * unat (v AND 0x03)) = hash_sizes ! unat s"
    unfolding word_of_nat_unat_byte v_def by blast+
qed

lemma encoded_size_table:
  assumes "encoded_size (n * 8) = Some s"
  shows "unat s < 8" "hash_sizes ! unat s = n"
  using assms by (auto simp: encoded_size_def hash_sizes_def split: if_splits)

definition content_ok :: "CashAddrContent \<Rightarrow> bool" where
  "content_ok content \<longleftrightarrow> unat (ca_type content) < 16 \<and> length (ca_hash content) \<in> set hash_sizes"

lemma encoded_size_ok: "n \<in> set hash_sizes \<Longrightarrow> \<exists>s. encoded_size (n * 8) = Some s"
  by (auto simp: encoded_size_def hash_sizes_def)

lemma content_roundtrip:
  assumes "prefix_ok prefix" "content_ok content"
  shows "bindE (EncodeCashAddrContent prefix content) (\<lambda>addr. DecodeCashAddrContent addr prefix) = Inr content"
proof -
  from assms(2) obtain s where s: "encoded_size (length (ca_hash content) * 8) = Some s"
    using encoded_size_ok by (auto simp: content_ok_def)
  note es = encoded_size_table [OF s]
  have t: "unat (ca_type content) < 16" using assms(2) by (simp add: content_ok_def)
  let ?data = "(push_bit 3 (ca_type content) OR s) # ca_hash content"
  obtain ds where ds: "ConvertBits 8 5 True ?data = (ds, True)"
    using ConvertBits_8_5(1) by (metis surj_pair)
  have "length ds = (8 * length ?data + 4) div 5" by (rule ConvertBits_8_5(3) [OF ds])
  then have ne: "ds \<noteq> []" by auto
  have e: "EncodeCashAddrContent prefix content = cashaddr_Encode prefix ds"
    by (simp add: EncodeCashAddrContent_def PackAddrData_def s ds)
  then obtain a where a: "EncodeCashAddrContent prefix content = Inr a" "cashaddr_Decode a prefix = Inr (prefix, ds)"
    using cashaddr_roundtrip [OF assms(1) ConvertBits_8_5(2) [OF ds], of prefix] by auto
  have c: "ConvertBits 5 8 False ds = (?data, True)" using convert_roundtrip [of ?data] by (simp add: ds)
  show ?thesis
    unfolding a(1) bindE.simps DecodeCashAddrContent_def a(2) prod.case
    using ne version_byte [OF t es(1)] es(2) by (simp add: c Let_def)
qed

text \<open>C16. An address written by the node reads back as the destination it was written for.\<close>

theorem cashaddr_destination_roundtrip:
  assumes "prefix_ok prefix" "dst = PKHash hash \<or> dst = ScriptHash hash" "length hash = 20"
  shows "bindE (EncodeCashAddr dst prefix) (\<lambda>addr. DecodeCashAddr addr prefix) = Inr dst"
proof -
  have r: "bindE (EncodeCashAddrContent prefix \<lparr>ca_type = t, ca_hash = hash\<rparr>) (\<lambda>addr. DecodeCashAddr addr prefix) =
      Inr (DecodeCashAddrDestination \<lparr>ca_type = t, ca_hash = hash\<rparr>)" if "unat t < 16" for t
  proof -
    have "content_ok \<lparr>ca_type = t, ca_hash = hash\<rparr>"
      using that assms(3) by (simp add: content_ok_def hash_sizes_def)
    from content_roundtrip [OF assms(1) this] obtain a where
        "EncodeCashAddrContent prefix \<lparr>ca_type = t, ca_hash = hash\<rparr> = Inr a"
        "DecodeCashAddrContent a prefix = Inr \<lparr>ca_type = t, ca_hash = hash\<rparr>" by auto
    moreover have "hash \<noteq> []" using assms(3) by auto
    ultimately show ?thesis by (simp add: DecodeCashAddr_def del: bindE_Inr_iff)
  qed
  have "EncodeCashAddr (PKHash hash) prefix = EncodeCashAddrContent prefix \<lparr>ca_type = 0, ca_hash = hash\<rparr>"
    "EncodeCashAddr (ScriptHash hash) prefix = EncodeCashAddrContent prefix \<lparr>ca_type = 1, ca_hash = hash\<rparr>"
    by (simp_all add: EncodeCashAddrContent_def)
  then show ?thesis using assms(2,3) r [of 0] r [of 1] by (auto simp: DecodeCashAddrDestination_def)
qed


theorem cashaddr_destination_roundtrip_witness:
  "bindE (EncodeCashAddr (PKHash (replicate 20 7)) ''ecash'') (\<lambda>addr. DecodeCashAddr addr ''ecash'') =
     Inr (PKHash (replicate 20 7))"
proof -
  have "prefix_ok ''ecash''" by code_simp
  then show ?thesis
    using cashaddr_destination_roundtrip [of "''ecash''" "PKHash (replicate 20 7)" "replicate 20 7"] by simp
qed

subsection \<open>Where decoding goes out of range\<close>

abbreviation short_error :: error where
  "short_error \<equiv> Error ''values.end() - 8: out of range''"

lemma CHARSET_REV_bound: "list_all (\<lambda>x. -1 \<le> x \<and> x < 32) CHARSET_REV" "length CHARSET_REV = 128"
  by code_simp+

lemma decode_values_digits:
  "decode_values cs = Some ds \<Longrightarrow> list_all digit_ok ds \<and> length ds = length cs"
proof (induction cs arbitrary: ds)
  case (Cons c cs)
  then obtain es where c: "char_code c \<le> 127" "CHARSET_REV ! char_code c \<noteq> -1" and
      es: "decode_values cs = Some es" "ds = word_of_int (CHARSET_REV ! char_code c) # es"
    by (auto split: if_splits)
  have "CHARSET_REV ! char_code c \<in> set CHARSET_REV" using c(1) CHARSET_REV_bound(2) by (intro nth_mem) simp
  then have "-1 \<le> CHARSET_REV ! char_code c \<and> CHARSET_REV ! char_code c < 32"
    using CHARSET_REV_bound(1) unfolding list_all_iff by (rule bspec [rotated])
  then have "digit_ok (word_of_int (CHARSET_REV ! char_code c))"
    using c(2) by (simp add: digit_ok_def unat_eq_nat_uint uint_word_of_int nat_less_iff)
  then show ?case using Cons.IH [OF es(1)] es(2) by simp
qed simp

text \<open>The characters of the values: what follows the colon, or the whole string when it has none.\<close>

definition after_colon :: "string \<Rightarrow> string" where
  "after_colon str = (if CHR '':'' \<in> set str then tl (dropWhile (\<lambda>c. c \<noteq> CHR '':'') str) else str)"

lemma decode_scan_colon:
  "decode_scan i cs s = Some s' \<Longrightarrow>
     (if CHR '':'' \<in> set cs
      then sc_prefixSize s = 0 \<and> sc_prefixSize s' = i + length (takeWhile (\<lambda>c. c \<noteq> CHR '':'') cs) \<and> sc_prefixSize s' \<noteq> 0
      else sc_prefixSize s' = sc_prefixSize s)"
proof (induction cs arbitrary: i s)
  case (Cons c cs)
  then obtain t where t: "decode_scan_step i c s = Some t" "decode_scan (Suc i) cs t = Some s'"
    by (auto split: option.splits)
  note IH = Cons.IH [OF t(2)]
  show ?case
  proof (cases "c = CHR '':''")
    case True
    then have "t = s\<lparr>sc_prefixSize := i\<rparr>" "i \<noteq> 0" "sc_prefixSize s = 0"
      using t(1) by (auto simp: decode_scan_step_def char_code_def split: if_splits)
    then show ?thesis using IH True by (auto split: if_splits)
  next
    case False
    then have "sc_prefixSize t = sc_prefixSize s"
      using t(1) by (auto simp: decode_scan_step_def split: if_splits)
    then show ?thesis using IH False by (auto split: if_splits)
  qed
qed simp

lemma cashaddr_Decode_shape:
  obtains "cashaddr_Decode str default_prefix = Inr ([], [])"
  | prefix vs where "decode_values (after_colon str) = Some vs"
      "cashaddr_Decode str default_prefix =
        (if length vs < 8 then Inl short_error else Inr (prefix, take (length vs - 8) vs))"
proof (cases "decode_scan 0 str \<lparr>sc_lower = False, sc_upper = False, sc_hasNumber = False, sc_prefixSize = 0\<rparr>")
  case None
  then show ?thesis using that(1) by (simp add: cashaddr_Decode_def)
next
  case (Some s)
  have a: "after_colon str = drop (if sc_prefixSize s = 0 then 0 else sc_prefixSize s + 1) str"
    using decode_scan_colon [OF Some]
    by (cases "CHR '':'' \<in> set str") (auto simp: after_colon_def dropWhile_eq_drop drop_Suc tl_drop)
  define p where "p = (if sc_prefixSize s = 0 then default_prefix else map LowerCase (take (sc_prefixSize s) str))"
  have d: "cashaddr_Decode str default_prefix = (if sc_upper s \<and> sc_lower s then Inr ([], []) else
      case decode_values (after_colon str) of None \<Rightarrow> Inr ([], [])
      | Some vs \<Rightarrow> if \<not> VerifyChecksum p vs then Inr ([], []) else
          if length vs < 8 then Inl short_error else Inr (p, take (length vs - 8) vs))"
    by (cases "sc_prefixSize s = 0") (simp_all add: cashaddr_Decode_def Some a p_def split: option.split)
  show ?thesis
  proof (cases "decode_values (after_colon str)")
    case None
    then show ?thesis using that(1) d by simp
  next
    case (Some vs)
    show ?thesis
      by (cases "sc_upper s \<and> sc_lower s \<or> \<not> VerifyChecksum p vs") (use that(1) that(2) [OF Some, of p] d Some in auto)
  qed
qed

lemma cashaddr_Decode_error:
  assumes "cashaddr_Decode str default_prefix = Inl e"
  shows "e = short_error \<and> length (after_colon str) < 8"
proof (cases rule: cashaddr_Decode_shape [of str default_prefix])
  case (2 prefix vs)
  then show ?thesis using assms decode_values_digits [OF 2(1)] by (auto split: if_splits)
qed (use assms in simp)

lemma cashaddr_Decode_digits:
  assumes "cashaddr_Decode str default_prefix = Inr (prefix, payload)"
  shows "list_all digit_ok payload"
proof (cases rule: cashaddr_Decode_shape [of str default_prefix])
  case (2 prefix vs)
  then have "payload = take (length vs - 8) vs" using assms by (auto split: if_splits)
  then show ?thesis using decode_values_digits [OF 2(1)] by (auto simp: list_all_iff dest: in_set_takeD)
qed (use assms in simp)

lemma ConvertBits_5_8_nonempty:
  assumes "ConvertBits 5 8 False ds = (data, True)" "ds \<noteq> []" "list_all digit_ok ds"
  shows "data \<noteq> []"
proof -
  obtain out acc bits where c: "convert_loop 5 8 0 0 (map unat ds) = (out, acc, bits)" by (metis surj_pair)
  then have s: "bits = 5 * length ds mod 8" "length out = 5 * length ds div 8"
    using convert_loop_spec [of 5 8 0 "map unat ds" 0 out acc bits] assms(3)
    by (auto simp: list_all_iff digit_ok_def)
  have "bits < 5" using assms(1) by (simp add: ConvertBits_def c)
  moreover have "5 \<le> 5 * length ds" using assms(2) by (cases ds) simp_all
  ultimately have "\<not> 5 * length ds < 8" using s(1) by auto
  then have "0 < length out" using s(2) by (simp add: div_greater_zero_iff)
  then show ?thesis using assms(1) by (auto simp: ConvertBits_def c)
qed

text \<open>\<open>DecodeCashAddr\<close> fails only in \<open>Decode\<close>: its own reads are in range.\<close>

lemma DecodeCashAddr_error: "DecodeCashAddr addr prefix = Inl e \<longleftrightarrow> cashaddr_Decode addr prefix = Inl e"
proof (cases "cashaddr_Decode addr prefix")
  case (Inl e')
  then show ?thesis by (simp add: DecodeCashAddr_def DecodeCashAddrContent_def)
next
  case (Inr r)
  obtain p payload where r: "r = (p, payload)" by (cases r)
  obtain data ok where c: "ConvertBits 5 8 False payload = (data, ok)" by (metis surj_pair)
  have "data \<noteq> []" if "payload \<noteq> []" "ok"
    using ConvertBits_5_8_nonempty [of payload data] that c cashaddr_Decode_digits [of addr prefix p payload] Inr r by simp
  then show ?thesis
    by (auto simp: DecodeCashAddr_def DecodeCashAddrContent_def Inr r c Let_def split: if_splits list.splits)
qed

text \<open>C40. \<open>Decode\<close> takes \<open>values.end() - 8\<close> without a look at the length. That is the only way \<open>DecodeCashAddr\<close>
  leaves a range, and it does so only when fewer than eight characters follow the colon (or make up an address
  without one). On the characters of a list of values, with a prefix of lower-case letters or with the default
  prefix, it happens exactly when there are fewer than eight values and their checksum verifies. The last part
  is such an address: no value follows the colon of \<open>anutbtuna:\<close>.\<close>

theorem cashaddr_decode_range:
  "(DecodeCashAddr addr prefix = Inl e \<longrightarrow> e = short_error \<and> length (after_colon addr) < 8) \<and>
   (list_all digit_ok vs \<longrightarrow>
     (prefix_ok p \<longrightarrow> (DecodeCashAddr (p @ '':'' @ charset_string vs) prefix = Inl short_error \<longleftrightarrow>
        length vs < 8 \<and> VerifyChecksum p vs)) \<and>
     (DecodeCashAddr (charset_string vs) prefix = Inl short_error \<longleftrightarrow> length vs < 8 \<and> VerifyChecksum prefix vs)) \<and>
   DecodeCashAddr ''anutbtuna:'' prefix = Inl short_error"
proof -
  have ok: "prefix_ok ''anutbtuna''" "VerifyChecksum ''anutbtuna'' []" by code_simp+
  have "DecodeCashAddr ''anutbtuna:'' prefix = Inl short_error"
    using cashaddr_Decode_prefixed [OF ok(1), of "[]" prefix] ok(2) by (simp add: DecodeCashAddr_error charset_string_def)
  moreover have "DecodeCashAddr (p @ '':'' @ charset_string vs) prefix = Inl short_error \<longleftrightarrow> length vs < 8 \<and> VerifyChecksum p vs"
    if "list_all digit_ok vs" "prefix_ok p"
    unfolding DecodeCashAddr_error cashaddr_Decode_prefixed [OF that(2,1)] by simp
  moreover have "DecodeCashAddr (charset_string vs) prefix = Inl short_error \<longleftrightarrow> length vs < 8 \<and> VerifyChecksum prefix vs"
    if "list_all digit_ok vs"
    unfolding DecodeCashAddr_error cashaddr_Decode_bare [OF that] by simp
  ultimately show ?thesis
    using cashaddr_Decode_error [of addr prefix e] unfolding DecodeCashAddr_error by blast
qed

theorem cashaddr_decode_range_witness:
  "length (after_colon ''anutbtuna:'') < 8 \<and> DecodeCashAddr ''ecash:qq'' ''ecash'' \<noteq> Inl short_error"
proof -
  have ok: "prefix_ok ''ecash''" "list_all digit_ok [0, 0]" "\<not> VerifyChecksum ''ecash'' [0, 0]"
    "''ecash'' @ '':'' @ charset_string [0, 0] = ''ecash:qq''" by code_simp+
  show ?thesis
    using cashaddr_decode_range [of "''anutbtuna:''" "''ecash''" short_error "[0, 0]" "''ecash''"] ok by simp
qed

end
