(* ===== verification/Ecashaddr.thy ===== *)
theory Ecashaddr
  imports Cashaddrenc
begin

text \<open>
  The package \<open>ecashaddrjs\<close>, as the JavaScript code calls it: \<open>encode(prefix, type, hash)\<close> and
  \<open>decode(address)\<close>, whose result has the fields \<open>prefix\<close>, \<open>type\<close> and \<open>hash\<close>. It is a parameter of
  the code that uses it; the locale \<open>ecashaddr_codec\<close> is what that code relies on. The node's own
  implementation of the format meets it.
\<close>

record decoded_address =
  da_prefix :: string
  da_type :: string
  da_hash :: buffer

record ecashaddr =
  ea_encode :: "string \<Rightarrow> string \<Rightarrow> buffer \<Rightarrow> string result"
  ea_decode :: "string \<Rightarrow> decoded_address result"

definition address_types :: "string list" where
  "address_types = [''P2PKH'', ''P2SH'']"

text \<open>The prefixes of the wallet: coins, tokens and the original chain.\<close>

definition address_prefixes :: "string list" where
  "address_prefixes = [''ecash'', ''etoken'', ''bitcoincash'', ''simpleledger'', ''ectest'']"

definition encodable :: "decoded_address \<Rightarrow> bool" where
  "encodable d \<longleftrightarrow> da_prefix d \<in> set address_prefixes \<and> da_type d \<in> set address_types \<and> length (da_hash d) = 20"

locale ecashaddr_codec =
  fixes ea :: ecashaddr
  assumes encode_total: "encodable d \<Longrightarrow> \<exists>a. ea_encode ea (da_prefix d) (da_type d) (da_hash d) = Inr a"
    and decode_encode: "encodable d \<Longrightarrow> ea_encode ea (da_prefix d) (da_type d) (da_hash d) = Inr a \<Longrightarrow>
      ea_decode ea a = Inr d \<and> (\<exists>rest. a = da_prefix d @ '':'' @ rest \<and> CHR '':'' \<notin> set rest)"
begin

lemma encoded:
  assumes "encodable d"
  obtains a rest where "ea_encode ea (da_prefix d) (da_type d) (da_hash d) = Inr a" "ea_decode ea a = Inr d"
    "a = da_prefix d @ '':'' @ rest" "CHR '':'' \<notin> set rest"
  using encode_total [OF assms] decode_encode [OF assms] by blast

lemma encode_inject:
  assumes "encodable d" "encodable e"
    "ea_encode ea (da_prefix d) (da_type d) (da_hash d) = ea_encode ea (da_prefix e) (da_type e) (da_hash e)"
  shows "d = e"
  using encode_total [OF assms(1)] decode_encode [OF assms(1)] decode_encode [OF assms(2)] assms(3) by auto

end

subsection \<open>The node's implementation meets the contract\<close>

definition node_ecashaddr :: ecashaddr where
  "node_ecashaddr = \<lparr>
     ea_encode = \<lambda>prefix type hash.
       if type = ''P2PKH'' then EncodeCashAddrContent prefix \<lparr>ca_type = 0, ca_hash = hash\<rparr>
       else if type = ''P2SH'' then EncodeCashAddrContent prefix \<lparr>ca_type = 1, ca_hash = hash\<rparr>
       else Inl (Error ''Invalid type''),
     ea_decode = \<lambda>address.
       let prefix = takeWhile (\<lambda>c. c \<noteq> CHR '':'') address in
       bindE (DecodeCashAddrContent address prefix) (\<lambda>content.
       if ca_hash content = [] then Inl (Error ''Invalid address'')
       else if ca_type content = 0 then Inr \<lparr>da_prefix = prefix, da_type = ''P2PKH'', da_hash = ca_hash content\<rparr>
       else if ca_type content = 1 then Inr \<lparr>da_prefix = prefix, da_type = ''P2SH'', da_hash = ca_hash content\<rparr>
       else Inl (Error ''Invalid address type in version byte''))\<rparr>"

lemma address_prefixes_ok: "list_all (\<lambda>p. prefix_ok p \<and> list_all (\<lambda>c. c \<noteq> CHR '':'') p) address_prefixes"
  by code_simp

lemma node_content_roundtrip:
  assumes "prefix \<in> set address_prefixes" "unat t < 2" "length hash = 20"
  obtains a where "EncodeCashAddrContent prefix \<lparr>ca_type = t, ca_hash = hash\<rparr> = Inr a"
    "DecodeCashAddrContent a prefix = Inr \<lparr>ca_type = t, ca_hash = hash\<rparr>"
    "takeWhile (\<lambda>c. c \<noteq> CHR '':'') a = prefix" "\<exists>rest. a = prefix @ '':'' @ rest \<and> CHR '':'' \<notin> set rest"
proof -
  have p: "prefix_ok prefix" "list_all (\<lambda>c. c \<noteq> CHR '':'') prefix"
    using assms(1) address_prefixes_ok unfolding list_all_iff by blast+
  have "content_ok \<lparr>ca_type = t, ca_hash = hash\<rparr>"
    using assms(2,3) by (simp add: content_ok_def hash_sizes_def)
  from content_roundtrip [OF p(1) this] obtain a where
      a: "EncodeCashAddrContent prefix \<lparr>ca_type = t, ca_hash = hash\<rparr> = Inr a"
        "DecodeCashAddrContent a prefix = Inr \<lparr>ca_type = t, ca_hash = hash\<rparr>" by auto
  from a(1) obtain ds where ds: "PackAddrData hash t = Inr ds" "cashaddr_Encode prefix ds = Inr a"
    by (auto simp: EncodeCashAddrContent_def)
  from ds(1) obtain xs where "ds = fst (ConvertBits 8 5 True xs)"
    by (auto simp: PackAddrData_def Let_def split: option.splits)
  then have d: "list_all digit_ok (ds @ CreateChecksum prefix ds)"
    using ConvertBits_8_5(2) [of xs] digit_ok_checksum by (metis list_all_append prod.collapse)
  then have "a = prefix @ '':'' @ charset_string (ds @ CreateChecksum prefix ds)"
    using ds(2) cashaddr_Encode_ok [of ds prefix] by simp
  with charset_no_colon [OF d] obtain cs where cs: "a = prefix @ '':'' @ cs" "CHR '':'' \<notin> set cs" by blast
  then have "takeWhile (\<lambda>c. c \<noteq> CHR '':'') a = prefix"
    using p(2) by (simp add: takeWhile_append2 list_all_iff)
  with a cs show ?thesis using that by blast
qed

lemma node_encoded:
  assumes "encodable d"
  obtains a where "ea_encode node_ecashaddr (da_prefix d) (da_type d) (da_hash d) = Inr a"
    "ea_decode node_ecashaddr a = Inr d" "\<exists>rest. a = da_prefix d @ '':'' @ rest \<and> CHR '':'' \<notin> set rest"
proof -
  define t :: byte where "t = (if da_type d = ''P2PKH'' then 0 else 1)"
  have d: "da_prefix d \<in> set address_prefixes" "length (da_hash d) = 20" "unat t < 2"
      "da_type d = (if t = 0 then ''P2PKH'' else ''P2SH'')"
    using assms by (auto simp: encodable_def address_types_def t_def)
  then have ne: "da_hash d \<noteq> []" by auto
  obtain a where a: "EncodeCashAddrContent (da_prefix d) \<lparr>ca_type = t, ca_hash = da_hash d\<rparr> = Inr a"
      "DecodeCashAddrContent a (da_prefix d) = Inr \<lparr>ca_type = t, ca_hash = da_hash d\<rparr>"
      "takeWhile (\<lambda>c. c \<noteq> CHR '':'') a = da_prefix d"
      "\<exists>rest. a = da_prefix d @ '':'' @ rest \<and> CHR '':'' \<notin> set rest"
    by (rule node_content_roundtrip [OF d(1,3,2)])
  have t: "t = 0 \<or> t = 1" by (simp add: t_def)
  have "ea_encode node_ecashaddr (da_prefix d) (da_type d) (da_hash d) = Inr a"
    using t a(1) d(4) by (auto simp: node_ecashaddr_def)
  moreover have "ea_decode node_ecashaddr a = Inr \<lparr>da_prefix = da_prefix d, da_type = da_type d, da_hash = da_hash d\<rparr>"
    using t ne d(4) unfolding node_ecashaddr_def ecashaddr.simps Let_def a(3) a(2) bindE.simps by auto
  ultimately show ?thesis using that a(4) by simp
qed

interpretation node: ecashaddr_codec node_ecashaddr
proof (unfold_locales, goal_cases)
  case (1 d)
  from node_encoded [OF this] show ?case by blast
next
  case (2 d a)
  from node_encoded [OF 2(1)] show ?case using 2(2) by (metis sum.inject(2))
qed

end
