(* ===== verification/Wallet_Address.thy ===== *)
theory Wallet_Address
  imports Ecashaddr Script_Asm
begin

text \<open>
  Addresses in the wallet: the checks of \<open>cashtab/src/utils/validation.js\<close> and the conversions of
  \<open>cashtab/src/utils/cashMethods.js\<close>. The packages \<open>ecashaddrjs\<close> and \<open>bs58\<close> are parameters. Some of these
  functions return an \<open>Error\<close> object instead of throwing it; the left side stands for either. A check that
  returns \<open>undefined\<close> is \<open>False\<close> here, since every caller uses it as a condition.
\<close>

record bs58 =
  bs58_encode :: "buffer \<Rightarrow> string"
  bs58_decode :: "string \<Rightarrow> buffer result"

locale bs58_codec =
  fixes bs :: bs58
  assumes bs58: "bs58_decode bs (bs58_encode bs b) = Inr b"

definition hex_bs58 :: bs58 where
  "hex_bs58 = \<lparr>bs58_encode = buffer_hex, bs58_decode = (\<lambda>s. Inr (buffer_from_hex s))\<rparr>"

interpretation hex58: bs58_codec hex_bs58
  by unfold_locales (simp add: hex_bs58_def buffer_from_hex_hex)

subsection \<open>Checks\<close>

text \<open>\<open>s.slice(0, n) === t\<close> with \<open>n\<close> the length of \<open>t\<close>.\<close>

definition starts_with :: "string \<Rightarrow> string \<Rightarrow> bool" where
  "starts_with t s \<longleftrightarrow> take (length t) s = t"

definition isValidXecAddress :: "ecashaddr \<Rightarrow> string \<Rightarrow> bool" where
  "isValidXecAddress ea addr =
     (if addr = [] then False
      else if CHR '':'' \<in> set addr \<and> \<not> starts_with ''ecash:'' addr then False
      else
        let testedXecAddr = (if CHR '':'' \<in> set addr then addr else ''ecash:'' @ addr) in
        case ea_decode ea testedXecAddr of
          Inl _ \<Rightarrow> False
        | Inr decoded \<Rightarrow> da_prefix decoded = ''ecash'')"

definition isValidBchAddress :: "ecashaddr \<Rightarrow> string \<Rightarrow> bool" where
  "isValidBchAddress ea addr =
     (if addr = [] then False
      else if CHR '':'' \<in> set addr \<and> \<not> starts_with ''bitcoincash:'' addr then False
      else
        let testedXecAddr = (if CHR '':'' \<in> set addr then addr else ''bitcoincash:'' @ addr) in
        case ea_decode ea testedXecAddr of
          Inl _ \<Rightarrow> False
        | Inr decoded \<Rightarrow> da_prefix decoded = ''bitcoincash'')"

definition isValidEtokenAddress :: "ecashaddr \<Rightarrow> string \<Rightarrow> bool" where
  "isValidEtokenAddress ea addr =
     (if addr = [] then False
      else if CHR '':'' \<in> set addr \<and> \<not> starts_with ''etoken:'' addr then False
      else
        let testedEtokenAddr = (if CHR '':'' \<in> set addr then addr else ''etoken:'' @ addr) in
        case ea_decode ea testedEtokenAddr of
          Inl _ \<Rightarrow> False
        | Inr decoded \<Rightarrow> da_prefix decoded = ''etoken'')"

text \<open>An entry of a contact list: an object with the keys \<open>address\<close> and \<open>name\<close> (a name that is not a
  string is \<open>None\<close>), or an object without them, which is the empty object or another one.\<close>

datatype contact = Contact string "string option" | NamelessContact | EmptyContact

fun contacts_ok :: "ecashaddr \<Rightarrow> nat \<Rightarrow> contact list \<Rightarrow> bool" where
  "contacts_ok ea n [] = True"
| "contacts_ok ea n (Contact address name # cs) = 
     (if isValidXecAddress ea address \<and> name \<noteq> None then contacts_ok ea n cs else False)"
| "contacts_ok ea n (EmptyContact # cs) = (n = 1)"
| "contacts_ok ea n (NamelessContact # cs) = False"

definition isValidContactList :: "ecashaddr \<Rightarrow> contact list \<Rightarrow> bool" where
  "isValidContactList ea contactList = contacts_ok ea (length contactList) contactList"

text \<open>The address of the empty contact is \<open>undefined\<close>.\<close>

definition contact_address :: "contact \<Rightarrow> string option" where
  "contact_address c = (case c of Contact address _ \<Rightarrow> Some address | _ \<Rightarrow> None)"

definition flattenContactList :: "ecashaddr \<Rightarrow> contact list \<Rightarrow> string option list" where
  "flattenContactList ea contactList =
     (if \<not> isValidContactList ea contactList then [] else map contact_address contactList)"

definition isValidAirdropExclusionArray :: "ecashaddr \<Rightarrow> string \<Rightarrow> bool" where
  "isValidAirdropExclusionArray ea airdropExclusionArray =
     (if airdropExclusionArray = [] then False
      else list_all (isValidXecAddress ea) (js_split CHR '','' airdropExclusionArray))"

subsection \<open>Conversions\<close>

definition convertEtokenToEcashAddr :: "ecashaddr \<Rightarrow> string \<Rightarrow> string result" where
  "convertEtokenToEcashAddr ea eTokenAddress =
     (if eTokenAddress = [] then Inl (Error ''cashMethods.convertToEcashAddr() error: No etoken address provided'')
      else if \<not> isValidEtokenAddress ea eTokenAddress then
        Inl (Error (''cashMethods.convertToEcashAddr() error: '' @ eTokenAddress @ '' is not a valid etoken address''))
      else
        let testedEtokenAddr = (if starts_with ''etoken:'' eTokenAddress then eTokenAddress else ''etoken:'' @ eTokenAddress) in
        bindE (ea_decode ea testedEtokenAddr) (\<lambda>d. ea_encode ea ''ecash'' (da_type d) (da_hash d)))"

definition convertToEcashPrefix :: "ecashaddr \<Rightarrow> string \<Rightarrow> string result" where
  "convertToEcashPrefix ea bitcoincashPrefixedAddress =
     (if CHR '':'' \<in> set bitcoincashPrefixedAddress then
        bindE (ea_decode ea bitcoincashPrefixedAddress) (\<lambda>d.
        if da_prefix d = ''bitcoincash'' then ea_encode ea ''ecash'' (da_type d) (da_hash d)
        else if da_prefix d = ''simpleledger'' then ea_encode ea ''etoken'' (da_type d) (da_hash d)
        else Inr bitcoincashPrefixedAddress)
      else Inr bitcoincashPrefixedAddress)"

definition convertEcashtoEtokenAddr :: "ecashaddr \<Rightarrow> string \<Rightarrow> string result" where
  "convertEcashtoEtokenAddr ea eCashAddress =
     (if \<not> isValidXecAddress ea eCashAddress then Inl (Error (eCashAddress @ '' is not a valid ecash address''))
      else
        let testedEcashAddr = (if starts_with ''ecash:'' eCashAddress then eCashAddress else ''ecash:'' @ eCashAddress) in
        case bindE (ea_decode ea testedEcashAddr) (\<lambda>d. ea_encode ea ''etoken'' (da_type d) (da_hash d)) of
          Inl _ \<Rightarrow> Inl (Error ''eCash to eToken address conversion error'')
        | Inr eTokenAddress \<Rightarrow> Inr eTokenAddress)"

definition toHash160 :: "ecashaddr \<Rightarrow> bs58 \<Rightarrow> string \<Rightarrow> string result" where
  "toHash160 ea bs addr =
     bindE (ea_decode ea addr) (\<lambda>d.
     let legacyAdress = bs58_encode bs (da_hash d) in
     bindE (bs58_decode bs legacyAdress) (\<lambda>b. Inr (buffer_hex b)))"

definition hash160ToAddress :: "ecashaddr \<Rightarrow> string \<Rightarrow> string result" where
  "hash160ToAddress ea hash160 = ea_encode ea ''ecash'' ''P2PKH'' (buffer_from_hex hash160)"

text \<open>The change goes to the address of the first input.\<close>

definition getChangeAddressFromInputUtxos :: "ecashaddr \<Rightarrow> string list \<Rightarrow> string result" where
  "getChangeAddressFromInputUtxos ea addresses =
     (case addresses of
        [] \<Rightarrow> Inl (Error ''Invalid input utxo'')
      | changeAddress # _ \<Rightarrow>
          if \<not> isValidXecAddress ea changeAddress \<and> \<not> isValidBchAddress ea changeAddress
          then Inl (Error ''Invalid input utxo'')
          else Inr changeAddress)"

subsection \<open>Addresses that the codec writes\<close>

lemma starts_with_prefix:
  "p \<in> set address_prefixes \<Longrightarrow> q \<in> {''ecash'', ''etoken'', ''bitcoincash''} \<Longrightarrow>
     starts_with (q @ '':'') (p @ '':'' @ rest) \<longleftrightarrow> p = q"
  unfolding address_prefixes_def starts_with_def by auto

lemma colon_prefix: "CHR '':'' \<in> set (p @ '':'' @ rest)"
  by simp

context ecashaddr_codec
begin

lemma valid_encoded:
  assumes "encodable d" "ea_encode ea (da_prefix d) (da_type d) (da_hash d) = Inr a"
  shows "isValidXecAddress ea a \<longleftrightarrow> da_prefix d = ''ecash''"
    "isValidEtokenAddress ea a \<longleftrightarrow> da_prefix d = ''etoken''"
    "isValidBchAddress ea a \<longleftrightarrow> da_prefix d = ''bitcoincash''"
proof -
  obtain rest where r: "ea_decode ea a = Inr d" "a = da_prefix d @ '':'' @ rest"
    using decode_encode [OF assms] by blast
  have p: "da_prefix d \<in> set address_prefixes" using assms(1) by (simp add: encodable_def)
  have s: "starts_with ''ecash:'' a \<longleftrightarrow> da_prefix d = ''ecash''" "starts_with ''etoken:'' a \<longleftrightarrow> da_prefix d = ''etoken''"
      "starts_with ''bitcoincash:'' a \<longleftrightarrow> da_prefix d = ''bitcoincash''"
    using starts_with_prefix [OF p, of "''ecash''" rest] starts_with_prefix [OF p, of "''etoken''" rest]
      starts_with_prefix [OF p, of "''bitcoincash''" rest] r(2) by simp_all
  have c: "CHR '':'' \<in> set a" "a \<noteq> []" using r(2) by simp_all
  show "isValidXecAddress ea a \<longleftrightarrow> da_prefix d = ''ecash''"
    using s(1) c r(1) by (auto simp: isValidXecAddress_def)
  show "isValidEtokenAddress ea a \<longleftrightarrow> da_prefix d = ''etoken''"
    using s(2) c r(1) by (auto simp: isValidEtokenAddress_def)
  show "isValidBchAddress ea a \<longleftrightarrow> da_prefix d = ''bitcoincash''"
    using s(3) c r(1) by (auto simp: isValidBchAddress_def)
qed

text \<open>An address without its prefix.\<close>

lemma valid_prefixless:
  assumes "encodable d" "ea_encode ea (da_prefix d) (da_type d) (da_hash d) = Inr (da_prefix d @ '':'' @ rest)" "rest \<noteq> []"
  shows "da_prefix d = ''ecash'' \<Longrightarrow> isValidXecAddress ea rest \<and> \<not> starts_with ''ecash:'' rest"
    "da_prefix d = ''etoken'' \<Longrightarrow> isValidEtokenAddress ea rest \<and> \<not> starts_with ''etoken:'' rest"
proof -
  have r: "ea_decode ea (da_prefix d @ '':'' @ rest) = Inr d" "CHR '':'' \<notin> set rest"
    using decode_encode [OF assms(1,2)] by auto
  have s: "\<not> starts_with (q @ '':'') rest" for q
    using r(2) set_take_subset [of "length (q @ '':'')" rest] by (force simp: starts_with_def)
  show "isValidXecAddress ea rest \<and> \<not> starts_with ''ecash:'' rest" if "da_prefix d = ''ecash''"
    using s [of "''ecash''"] r assms(3) that by (simp add: isValidXecAddress_def)
  show "isValidEtokenAddress ea rest \<and> \<not> starts_with ''etoken:'' rest" if "da_prefix d = ''etoken''"
    using s [of "''etoken''"] r assms(3) that by (simp add: isValidEtokenAddress_def)
qed

lemma wallet_conversions:
  assumes "t \<in> set address_types" "length h = 20"
    "ea_encode ea ''ecash'' t h = Inr a" "ea_encode ea ''etoken'' t h = Inr e" "ea_encode ea ''bitcoincash'' t h = Inr b"
  shows "convertEcashtoEtokenAddr ea a = Inr e" "convertEtokenToEcashAddr ea e = Inr a" "convertToEcashPrefix ea b = Inr a"
    "convertToEcashPrefix ea a = Inr a" "ea_decode ea a = Inr \<lparr>da_prefix = ''ecash'', da_type = t, da_hash = h\<rparr>"
    "ea_decode ea e = Inr \<lparr>da_prefix = ''etoken'', da_type = t, da_hash = h\<rparr>"
    "ea_decode ea b = Inr \<lparr>da_prefix = ''bitcoincash'', da_type = t, da_hash = h\<rparr>"
proof -
  let ?d = "\<lambda>p. \<lparr>da_prefix = p, da_type = t, da_hash = h\<rparr>"
  have ok: "encodable (?d ''ecash'')" "encodable (?d ''etoken'')" "encodable (?d ''bitcoincash'')"
    using assms(1,2) by (simp_all add: encodable_def address_prefixes_def)
  obtain ra where a: "ea_decode ea a = Inr (?d ''ecash'')" "a = ''ecash:'' @ ra"
    using decode_encode [OF ok(1), of a] assms(3) by auto
  obtain re where e: "ea_decode ea e = Inr (?d ''etoken'')" "e = ''etoken:'' @ re"
    using decode_encode [OF ok(2), of e] assms(4) by auto
  obtain rb where b: "ea_decode ea b = Inr (?d ''bitcoincash'')" "b = ''bitcoincash:'' @ rb"
    using decode_encode [OF ok(3), of b] assms(5) by auto
  have va: "isValidXecAddress ea a" and ve: "isValidEtokenAddress ea e"
    using valid_encoded(1) [OF ok(1), of a] valid_encoded(2) [OF ok(2), of e] assms(3,4) by simp_all
  have sa: "starts_with ''ecash:'' a" "CHR '':'' \<in> set a" and se: "starts_with ''etoken:'' e" "e \<noteq> []"
    and sb: "CHR '':'' \<in> set b"
    using a(2) e(2) b(2) by (simp_all add: starts_with_def)
  show "convertEcashtoEtokenAddr ea a = Inr e"
    using va sa a(1) assms(4) by (simp add: convertEcashtoEtokenAddr_def)
  show "convertEtokenToEcashAddr ea e = Inr a"
    using ve se e(1) assms(3) by (simp add: convertEtokenToEcashAddr_def)
  show "convertToEcashPrefix ea b = Inr a"
    using sb b(1) assms(3) by (simp add: convertToEcashPrefix_def)
  show "convertToEcashPrefix ea a = Inr a"
    using sa a(1) by (simp add: convertToEcashPrefix_def)
  show "ea_decode ea a = Inr (?d ''ecash'')" "ea_decode ea e = Inr (?d ''etoken'')" "ea_decode ea b = Inr (?d ''bitcoincash'')"
    by (fact a e b)+
qed

end

subsection \<open>Properties\<close>

text \<open>C17. 
  For one hash of 20 bytes, the wallet's coin, token and legacy addresses, with their prefixes, are told apart by
  the three checks: each accepts its own kind and rejects the other two. The coin and the token address convert
  into each other, the legacy address into the coin address, and \<open>toHash160\<close> finds the hash in all three; the hash alone leads back to the coin address exactly when the address is that of
  a public key.
\<close>

theorem wallet_address_conversions:
  assumes "ecashaddr_codec ea" "bs58_codec bs" "t \<in> set address_types" "length h = 20"
    and "ea_encode ea ''ecash'' t h = Inr a" "ea_encode ea ''etoken'' t h = Inr e" "ea_encode ea ''bitcoincash'' t h = Inr b"
  shows "(isValidXecAddress ea a \<and> isValidEtokenAddress ea e \<and> isValidBchAddress ea b) \<and>
    (\<not> isValidXecAddress ea e \<and> \<not> isValidXecAddress ea b \<and> \<not> isValidEtokenAddress ea a \<and> \<not> isValidEtokenAddress ea b \<and>
     \<not> isValidBchAddress ea a \<and> \<not> isValidBchAddress ea e) \<and>
    (convertEcashtoEtokenAddr ea a = Inr e \<and> convertEtokenToEcashAddr ea e = Inr a \<and> convertToEcashPrefix ea b = Inr a) \<and>
    (toHash160 ea bs a = Inr (buffer_hex h) \<and> toHash160 ea bs e = Inr (buffer_hex h) \<and> toHash160 ea bs b = Inr (buffer_hex h)) \<and>
    (hash160ToAddress ea (buffer_hex h) = Inr a \<longleftrightarrow> t = ''P2PKH'')"
proof (intro conjI)
  note codec = assms(1)
  let ?d = "\<lambda>p. \<lparr>da_prefix = p, da_type = t, da_hash = h\<rparr>"
  have ok: "encodable (?d ''ecash'')" "encodable (?d ''etoken'')" "encodable (?d ''bitcoincash'')"
    using assms(3,4) by (simp_all add: encodable_def address_prefixes_def)
  note va = ecashaddr_codec.valid_encoded [OF codec ok(1), of a, simplified, OF assms(5)]
    and ve = ecashaddr_codec.valid_encoded [OF codec ok(2), of e, simplified, OF assms(6)]
    and vb = ecashaddr_codec.valid_encoded [OF codec ok(3), of b, simplified, OF assms(7)]
  show "isValidXecAddress ea a" "isValidEtokenAddress ea e" "isValidBchAddress ea b"
    "\<not> isValidXecAddress ea e" "\<not> isValidXecAddress ea b" "\<not> isValidEtokenAddress ea a" "\<not> isValidEtokenAddress ea b"
    "\<not> isValidBchAddress ea a" "\<not> isValidBchAddress ea e"
    using va ve vb by simp_all
  note c = ecashaddr_codec.wallet_conversions [OF codec assms(3-7)]
  show "convertEcashtoEtokenAddr ea a = Inr e" "convertEtokenToEcashAddr ea e = Inr a" "convertToEcashPrefix ea b = Inr a"
    using c by simp_all
  show "toHash160 ea bs a = Inr (buffer_hex h)" "toHash160 ea bs e = Inr (buffer_hex h)" "toHash160 ea bs b = Inr (buffer_hex h)"
    using c(5-7) bs58_codec.bs58 [OF assms(2)] by (simp_all add: toHash160_def)
  have k: "encodable \<lparr>da_prefix = ''ecash'', da_type = ''P2PKH'', da_hash = h\<rparr>"
    using assms(4) by (simp add: encodable_def address_prefixes_def address_types_def)
  show "hash160ToAddress ea (buffer_hex h) = Inr a \<longleftrightarrow> t = ''P2PKH''"
    using ecashaddr_codec.encode_inject [OF codec ok(1) k] assms(5)
    by (auto simp: hash160ToAddress_def buffer_from_hex_hex)
qed

theorem wallet_address_conversions_witness:
  "\<exists>a e. ea_encode node_ecashaddr ''ecash'' ''P2SH'' (replicate 20 9) = Inr a \<and>
     convertEcashtoEtokenAddr node_ecashaddr a = Inr e \<and> convertEtokenToEcashAddr node_ecashaddr e = Inr a \<and>
     toHash160 node_ecashaddr hex_bs58 a = Inr (buffer_hex (replicate 20 9)) \<and>
     hash160ToAddress node_ecashaddr (buffer_hex (replicate 20 9)) \<noteq> Inr a"
proof -
  let ?d = "\<lambda>p. \<lparr>da_prefix = p, da_type = ''P2SH'', da_hash = replicate 20 9\<rparr>"
  have "encodable (?d ''ecash'')" "encodable (?d ''etoken'')" "encodable (?d ''bitcoincash'')"
    by (simp_all add: encodable_def address_prefixes_def address_types_def)
  from this [THEN node.encode_total] obtain a e b where
      "ea_encode node_ecashaddr ''ecash'' ''P2SH'' (replicate 20 9) = Inr a"
      "ea_encode node_ecashaddr ''etoken'' ''P2SH'' (replicate 20 9) = Inr e"
      "ea_encode node_ecashaddr ''bitcoincash'' ''P2SH'' (replicate 20 9) = Inr b" by auto
  moreover from wallet_address_conversions [OF node.ecashaddr_codec_axioms hex58.bs58_codec_axioms _ _ this]
  have "convertEcashtoEtokenAddr node_ecashaddr a = Inr e \<and> convertEtokenToEcashAddr node_ecashaddr e = Inr a"
      "toHash160 node_ecashaddr hex_bs58 a = Inr (buffer_hex (replicate 20 9))"
      "hash160ToAddress node_ecashaddr (buffer_hex (replicate 20 9)) \<noteq> Inr a"
    by (simp_all add: address_types_def)
  ultimately show ?thesis by blast
qed

text \<open>A contact list is accepted exactly when it is the blank list or all its entries have a valid address
  and a name; the blank list flattens to one missing address.\<close>

theorem contact_list_spec:
  "(isValidContactList ea cs \<longleftrightarrow> cs = [EmptyContact] \<or>
     list_all (\<lambda>c. case c of Contact address name \<Rightarrow> isValidXecAddress ea address \<and> name \<noteq> None | _ \<Rightarrow> False) cs) \<and>
   flattenContactList ea [EmptyContact] = [None]"
proof (rule conjI)
  have l: "contacts_ok ea n cs \<longleftrightarrow>
      list_all (\<lambda>c. case c of Contact address name \<Rightarrow> isValidXecAddress ea address \<and> name \<noteq> None | _ \<Rightarrow> False) cs"
    if "n \<noteq> 1" for n
    using that by (induction ea n cs rule: contacts_ok.induct) simp_all
  show "isValidContactList ea cs \<longleftrightarrow> cs = [EmptyContact] \<or>
     list_all (\<lambda>c. case c of Contact address name \<Rightarrow> isValidXecAddress ea address \<and> name \<noteq> None | _ \<Rightarrow> False) cs"
  proof (cases "length cs = 1")
    case True
    then obtain c where "cs = [c]" by (auto simp: length_Suc_conv)
    then show ?thesis by (cases c) (simp_all add: isValidContactList_def)
  next
    case False
    then have "cs \<noteq> [EmptyContact]" by auto
    with l [OF False] show ?thesis unfolding isValidContactList_def by blast
  qed
  show "flattenContactList ea [EmptyContact] = [None]"
    by (simp add: flattenContactList_def isValidContactList_def contact_address_def)
qed

end
