(* ===== verification/Wallet_Builder.thy ===== *)
theory Wallet_Builder
  imports Builder_Correct Wallet_Address
begin

text \<open>
  The wallet's wrapper around the transaction builder, \<open>cashtab/src/utils/txBuilder.js\<close>, and its network
  from \<open>coininfo.js\<close>. The wrapper sends an output to a cash address by way of the legacy form of the address;
  the lemmas give the script that this ends in, and what each operation leaves of the transaction.
\<close>

subsection \<open>The network\<close>

definition toBitcoinJS :: network where
  "toBitcoinJS = \<lparr>net_messagePrefix = CHR 0x18 # ''BitcoinCash Signed Message:'' @ [CHR 0x0A], net_bech32 = None,
     net_bip32_public = 0x0488b21e, net_bip32_private = 0x0488ade4, net_pubKeyHash = 0x00, net_scriptHash = 0x05, net_wif = 0x80\<rparr>"

subsection \<open>Operations\<close>

record wallet_txb =
  wb_transaction :: txb
  wb_tx :: "transaction option"
  wb_p2shInput :: bool

definition new_wallet_txb :: wallet_txb where
  "new_wallet_txb = \<lparr>wb_transaction = new_TransactionBuilder (Some toBitcoinJS) None, wb_tx = None, wb_p2shInput = False\<rparr>"

definition wb_addInput :: "'p lib \<Rightarrow> wallet_txb \<Rightarrow> string \<Rightarrow> int \<Rightarrow> int option \<Rightarrow> buffer option \<Rightarrow> wallet_txb result" where
  "wb_addInput lib b txHash vout sequence prevOutScript =
     bindE (txb_addInput lib (wb_transaction b) (HashHex txHash) vout
       (Some (case sequence of None \<Rightarrow> 0xffffffff | Some n \<Rightarrow> n)) prevOutScript) (\<lambda>(_, t).
     Inr (b\<lparr>wb_transaction := t\<rparr>))"

text \<open>The scripts are set one after the other, so that an exception leaves those before it set.\<close>

fun set_input_scripts :: "transaction \<Rightarrow> (nat \<times> buffer) list \<Rightarrow> transaction \<times> unit result" where
  "set_input_scripts tx [] = (tx, Inr ())"
| "set_input_scripts tx ((vout, script) # rest) =
     (case setInputScript tx vout script of Inl e \<Rightarrow> (tx, Inl e) | Inr tx' \<Rightarrow> set_input_scripts tx' rest)"

definition wb_addInputScripts :: "'p lib \<Rightarrow> wallet_txb \<Rightarrow> (nat \<times> buffer) list \<Rightarrow> wallet_txb \<times> unit result" where
  "wb_addInputScripts lib b scripts =
     (case buildIncomplete lib (wb_transaction b) of
        Inl e \<Rightarrow> (b, Inl e)
      | Inr tx \<Rightarrow>
          (case set_input_scripts tx scripts of
             (tx, Inl e) \<Rightarrow> (b\<lparr>wb_tx := Some tx\<rparr>, Inl e)
           | (tx, Inr _) \<Rightarrow> (b\<lparr>wb_tx := Some tx, wb_p2shInput := True\<rparr>, Inr ())))"

definition wb_addInputScript :: "'p lib \<Rightarrow> wallet_txb \<Rightarrow> nat \<Rightarrow> buffer \<Rightarrow> wallet_txb \<times> unit result" where
  "wb_addInputScript lib b vout script = wb_addInputScripts lib b [(vout, script)]"

text \<open>The legacy form of a cash address. Decoding raises when the argument is not a string.\<close>

definition legacy_address :: "ecashaddr \<Rightarrow> 'p lib \<Rightarrow> output_ref \<Rightarrow> string result" where
  "legacy_address ea lib scriptPubKey = (case scriptPubKey of
     OutScript _ \<Rightarrow> Inl (Error ''Invalid address'')
   | OutAddress a \<Rightarrow>
       bindE (ea_decode ea a) (\<lambda>decoded.
       bindE (if da_type decoded = ''P2PKH'' then Inr (0x00 :: int)
              else if da_type decoded = ''P2SH'' then Inr 0x05
              else Inl (Error (''Unsupported address type : '' @ da_type decoded))) (\<lambda>version.
       toBase58Check (lib_codecs lib) (lib_junk lib) (da_hash decoded) version)))"

text \<open>Every exception of the first attempt is caught, and the argument is then added as it is.\<close>

definition wb_addOutput :: "ecashaddr \<Rightarrow> 'p lib \<Rightarrow> wallet_txb \<Rightarrow> output_ref \<Rightarrow> int option \<Rightarrow> wallet_txb result" where
  "wb_addOutput ea lib b scriptPubKey amount =
     (case bindE (legacy_address ea lib scriptPubKey) (\<lambda>legacyAddress.
             txb_addOutput lib (wb_transaction b) (OutAddress legacyAddress) amount) of
        Inr (_, t) \<Rightarrow> Inr (b\<lparr>wb_transaction := t\<rparr>)
      | Inl _ \<Rightarrow>
          bindE (txb_addOutput lib (wb_transaction b) scriptPubKey amount) (\<lambda>(_, t). Inr (b\<lparr>wb_transaction := t\<rparr>)))"

definition wb_setLockTime :: "wallet_txb \<Rightarrow> int \<Rightarrow> wallet_txb result" where
  "wb_setLockTime b locktime = bindE (setLockTime (wb_transaction b) locktime) (\<lambda>t. Inr (b\<lparr>wb_transaction := t\<rparr>))"

definition wb_sign ::
    "'p lib \<Rightarrow> (nat \<Rightarrow> nat \<Rightarrow> byte) \<Rightarrow> wallet_txb \<Rightarrow> nat \<Rightarrow> signer \<Rightarrow> buffer option \<Rightarrow> int option \<Rightarrow> int option \<Rightarrow> int option \<Rightarrow>
     (wallet_txb \<times> unit result) option" where
  "wb_sign lib junk b vin keyPair redeemScript hashType amount signatureAlgorithm =
     map_option (\<lambda>(t, r). (b\<lparr>wb_transaction := t\<rparr>, r))
       (txb_sign lib junk (wb_transaction b) vin keyPair redeemScript
         (Some (case hashType of None \<Rightarrow> 0x01 | Some t \<Rightarrow> t)) amount None signatureAlgorithm)"

text \<open>The transaction, or \<open>undefined\<close>.\<close>

definition wb_build :: "'p lib \<Rightarrow> wallet_txb \<Rightarrow> transaction option result" where
  "wb_build lib b =
     (if wb_p2shInput b then Inr (wb_tx b) else bindE (build lib (wb_transaction b)) (\<lambda>tx. Inr (Some tx)))"

subsection \<open>What the operations keep\<close>

abbreviation wb_ins :: "wallet_txb \<Rightarrow> txin list" where
  "wb_ins b \<equiv> tx_ins (txb_tx (wb_transaction b))"

abbreviation wb_outs :: "wallet_txb \<Rightarrow> txout list" where
  "wb_outs b \<equiv> tx_outs (txb_tx (wb_transaction b))"

definition paid :: "buffer \<Rightarrow> int \<Rightarrow> txout" where
  "paid script v = \<lparr>out_script = script, out_value = Some v, out_valueBuffer = None\<rparr>"

definition wb_ok :: "wallet_txb \<Rightarrow> bool" where
  "wb_ok b \<longleftrightarrow> txb_ok (wb_transaction b) \<and> txb_network (wb_transaction b) = toBitcoinJS \<and> \<not> wb_p2shInput b"

lemma wb_ok_new: "wb_ok new_wallet_txb" "wb_ins new_wallet_txb = []" "wb_outs new_wallet_txb = []"
  using txb_ok_new [of "Some toBitcoinJS" None] by (simp_all add: wb_ok_def new_wallet_txb_def new_TransactionBuilder_def new_Transaction_def)

lemma wb_addInput_cases:
  assumes "wb_addInput lib b txid vout None None = Inr b'" "wb_ok b"
  shows "wb_ok b'" "wb_ins b' = wb_ins b @ [new_txin (rev (buffer_from_hex txid)) vout (Some 0xffffffff)]" "wb_outs b' = wb_outs b"
proof -
  let ?o = "\<lparr>opt_sequence = Some 0xffffffff, opt_script = None, opt_witness = [], opt_prevOutScript = None, opt_value = None\<rparr>"
  obtain vin t where t: "addInputUnsafe lib (wb_transaction b) (rev (buffer_from_hex txid)) vout ?o = Inr (vin, t)"
      "b' = b\<lparr>wb_transaction := t\<rparr>"
    using assms(1) by (auto simp: wb_addInput_def txb_addInput_def split: if_splits)
  from t(1) obtain inp where "t = (wb_transaction b)\<lparr>txb_tx := (txb_tx (wb_transaction b))\<lparr>tx_ins := wb_ins b @
        [new_txin (rev (buffer_from_hex txid)) vout (Some 0xffffffff)]\<rparr>,
      txb_inputs := array_set (txb_inputs (wb_transaction b)) vin inp,
      txb_prevTxMap := (txb_prevTxMap (wb_transaction b))(outpoint_key (rev (buffer_from_hex txid)) vout \<mapsto> vin)\<rparr>"
    by (rule addInputUnsafe_cases) simp
  then show "wb_ok b'" "wb_ins b' = wb_ins b @ [new_txin (rev (buffer_from_hex txid)) vout (Some 0xffffffff)]" "wb_outs b' = wb_outs b"
    using assms(2) txb_ok_addInputUnsafe [OF _ t(1)] by (simp_all add: wb_ok_def t(2))
qed

lemma wb_addOutput_cases:
  assumes "wb_addOutput ea lib b scriptPubKey amount = Inr b'" "wb_ok b"
  obtains script v where "amount = Some v" "types_Satoshi v" "wb_ok b'" "wb_ins b' = wb_ins b" "wb_outs b' = wb_outs b @ [paid script v]"
    "txb_inputs (wb_transaction b') = txb_inputs (wb_transaction b)"
proof -
  obtain out n t where t: "txb_addOutput lib (wb_transaction b) out amount = Inr (n, t)" "b' = b\<lparr>wb_transaction := t\<rparr>"
    using assms(1) by (auto simp: wb_addOutput_def split: sum.splits prod.splits)
  have "txb_ok t" using txb_ok_step [OF step_addOutput [OF t(1)]] assms(2) by (simp add: wb_ok_def)
  with t(1) show thesis
    by (elim txb_addOutput_cases) (rule that, use assms(2) in \<open>simp_all add: wb_ok_def t(2) paid_def\<close>)
qed

lemma wb_sign_cases:
  assumes "wb_sign lib junk b vin keyPair redeemScript hashType amount algorithm = Some (b', r)" "wb_ok b"
  shows "wb_ok b'" "wb_ins b' = wb_ins b" "wb_outs b' = wb_outs b"
proof -
  obtain t where t: "txb_sign lib junk (wb_transaction b) vin keyPair redeemScript
        (Some (case hashType of None \<Rightarrow> 0x01 | Some t \<Rightarrow> t)) amount None algorithm = Some (t, r)" "b' = b\<lparr>wb_transaction := t\<rparr>"
    using assms(1) by (auto simp: wb_sign_def)
  from t(1) obtain inp where "t = set_input (wb_transaction b) vin inp" by (rule txb_sign_frame)
  then show "wb_ok b'" "wb_ins b' = wb_ins b" "wb_outs b' = wb_outs b"
    using txb_ok_step [OF step_sign [where may_sign = "\<lambda>_ _. True", OF TrueI t(1)]] assms(2)
    by (simp_all add: wb_ok_def t(2) set_input_def)
qed

lemma wb_build_cases:
  assumes "wb_build lib b = Inr (Some tx)" "wb_ok b"
  shows "tx_outs tx = wb_outs b" "map (\<lambda>i. (in_hash i, in_index i)) (tx_ins tx) = map (\<lambda>i. (in_hash i, in_index i)) (wb_ins b)"
proof -
  have "txb_build lib False (wb_transaction b) = Inr tx" using assms by (auto simp: wb_build_def wb_ok_def build_def)
  with assms(2) have f: "same_frame (txb_tx (wb_transaction b)) tx" by (intro txb_build_cases(1)) (simp_all add: wb_ok_def)
  then show "tx_outs tx = wb_outs b" by (simp add: same_frame_def)
  from f have "map (\<lambda>(h, i, _). (h, i)) (map (\<lambda>i. (in_hash i, in_index i, in_sequence i)) (tx_ins tx)) =
      map (\<lambda>(h, i, _). (h, i)) (map (\<lambda>i. (in_hash i, in_index i, in_sequence i)) (wb_ins b))" by (simp add: same_frame_def)
  then show "map (\<lambda>i. (in_hash i, in_index i)) (tx_ins tx) = map (\<lambda>i. (in_hash i, in_index i)) (wb_ins b)"
    by (simp add: o_def)
qed

subsection \<open>Paying an address\<close>

definition address_script :: "string \<Rightarrow> buffer \<Rightarrow> buffer" where
  "address_script type hash =
     (if type = ''P2PKH'' then [0x76, 0xa9, 20] @ hash @ [0x88, 0xac] else [0xa9, 20] @ hash @ [0x87])"

lemma legacy_script:
  assumes "address_codecs (lib_codecs lib)" "ea_decode ea a = Inr d" "da_type d \<in> set address_types" "length (da_hash d) = 20"
  obtains legacy where "legacy_address ea lib (OutAddress a) = Inr legacy"
    "toOutputScript (lib_codecs lib) (lib_junk lib) legacy (Some toBitcoinJS) = Inr (address_script (da_type d) (da_hash d))"
proof -
  define v where "v = (if da_type d = ''P2PKH'' then 0 else 5 :: int)"
  have "\<exists>legacy. toBase58Check (lib_codecs lib) (lib_junk lib) (da_hash d) v = Inr legacy"
    using assms(4) writeUInt8_fits [of v 0 "allocUnsafe (lib_junk lib) 21"] by (simp add: toBase58Check_def v_def assertE_def)
  then obtain legacy where l: "toBase58Check (lib_codecs lib) (lib_junk lib) (da_hash d) v = Inr legacy" ..
  note b = address_codecs.base58_roundtrip(1) [OF assms(1) l]
  have "legacy_address ea lib (OutAddress a) = Inr legacy"
    using assms(2,3) l by (auto simp: legacy_address_def v_def address_types_def)
  moreover have "toOutputScript (lib_codecs lib) (lib_junk lib) legacy (Some toBitcoinJS) = Inr (address_script (da_type d) (da_hash d))"
    using assms(3,4) unfolding toOutputScript_def b
    by (auto simp: toBitcoinJS_def address_script_def v_def address_types_def p2pkh.enc_bytes p2sh.enc_bytes)
  ultimately show thesis by (rule that)
qed

lemma wb_addOutput_address:
  assumes "address_codecs (lib_codecs lib)" "ea_decode ea a = Inr d" "da_type d \<in> set address_types" "length (da_hash d) = 20"
    and "wb_addOutput ea lib b (OutAddress a) amount = Inr b'" "wb_ok b"
  shows "\<exists>v. amount = Some v \<and> wb_outs b' = wb_outs b @ [paid (address_script (da_type d) (da_hash d)) v]"
proof -
  obtain legacy where l: "legacy_address ea lib (OutAddress a) = Inr legacy"
    "toOutputScript (lib_codecs lib) (lib_junk lib) legacy (Some toBitcoinJS) = Inr (address_script (da_type d) (da_hash d))"
    using legacy_script [OF assms(1-4)] by blast
  have n: "txb_network (wb_transaction b) = toBitcoinJS" using assms(6) by (simp add: wb_ok_def)
  show ?thesis
  proof (cases "txb_addOutput lib (wb_transaction b) (OutAddress legacy) amount")
    case (Inr r)
    then have b': "b' = b\<lparr>wb_transaction := snd r\<rparr>" using assms(5) l(1) by (auto simp: wb_addOutput_def split: prod.splits)
    from Inr l(2) n show ?thesis
      by (auto simp: b' txb_addOutput_def addOutput_def assertE_def paid_def split: if_splits option.splits)
  next
    case (Inl e)
    obtain out n t where t: "txb_addOutput lib (wb_transaction b) out amount = Inr (n, t)"
      using assms(5) by (auto simp: wb_addOutput_def split: sum.splits prod.splits)
    then obtain v where "canModifyOutputs (wb_transaction b) = Inr True" "amount = Some v" "types_Satoshi v"
      by (rule txb_addOutput_cases) simp
    with Inl l(2) n have False by (simp add: txb_addOutput_def addOutput_def assertE_def)
    then show ?thesis ..
  qed
qed

lemma wb_addOutput_script:
  assumes "wb_addOutput ea lib b (OutScript s) amount = Inr b'"
  shows "\<exists>v. amount = Some v \<and> wb_outs b' = wb_outs b @ [paid s v]"
  using assms
  by (auto simp: wb_addOutput_def legacy_address_def txb_addOutput_def addOutput_def assertE_def paid_def split: if_splits option.splits)

end
