(* ===== verification/Message.thy ===== *)
theory Message
  imports Bufferutils Crypto Ecashaddr
begin

text \<open>
  \<open>xecjs-message/index.js\<close>: signed messages. The packages \<open>create-hash\<close>, \<open>varuint-bitcoin\<close>,
  \<open>secp256k1\<close> and \<open>ecashaddrjs\<close> are fields of one record; the locale \<open>message_keys\<close> says what the
  module relies on of the first three of them. A JavaScript string is the list of its UTF-16 code units; a
  promise is the result it settles with. The characters of a base64 text are \<open>char\<close>s.
\<close>

subsection \<open>Strings as bytes\<close>

type_synonym js_text = "nat list"

text \<open>\<open>Buffer.from(text, 'utf8')\<close>: a surrogate without its partner becomes U+FFFD.\<close>

definition utf8_char :: "nat \<Rightarrow> buffer" where
  "utf8_char c =
     (if c < 0x80 then [word_of_nat c]
      else if c < 0x800 then [word_of_nat (0xc0 + c div 64), word_of_nat (0x80 + c mod 64)]
      else if c < 0x10000 then
        [word_of_nat (0xe0 + c div 4096), word_of_nat (0x80 + c div 64 mod 64), word_of_nat (0x80 + c mod 64)]
      else
        [word_of_nat (0xf0 + c div 262144), word_of_nat (0x80 + c div 4096 mod 64),
         word_of_nat (0x80 + c div 64 mod 64), word_of_nat (0x80 + c mod 64)])"

definition high_surrogate :: "nat \<Rightarrow> bool" where
  "high_surrogate u \<longleftrightarrow> 0xd800 \<le> u \<and> u \<le> 0xdbff"

definition low_surrogate :: "nat \<Rightarrow> bool" where
  "low_surrogate u \<longleftrightarrow> 0xdc00 \<le> u \<and> u \<le> 0xdfff"

fun utf8 :: "js_text \<Rightarrow> buffer" where
  "utf8 [] = []"
| "utf8 [u] = utf8_char (if high_surrogate u \<or> low_surrogate u then 0xfffd else u)"
| "utf8 (u # w # us) =
     (if high_surrogate u \<and> low_surrogate w then
        utf8_char (0x10000 + (u - 0xd800) * 1024 + (w - 0xdc00)) @ utf8 us
      else utf8_char (if high_surrogate u \<or> low_surrogate u then 0xfffd else u) @ utf8 (w # us))"

definition text_of :: "string \<Rightarrow> js_text" where
  "text_of = map of_char"

text \<open>\<open>Buffer.from(text, 'base64')\<close>: characters outside the alphabet are skipped, the URL-safe ones are
  accepted, and a last group of two or three digits gives one or two bytes.\<close>

definition b64_digit :: "char \<Rightarrow> nat option" where
  "b64_digit ch =
     (let c = of_char ch :: nat in
      if 65 \<le> c \<and> c \<le> 90 then Some (c - 65)
      else if 97 \<le> c \<and> c \<le> 122 then Some (c - 97 + 26)
      else if 48 \<le> c \<and> c \<le> 57 then Some (c - 48 + 52)
      else if c = 43 \<or> c = 45 then Some 62
      else if c = 47 \<or> c = 95 then Some 63
      else None)"

fun b64_bytes :: "nat list \<Rightarrow> buffer" where
  "b64_bytes (a # b # c # d # ds) =
     word_of_nat (a * 4 + b div 16) # word_of_nat (b mod 16 * 16 + c div 4) # word_of_nat (c mod 4 * 64 + d) # b64_bytes ds"
| "b64_bytes [a, b, c] = [word_of_nat (a * 4 + b div 16), word_of_nat (b mod 16 * 16 + c div 4)]"
| "b64_bytes [a, b] = [word_of_nat (a * 4 + b div 16)]"
| "b64_bytes ds = []"

definition base64_decode :: "string \<Rightarrow> buffer" where
  "base64_decode s = b64_bytes (List.map_filter b64_digit s)"

subsection \<open>The packages\<close>

record message_lib =
  ml_hashes :: hashes
  ml_varuint :: varuint
  ml_junk :: "nat \<Rightarrow> byte"
  ml_sign :: "buffer \<Rightarrow> buffer \<Rightarrow> buffer option \<Rightarrow> (buffer \<times> int) result"
  ml_recover :: "buffer \<Rightarrow> buffer \<Rightarrow> int \<Rightarrow> bool \<Rightarrow> buffer result"
  ml_addr :: ecashaddr

subsection \<open>Signatures\<close>

text \<open>\<open>Buffer.alloc(1, n)\<close> keeps the low eight bits of \<open>n\<close>.\<close>

definition encodeSignature :: "buffer \<Rightarrow> int \<Rightarrow> bool \<Rightarrow> buffer" where
  "encodeSignature signature recovery compressed =
     (let recovery = (if compressed then recovery + 4 else recovery) in
      [word_of_int (recovery + 27)] @ signature)"

record parsed_signature =
  ps_compressed :: bool
  ps_recovery :: int
  ps_signature :: buffer

definition decodeSignature :: "buffer \<Rightarrow> parsed_signature result" where
  "decodeSignature buffer =
     (if length buffer \<noteq> 65 then Inl (Error ''Invalid signature length'')
      else bindE (readUInt8 buffer 0) (\<lambda>first.
        let flagByte = int first - 27 in
        if flagByte > 15 \<or> flagByte < 0 then Inl (Error ''Invalid signature parameter'')
        else Inr \<lparr>ps_compressed = (js_and flagByte 12 \<noteq> 0), ps_recovery = js_and flagByte 3,
                  ps_signature = drop 1 buffer\<rparr>))"

subsection \<open>The hash of a message\<close>

text \<open>An argument: absent, a string, a buffer, or an options object with its \<open>extraEntropy\<close>.\<close>

datatype js_arg = Undefined | Text js_text | Bytes buffer | Options "buffer option"

definition ecash_prefix :: js_text where
  "ecash_prefix = 0x16 # text_of ''eCash Signed Message:'' @ [0x0a]"

definition bitcoin_prefix :: js_text where
  "bitcoin_prefix = 0x18 # text_of ''Bitcoin Signed Message:'' @ [0x0a]"

fun to_buffer :: "js_arg \<Rightarrow> buffer result" where
  "to_buffer (Text s) = Inr (utf8 s)"
| "to_buffer (Bytes b) = Inr b"
| "to_buffer _ = Inl (TypeError ''The first argument must be of type string or an instance of Buffer'')"

text \<open>\<open>messagePrefix || default\<close>: the empty string is falsy too.\<close>

definition prefix_or_default :: "js_arg \<Rightarrow> js_arg" where
  "prefix_or_default p = (if p = Undefined \<or> p = Text [] then Text ecash_prefix else p)"

definition magicHash :: "message_lib \<Rightarrow> js_arg \<Rightarrow> js_arg \<Rightarrow> buffer result" where
  "magicHash ml message messagePrefix =
     bindE (to_buffer (prefix_or_default messagePrefix)) (\<lambda>messagePrefix.
     bindE (to_buffer message) (\<lambda>message.
     let messageVISize = vu_encodingLength (ml_varuint ml) (length message);
         buffer = allocUnsafe (ml_junk ml) (length messagePrefix + messageVISize + length message);
         buffer = fst (copy messagePrefix buffer 0) in
     bindE (vu_encode (ml_varuint ml) (length message) buffer (length messagePrefix)) (\<lambda>(buffer, _).
     Inr (hash256 (ml_hashes ml) (fst (copy message buffer (length messagePrefix + messageVISize)))))))"

subsection \<open>Signing and verifying\<close>

text \<open>An object in the place of the prefix is taken as the options, and a \<open>Buffer\<close> is an object.\<close>

fun prepareSign :: "js_arg \<Rightarrow> buffer option option \<Rightarrow> js_arg \<times> buffer option" where
  "prepareSign (Options e) None = (Undefined, e)"
| "prepareSign (Bytes b) None = (Undefined, None)"
| "prepareSign p None = (p, None)"
| "prepareSign p (Some e) = (p, e)"

datatype key_arg =
    PrivateKey buffer
  | Signer "buffer \<Rightarrow> buffer option \<Rightarrow> (buffer \<times> int) result"

fun isSigner :: "key_arg \<Rightarrow> bool" where
  "isSigner (Signer f) = True"
| "isSigner (PrivateKey k) = False"

fun sign_hash :: "message_lib \<Rightarrow> key_arg \<Rightarrow> buffer \<Rightarrow> buffer option \<Rightarrow> (buffer \<times> int) result" where
  "sign_hash ml (Signer f) hash extraEntropy = f hash extraEntropy"
| "sign_hash ml (PrivateKey k) hash extraEntropy = ml_sign ml hash k extraEntropy"

definition message_sign ::
    "message_lib \<Rightarrow> js_arg \<Rightarrow> key_arg \<Rightarrow> bool \<Rightarrow> js_arg \<Rightarrow> buffer option option \<Rightarrow> buffer result" where
  "message_sign ml message privateKey compressed messagePrefix sigOptions =
     (case prepareSign messagePrefix sigOptions of (messagePrefixArg, extraEntropy) \<Rightarrow>
        bindE (magicHash ml message messagePrefixArg) (\<lambda>hash.
        bindE (sign_hash ml privateKey hash extraEntropy) (\<lambda>(signature, recovery).
        Inr (encodeSignature signature recovery compressed))))"

text \<open>The two stages of \<open>signAsync\<close>; a throw in the first rejects the promise.\<close>

definition message_signAsync ::
    "message_lib \<Rightarrow> js_arg \<Rightarrow> key_arg \<Rightarrow> bool \<Rightarrow> js_arg \<Rightarrow> buffer option option \<Rightarrow> buffer result" where
  "message_signAsync ml message privateKey compressed messagePrefix sigOptions =
     bindE
       (case prepareSign messagePrefix sigOptions of (messagePrefixArg, extraEntropy) \<Rightarrow>
          bindE (magicHash ml message messagePrefixArg) (\<lambda>hash. sign_hash ml privateKey hash extraEntropy))
       (\<lambda>(signature, recovery). Inr (encodeSignature signature recovery compressed))"

datatype signature_arg = SigBase64 string | SigBuffer buffer

fun signature_bytes :: "signature_arg \<Rightarrow> buffer" where
  "signature_bytes (SigBase64 s) = base64_decode s"
| "signature_bytes (SigBuffer b) = b"

text \<open>The key is recovered under both prefixes before the address is decoded.\<close>

definition message_verify :: "message_lib \<Rightarrow> js_arg \<Rightarrow> string \<Rightarrow> signature_arg \<Rightarrow> js_arg \<Rightarrow> bool result" where
  "message_verify ml message xecAddress signature messagePrefix =
     bindE (decodeSignature (signature_bytes signature)) (\<lambda>parsed.
     bindE (magicHash ml message (Text bitcoin_prefix)) (\<lambda>hashBitcoinSigned.
     bindE (ml_recover ml hashBitcoinSigned (ps_signature parsed) (ps_recovery parsed) (ps_compressed parsed)) (\<lambda>publicKeyBitcoinSigned.
     bindE (magicHash ml message messagePrefix) (\<lambda>hashEcashSigned.
     bindE (ml_recover ml hashEcashSigned (ps_signature parsed) (ps_recovery parsed) (ps_compressed parsed)) (\<lambda>publicKeyEcashSigned.
     bindE (ea_decode (ml_addr ml) xecAddress) (\<lambda>decodedAddress.
     let expected = da_hash decodedAddress in
     Inr (hash160 (ml_hashes ml) publicKeyEcashSigned = expected \<or>
          hash160 (ml_hashes ml) publicKeyBitcoinSigned = expected)))))))"

subsection \<open>Signature encoding\<close>

lemma js_and_3: "js_and x 3 = x mod 4"
  using js_and_mask [of 2 x] by simp

lemma flag_table: "list_all (\<lambda>f. (js_and f 12 \<noteq> 0) = (4 \<le> f)) [0..15]"
  by code_simp

lemma decodeSignature_flag:
  assumes "length s = 64" "0 \<le> f" "f \<le> 15"
  shows "decodeSignature (word_of_int (f + 27) # s) =
    Inr \<lparr>ps_compressed = (4 \<le> f), ps_recovery = f mod 4, ps_signature = s\<rparr>"
proof -
  have "f \<in> set [0..15]" using assms(2,3) by simp
  then have c: "(js_and f 12 \<noteq> 0) = (4 \<le> f)" using flag_table unfolding list_all_iff by blast
  define w :: byte where "w = word_of_int (f + 27)"
  have "uint w = f + 27"
    unfolding w_def by (subst uint_word_of_int) (use assms(2,3) in simp)
  then have "unat w = nat (f + 27)" by (simp only: unat_eq_nat_uint)
  with assms(2,3) have "int (unat w) - 27 = f" "unat w \<le> 42" "27 \<le> unat w" by simp_all
  then have "decodeSignature (w # s) = Inr \<lparr>ps_compressed = (4 \<le> f), ps_recovery = f mod 4, ps_signature = s\<rparr>"
    using assms(1) c unfolding decodeSignature_def readUInt8_eq by (simp only: nth_Cons_0 bindE.simps if_True Let_def js_and_3) simp
  then show ?thesis by (simp only: w_def)
qed

lemma decode_encodeSignature:
  assumes "length s = 64" "0 \<le> r" "r \<le> 3"
  shows "decodeSignature (encodeSignature s r c) = Inr \<lparr>ps_compressed = c, ps_recovery = r, ps_signature = s\<rparr>"
  using assms decodeSignature_flag [of s "if c then r + 4 else r"] by (simp add: encodeSignature_def Let_def)

subsection \<open>Base64\<close>

text \<open>\<open>buffer.toString('base64')\<close>, with which callers pass a signature as text.\<close>

definition b64_char :: "nat \<Rightarrow> char" where
  "b64_char n =
     (if n < 26 then char_of (n + 65) else if n < 52 then char_of (n - 26 + 97)
      else if n < 62 then char_of (n - 52 + 48) else if n = 62 then CHR ''+'' else CHR ''/'')"

fun base64_encode :: "buffer \<Rightarrow> string" where
  "base64_encode (a # b # c # bs) =
     b64_char (unat a div 4) # b64_char (unat a mod 4 * 16 + unat b div 16) #
     b64_char (unat b mod 16 * 4 + unat c div 64) # b64_char (unat c mod 64) # base64_encode bs"
| "base64_encode [a, b] =
     [b64_char (unat a div 4), b64_char (unat a mod 4 * 16 + unat b div 16), b64_char (unat b mod 16 * 4), CHR ''='']"
| "base64_encode [a] = [b64_char (unat a div 4), b64_char (unat a mod 4 * 16), CHR ''='', CHR ''='']"
| "base64_encode [] = []"

lemma b64_digit_char:
  assumes "n < 64"
  shows "b64_digit (b64_char n) = Some n"
proof -
  consider "n < 26" | "26 \<le> n" "n < 52" | "52 \<le> n" "n < 62" | "n = 62" | "n = 63" using assms by linarith
  then show ?thesis by cases (auto simp: b64_digit_def b64_char_def Let_def)
qed

lemma b64_pad: "b64_digit CHR ''='' = None"
  by (simp add: b64_digit_def Let_def)

lemma b64_small: "unat (b :: byte) div 16 < 16" "unat b div 64 < 4"
  using unat_byte_bound [of b] by linarith+

lemma base64_roundtrip: "base64_decode (base64_encode bs) = bs"
proof (induction bs rule: base64_encode.induct)
  case (1 a b c bs)
  have n: "unat a div 4 < 64" "unat a mod 4 * 16 + unat b div 16 < 64" "unat b mod 16 * 4 + unat c div 64 < 64"
      "unat c mod 64 < 64"
    using unat_byte_bound [of a] unat_byte_bound [of b] unat_byte_bound [of c] by linarith+
  have w: "(unat a mod 4 * 16 + unat b div 16) div 16 = unat a mod 4"
      "(unat a mod 4 * 16 + unat b div 16) mod 16 = unat b div 16"
      "(unat b mod 16 * 4 + unat c div 64) div 4 = unat b mod 16"
      "(unat b mod 16 * 4 + unat c div 64) mod 4 = unat c div 64"
    using b64_small [of b] b64_small [of c] by simp_all
  show ?case
    using 1 n w by (simp add: base64_decode_def b64_digit_char)
next
  case (2 a b)
  have n: "unat a div 4 < 64" "unat a mod 4 * 16 + unat b div 16 < 64" "unat b mod 16 * 4 < 64"
    using unat_byte_bound [of a] unat_byte_bound [of b] by linarith+
  have w: "(unat a mod 4 * 16 + unat b div 16) div 16 = unat a mod 4"
      "(unat a mod 4 * 16 + unat b div 16) mod 16 = unat b div 16"
    using b64_small [of b] by simp_all
  show ?case
    using n w by (simp add: base64_decode_def b64_digit_char b64_pad)
next
  case (3 a)
  have n: "unat a div 4 < 64" "unat a mod 4 * 16 < 64" using unat_byte_bound [of a] by linarith+
  show ?case
    using n by (simp add: base64_decode_def b64_digit_char b64_pad)
qed (simp add: base64_decode_def)

subsection \<open>The key behind a signature\<close>

definition recovered_key :: "message_lib \<Rightarrow> js_arg \<Rightarrow> js_arg \<Rightarrow> buffer \<Rightarrow> buffer result" where
  "recovered_key ml m p sig =
     bindE (decodeSignature sig) (\<lambda>ps. bindE (magicHash ml m p) (\<lambda>h.
     ml_recover ml h (ps_signature ps) (ps_recovery ps) (ps_compressed ps)))"

lemma message_verify_keys:
  "message_verify ml m addr arg q =
     bindE (recovered_key ml m (Text bitcoin_prefix) (signature_bytes arg)) (\<lambda>kb.
     bindE (recovered_key ml m q (signature_bytes arg)) (\<lambda>ke.
     bindE (ea_decode (ml_addr ml) addr) (\<lambda>d.
     Inr (hash160 (ml_hashes ml) ke = da_hash d \<or> hash160 (ml_hashes ml) kb = da_hash d))))"
  by (cases "decodeSignature (signature_bytes arg)")
    (simp_all add: message_verify_def recovered_key_def bindE_assoc Let_def)

subsection \<open>What the packages promise\<close>

text \<open>
  \<open>pub\<close> gives the serialised public key of a private key. A signature has 64 bytes and a recovery number
  from 0 to 3 with which the key comes back from the hash that was signed.
\<close>

locale message_keys = varuint_codec "ml_varuint ml" + digest_lengths "ml_hashes ml" + ecashaddr_codec "ml_addr ml"
  for ml :: message_lib +
  fixes pub :: "buffer \<Rightarrow> bool \<Rightarrow> buffer"
  assumes sign_shape: "ml_sign ml hash key e = Inr (s, r) \<Longrightarrow> length s = 64 \<and> 0 \<le> r \<and> r \<le> 3"
    and sign_recover: "ml_sign ml hash key e = Inr (s, r) \<Longrightarrow> ml_recover ml hash s r c = Inr (pub key c)"
begin

lemma magicHash_bytes:
  assumes "to_buffer (prefix_or_default p) = Inr pb" "to_buffer m = Inr mb" "length mb < 2 ^ 53"
  shows "magicHash ml m p = Inr (hash256 (ml_hashes ml) (pb @ compactSize (length mb) @ mb))"
proof -
  let ?n = "length pb + length (compactSize (length mb)) + length mb"
  define j where "j = drop (length pb) (allocUnsafe (ml_junk ml) ?n)"
  have j: "length j = length (compactSize (length mb)) + length mb" by (simp add: j_def)
  have c1: "fst (copy pb (allocUnsafe (ml_junk ml) ?n) 0) = pb @ j"
    by (simp add: copy_def put_def j_def Let_def)
  have "vu_encode (ml_varuint ml) (length mb) (pb @ j) (length pb) =
      Inr (put (pb @ j) (length pb) (compactSize (length mb)), length (compactSize (length mb)))"
    using j assms(3) by (intro varuint_encode) simp_all
  moreover have "put (pb @ j) (length pb) (compactSize (length mb)) =
      pb @ compactSize (length mb) @ drop (length (compactSize (length mb))) j"
    by (simp add: put_def)
  moreover have "fst (copy mb (pb @ compactSize (length mb) @ drop (length (compactSize (length mb))) j)
      (length pb + length (compactSize (length mb)))) = pb @ compactSize (length mb) @ mb"
  proof (cases "mb = []")
    case False
    then show ?thesis using j by (simp add: copy_def put_def Let_def)
  qed (use j in \<open>simp add: copy_def\<close>)
  ultimately show ?thesis
    using assms c1 by (simp add: magicHash_def varuint_length Let_def del: bindE_Inr_iff)
qed

lemma signed_key:
  assumes "message_sign ml m (PrivateKey key) c p opts = Inr sig" "prepareSign p opts = (q, e)"
  shows "recovered_key ml m q sig = Inr (pub key c)"
proof -
  obtain h s r where h: "magicHash ml m q = Inr h" "ml_sign ml h key e = Inr (s, r)" "sig = encodeSignature s r c"
    using assms by (auto simp: message_sign_def)
  have "decodeSignature sig = Inr \<lparr>ps_compressed = c, ps_recovery = r, ps_signature = s\<rparr>"
    unfolding h(3) using sign_shape [OF h(2)] by (intro decode_encodeSignature) simp_all
  then show ?thesis using h(1) sign_recover [OF h(2), of c] by (simp add: recovered_key_def del: bindE_Inr_iff)
qed

lemma signer_address:
  assumes "ea_encode (ml_addr ml) ''ecash'' ''P2PKH'' (hash160 (ml_hashes ml) (pub key c)) = Inr addr"
  shows "ea_decode (ml_addr ml) addr = Inr \<lparr>da_prefix = ''ecash'', da_type = ''P2PKH'', da_hash = hash160 (ml_hashes ml) (pub key c)\<rparr>"
proof -
  have "encodable \<lparr>da_prefix = ''ecash'', da_type = ''P2PKH'', da_hash = hash160 (ml_hashes ml) (pub key c)\<rparr>"
    by (simp add: encodable_def address_prefixes_def address_types_def)
  from decode_encode [OF this, of addr] assms show ?thesis by simp
qed

end

text \<open>The contract can be met: a signature that carries its key.\<close>

definition plain_pub :: "buffer \<Rightarrow> bool \<Rightarrow> buffer" where
  "plain_pub key c = take 64 (key @ replicate 64 0) @ [if c then 1 else 0]"

definition plain_message_lib :: message_lib where
  "plain_message_lib = \<lparr>ml_hashes = padded_hashes, ml_varuint = compactSize_varuint, ml_junk = (\<lambda>_. 0xaa),
     ml_sign = (\<lambda>hash key e. Inr (take 64 (key @ replicate 64 0), 1)),
     ml_recover = (\<lambda>hash s r c. Inr (s @ [if c then 1 else 0])), ml_addr = node_ecashaddr\<rparr>"

interpretation plain_message: message_keys plain_message_lib plain_pub
  by (unfold_locales; (simp only: plain_message_lib_def message_lib.simps)?;
      (rule cs.varuint_length cs.varuint_encode cs.varuint_decode cs.varuint_range padded.length_rmd160 padded.length_sha1
        padded.length_sha256 node.encode_total node.decode_encode; assumption?)?)
    (auto simp: plain_pub_def)

subsection \<open>Properties\<close>

text \<open>C15. 
  A message signed with a private key verifies against the key's address, as bytes and as base64 text, under
  the prefix that the signer hashed with (a prefix argument that is an object was dropped), provided that
  recovery under the Bitcoin prefix, which comes first, does not throw. A message signed under the Bitcoin
  prefix verifies whatever prefix is asked for, if recovery under that one does not throw.
\<close>

theorem message_sign_verify:
  assumes "message_keys ml pub"
    and "message_sign ml m (PrivateKey key) c p opts = Inr sig" "prepareSign p opts = (q, e)"
    and "ea_encode (ml_addr ml) ''ecash'' ''P2PKH'' (hash160 (ml_hashes ml) (pub key c)) = Inr addr"
  shows "\<forall>arg \<in> {SigBuffer sig, SigBase64 (base64_encode sig)}.
    (\<forall>kb. recovered_key ml m (Text bitcoin_prefix) sig = Inr kb \<longrightarrow> message_verify ml m addr arg q = Inr True) \<and>
    (\<forall>q' k'. q = Text bitcoin_prefix \<and> recovered_key ml m q' sig = Inr k' \<longrightarrow> message_verify ml m addr arg q' = Inr True)"
proof
  fix arg
  assume "arg \<in> {SigBuffer sig, SigBase64 (base64_encode sig)}"
  then have a: "signature_bytes arg = sig" by (auto simp: base64_roundtrip)
  note k = message_keys.signed_key [OF assms(1-3)] and d = message_keys.signer_address [OF assms(1,4)]
  show "(\<forall>kb. recovered_key ml m (Text bitcoin_prefix) sig = Inr kb \<longrightarrow> message_verify ml m addr arg q = Inr True) \<and>
    (\<forall>q' k'. q = Text bitcoin_prefix \<and> recovered_key ml m q' sig = Inr k' \<longrightarrow> message_verify ml m addr arg q' = Inr True)"
    using k d by (auto simp: message_verify_keys a simp del: bindE_Inr_iff)
qed

theorem message_sign_verify_witness:
  "\<exists>sig addr. message_sign plain_message_lib (Text (text_of ''hi'')) (PrivateKey (replicate 32 7)) True Undefined None = Inr sig \<and>
     ea_encode node_ecashaddr ''ecash'' ''P2PKH'' (hash160 padded_hashes (plain_pub (replicate 32 7) True)) = Inr addr \<and>
     message_verify plain_message_lib (Text (text_of ''hi'')) addr (SigBase64 (base64_encode sig)) Undefined = Inr True"
proof -
  have "bitcoin_prefix \<noteq> []" by (simp add: bitcoin_prefix_def)
  then have "\<exists>h. magicHash plain_message_lib (Text (text_of ''hi'')) p = Inr h" if "p = Undefined \<or> p = Text bitcoin_prefix" for p
    using that plain_message.magicHash_bytes [of p _ "Text (text_of ''hi'')"]
    by (auto simp: prefix_or_default_def text_of_def utf8_char_def high_surrogate_def low_surrogate_def)
  from this [of Undefined] this [of "Text bitcoin_prefix"] obtain h1 h2 where
      h: "magicHash plain_message_lib (Text (text_of ''hi'')) Undefined = Inr h1"
        "magicHash plain_message_lib (Text (text_of ''hi'')) (Text bitcoin_prefix) = Inr h2" by auto
  define sig where "sig = encodeSignature (take 64 (replicate 32 7 @ replicate 64 0)) 1 True"
  have s: "message_sign plain_message_lib (Text (text_of ''hi'')) (PrivateKey (replicate 32 7)) True Undefined None = Inr sig"
    by (simp add: message_sign_def h(1) del: bindE_Inr_iff) (simp add: plain_message_lib_def sig_def)
  have d: "decodeSignature sig = Inr \<lparr>ps_compressed = True, ps_recovery = 1, ps_signature = take 64 (replicate 32 7 @ replicate 64 0)\<rparr>"
    unfolding sig_def by (rule decode_encodeSignature) simp_all
  have r: "recovered_key plain_message_lib (Text (text_of ''hi'')) (Text bitcoin_prefix) sig =
      Inr (take 64 (replicate 32 7 @ replicate 64 0) @ [1])"
    by (simp add: recovered_key_def d h(2) del: bindE_Inr_iff take_append) (simp add: plain_message_lib_def)
  have "encodable \<lparr>da_prefix = ''ecash'', da_type = ''P2PKH'', da_hash = hash160 padded_hashes (plain_pub (replicate 32 7) True)\<rparr>"
    by (simp add: encodable_def address_prefixes_def address_types_def)
  from node.encode_total [OF this] obtain addr where
      a: "ea_encode node_ecashaddr ''ecash'' ''P2PKH'' (hash160 padded_hashes (plain_pub (replicate 32 7) True)) = Inr addr"
    by auto
  from message_sign_verify [OF plain_message.message_keys_axioms s, of Undefined None addr] a r
  have "message_verify plain_message_lib (Text (text_of ''hi'')) addr (SigBase64 (base64_encode sig)) Undefined = Inr True"
    by (simp add: plain_message_lib_def)
  with s a show ?thesis by blast
qed

end
