(* ===== verification/Wallet_OpReturn.thy ===== *)
theory Wallet_OpReturn
  imports Message Script Script_Asm
begin

text \<open>
  Messages of the wallet in an \<open>OP_RETURN\<close> output: \<open>encodeOpReturnScript\<close>, \<open>generateOpReturnScript\<close>,
  \<open>parseOpReturn\<close> and \<open>convertToEncryptStruct\<close> of \<open>cashtab/src/utils/cashMethods.js\<close>, with the constants
  of \<open>components/Common/Ticker.js\<close>. The first element of the script is the string \<open>'106'\<close>, which
  \<open>writeUInt8\<close> converts to the number.
\<close>

subsection \<open>Constants\<close>

definition opReturnPrefixHex :: string where "opReturnPrefixHex = ''6a''"
definition opReturnPrefixDec :: int where "opReturnPrefixDec = 106"
definition opPushDataOne :: string where "opPushDataOne = ''4c''"
definition prefix_eToken :: string where "prefix_eToken = ''534c5000''"
definition prefix_cashtab :: string where "prefix_cashtab = ''00746162''"
definition prefix_cashtabEncrypted :: string where "prefix_cashtabEncrypted = ''65746162''"
definition prefix_airdrop :: string where "prefix_airdrop = ''64726f70''"

lemmas prefix_defs = prefix_eToken_def prefix_cashtab_def prefix_cashtabEncrypted_def prefix_airdrop_def

subsection \<open>Writing\<close>

definition encodeOpReturnScript :: "(nat \<Rightarrow> byte) \<Rightarrow> chunk list \<Rightarrow> buffer result" where
  "encodeOpReturnScript junk scriptChunks = compile junk (Chunks scriptChunks)"

text \<open>A missing message and the empty string are falsy, an empty buffer is not.\<close>

definition generateOpReturnScript ::
    "(nat \<Rightarrow> byte) \<Rightarrow> js_text option \<Rightarrow> bool \<Rightarrow> bool \<Rightarrow> string option \<Rightarrow> buffer option \<Rightarrow> buffer result" where
  "generateOpReturnScript junk optionalOpReturnMsg encryptionFlag airdropFlag airdropTokenId encryptedEj =
     (if encryptionFlag \<and> encryptedEj = None \<or> airdropFlag \<and> (airdropTokenId = None \<or> airdropTokenId = Some [])
      then Inl (Error ''Invalid OP RETURN script input'')
      else
        let script = [Op opReturnPrefixDec];
            script =
              (if encryptionFlag then
                 script @ [Data (buffer_from_hex prefix_cashtabEncrypted), Data (the encryptedEj)]
               else
                 let script = (if airdropFlag
                       then script @ [Data (buffer_from_hex prefix_airdrop), Data (buffer_from_hex (the airdropTokenId))]
                       else script);
                     script = script @ [Data (buffer_from_hex prefix_cashtab)] in
                 case optionalOpReturnMsg of
                   None \<Rightarrow> script
                 | Some msg \<Rightarrow> if msg = [] then script else script @ [Data (utf8 msg)]) in
        encodeOpReturnScript junk script)"

subsection \<open>Reading\<close>

text \<open>\<open>parseInt(s, 16)\<close>: leading white space, a sign and \<open>0x\<close> are allowed, and the digits end at the first
  other character; \<open>None\<close> is \<open>NaN\<close>.\<close>

definition js_space :: "char \<Rightarrow> bool" where
  "js_space c \<longleftrightarrow> (of_char c :: nat) \<in> {9, 10, 11, 12, 13, 32, 160}"

fun hex_prefix_value :: "nat \<Rightarrow> string \<Rightarrow> nat" where
  "hex_prefix_value n [] = n"
| "hex_prefix_value n (c # cs) = (case hex_value c of None \<Rightarrow> n | Some d \<Rightarrow> hex_prefix_value (16 * n + d) cs)"

definition parseHexDigits :: "string \<Rightarrow> int option" where
  "parseHexDigits s =
     (let s = (if take 2 s = ''0x'' \<or> take 2 s = ''0X'' then drop 2 s else s) in
      case s of
        [] \<Rightarrow> None
      | c # _ \<Rightarrow> if hex_value c = None then None else Some (int (hex_prefix_value 0 s)))"

definition parseInt16 :: "string \<Rightarrow> int option" where
  "parseInt16 s =
     (case dropWhile js_space s of
        [] \<Rightarrow> None
      | c # s \<Rightarrow>
          if c = CHR ''-'' then map_option uminus (parseHexDigits s)
          else if c = CHR ''+'' then parseHexDigits s
          else parseHexDigits (c # s))"

text \<open>\<open>substring(0, n)\<close> and \<open>slice(n)\<close>: a negative \<open>n\<close> counts as 0 for the first and from the end for the
  second, and \<open>NaN\<close> as 0 for both.\<close>

definition js_substring0 :: "string \<Rightarrow> int option \<Rightarrow> string" where
  "js_substring0 s n = (case n of None \<Rightarrow> [] | Some n \<Rightarrow> take (nat n) s)"

definition js_slice :: "'a list \<Rightarrow> int option \<Rightarrow> 'a list" where
  "js_slice s n = (case n of
     None \<Rightarrow> s
   | Some n \<Rightarrow> if n < 0 then drop (length s - nat (- n)) s else drop (nat n) s)"

text \<open>One round of the loop: the pushed text and what follows it.\<close>

definition parse_push :: "string \<Rightarrow> string \<times> string" where
  "parse_push hexStr =
     (let (msgByteSize, hexStr) =
            (if take 2 hexStr = opPushDataOne then (parseInt16 (take 2 (drop 2 hexStr)), drop 4 hexStr)
             else (parseInt16 (take 2 hexStr), drop 2 hexStr));
          msgCharLength = map_option (\<lambda>n. 2 * n) msgByteSize in
      (js_substring0 hexStr msgCharLength, js_slice hexStr msgCharLength))"

lemma length_js_slice: "length (js_slice s n) \<le> length s"
  by (simp add: js_slice_def split: option.split)

lemma parse_push_shorter:
  assumes "s \<noteq> []"
  shows "length (snd (parse_push s)) < length s"
proof -
  define r where "r = (if take 2 s = opPushDataOne then drop 4 s else drop 2 s)"
  have "snd (parse_push s) = js_slice r (map_option (\<lambda>n. 2 * n)
      (if take 2 s = opPushDataOne then parseInt16 (take 2 (drop 2 s)) else parseInt16 (take 2 s)))"
    by (simp add: parse_push_def r_def Let_def)
  also have "length \<dots> \<le> length r" by (rule length_js_slice)
  also have "\<dots> < length s" using assms by (cases s) (auto simp: r_def)
  finally show ?thesis .
qed

function parse_loop :: "nat \<Rightarrow> string \<Rightarrow> string list" where
  "parse_loop i hexStr =
     (if hexStr = [] then []
      else
        let message = fst (parse_push hexStr) in
        if i = 0 \<and> message = prefix_eToken then [prefix_eToken]
        else message # parse_loop (i + 1) (snd (parse_push hexStr)))"
  by pat_completeness auto
termination
  by (relation "measure (\<lambda>(i, s). length s)") (auto simp: parse_push_shorter)

declare parse_loop.simps [simp del]

text \<open>\<open>None\<close> is the result \<open>false\<close>; the three other known prefixes are stored as they are read.\<close>

definition parseOpReturn :: "string option \<Rightarrow> string list option" where
  "parseOpReturn hexStr = (case hexStr of
     None \<Rightarrow> None
   | Some hexStr \<Rightarrow>
       if hexStr = [] \<or> take 2 hexStr \<noteq> opReturnPrefixHex then None
       else Some (parse_loop 0 (drop 2 hexStr)))"

subsection \<open>Encrypted messages\<close>

text \<open>\<open>slice(i, j)\<close> of a buffer, where a negative index counts from the end.\<close>

definition js_index :: "nat \<Rightarrow> int \<Rightarrow> nat" where
  "js_index len i = (if i < 0 then nat (int len + i) else nat i)"

definition buffer_slice :: "buffer \<Rightarrow> int \<Rightarrow> int \<Rightarrow> buffer" where
  "buffer_slice b i j = slice b (js_index (length b) i) (js_index (length b) j)"

record encrypt_struct =
  es_iv :: buffer
  es_epk :: buffer
  es_ct :: buffer
  es_mac :: buffer

definition convertToEncryptStruct :: "buffer option \<Rightarrow> encrypt_struct result" where
  "convertToEncryptStruct encryptionBuffer = (case encryptionBuffer of
     None \<Rightarrow> Inl (Error ''cashmethods.convertToEncryptStruct() error: input must be a buffer'')
   | Some b \<Rightarrow>
       bindE (case byte_at b 0 of
          Some first \<Rightarrow>
            if first = 4 then Inr (buffer_slice b 0 65)
            else if first = 3 \<or> first = 2 then Inr (buffer_slice b 0 33)
            else Inl (Error ''Invalid type: '')
        | None \<Rightarrow> Inl (Error ''Invalid type: undefined'')) (\<lambda>publicKey.
       let startOfBuf = int (length publicKey);
           encryptionTagLength = 32;
           ivCtSubstring = buffer_slice b startOfBuf (int (length b) - encryptionTagLength) in
       Inr \<lparr>es_iv = take 16 ivCtSubstring, es_epk = publicKey, es_ct = drop 16 ivCtSubstring,
            es_mac = buffer_slice b (int (length b) - encryptionTagLength) (int (length b))\<rparr>))"

subsection \<open>What is written is read\<close>

lemma parseInt16_byte: "parseInt16 (hex_of_byte b) = Some (int (unat b))"
proof -
  define m n where "m = unat b div 16" and "n = unat b mod 16"
  have mn: "m < 16" "n < 16" "unat b = 16 * m + n" 
    using b64_small(1) [of b] by (simp_all add: m_def n_def)
  have d: "\<forall>i \<in> set [0..<16]. \<not> js_space (hex_digits ! i) \<and> hex_digits ! i \<noteq> CHR ''-'' \<and> hex_digits ! i \<noteq> CHR ''+'' \<and>
      hex_digits ! i \<noteq> CHR ''x'' \<and> hex_digits ! i \<noteq> CHR ''X''"
    by code_simp
  have "i \<in> set [0..<16]" if "i < 16" for i :: nat using that unfolding set_upt atLeastLessThan_iff by simp
  note dm = bspec [OF d this [OF mn(1)]] and dn = bspec [OF d this [OF mn(2)]]
  have h: "hex_of_byte b = [hex_digits ! m, hex_digits ! n]" by (simp add: hex_of_byte_def m_def n_def)
  have "parseHexDigits [hex_digits ! m, hex_digits ! n] = Some (int (16 * m + n))"
    using dn hex_value_digit [OF mn(1)] hex_value_digit [OF mn(2)] by (simp add: parseHexDigits_def)
  then show ?thesis using dm unfolding h mn(3) by (simp add: parseInt16_def)
qed

lemma length_hex [simp]: "length (buffer_hex b) = 2 * length b" "length (hex_of_byte x) = 2"
  by (induction b) (simp_all add: buffer_hex_def hex_of_byte_def)

lemma buffer_hex_simps [simp]:
  "buffer_hex [] = []" "buffer_hex (x # b) = hex_of_byte x @ buffer_hex b" "buffer_hex (b @ c) = buffer_hex b @ buffer_hex c"
  by (simp_all add: buffer_hex_def)

text \<open>A push that the reader takes apart: not a single-byte opcode, and short enough for one size byte.\<close>

definition readable_push :: "buffer \<Rightarrow> bool" where
  "readable_push b \<longleftrightarrow> asMinimalOP b = None \<and> length b \<le> 255"

lemma hex_of_byte_4c: "hex_of_byte b = opPushDataOne \<longleftrightarrow> b = 76"
proof -
  have "hex_of_byte 76 = opPushDataOne" by code_simp
  moreover have "hex_of_byte b = hex_of_byte 76 \<longleftrightarrow> b = 76"
  proof
    assume "hex_of_byte b = hex_of_byte 76"
    then have "Some (int (unat b)) = Some (int (unat (76 :: byte)))" by (simp only: parseInt16_byte [symmetric])
    then show "b = 76" by (simp only: option.inject of_nat_eq_iff word_unat_eq_iff [symmetric])
  qed simp
  ultimately show ?thesis by simp
qed

lemma parse_push_bytes:
  assumes "readable_push b"
  shows "parse_push (buffer_hex (push_bytes b) @ s) = (buffer_hex b, s)"
proof (cases "length b < 76")
  case True
  have "unat (word_of_nat (length b) :: byte) = length b" using True by (simp add: unat_word_of_nat_byte)
  moreover from this True have "hex_of_byte (word_of_nat (length b)) \<noteq> opPushDataOne" by (auto simp: hex_of_byte_4c)
  ultimately show ?thesis
    using True by (simp add: parse_push_def push_bytes_def pushdata_bytes_def parseInt16_byte js_substring0_def js_slice_def Let_def)
next
  case False
  then have l: "unat (word_of_nat (length b) :: byte) = length b" "length b \<le> 255"
    using assms by (simp_all add: unat_word_of_nat_byte readable_push_def)
  have "hex_of_byte 76 = opPushDataOne" by (simp add: hex_of_byte_4c)
  moreover have "length opPushDataOne = 2" by (simp add: opPushDataOne_def)
  ultimately show ?thesis
    using False l by (simp add: parse_push_def push_bytes_def pushdata_bytes_def parseInt16_byte js_substring0_def js_slice_def Let_def)
qed

lemma parse_loop_pushes:
  assumes "list_all readable_push bs" "i = 0 \<Longrightarrow> bs \<noteq> [] \<Longrightarrow> buffer_hex (hd bs) \<noteq> prefix_eToken"
  shows "parse_loop i (buffer_hex (concat (map push_bytes bs))) = map buffer_hex bs"
  using assms
proof (induction bs arbitrary: i)
  case Nil
  then show ?case by (simp add: parse_loop.simps)
next
  case (Cons b bs)
  have ne: "buffer_hex (push_bytes b) \<noteq> []"
    by (auto simp: push_bytes_def pushdata_bytes_def simp flip: length_greater_0_conv)
  have p: "parse_push (buffer_hex (push_bytes b) @ buffer_hex (concat (map push_bytes bs))) =
      (buffer_hex b, buffer_hex (concat (map push_bytes bs)))"
    using Cons.prems by (intro parse_push_bytes) simp
  have "parse_loop (Suc i) (buffer_hex (concat (map push_bytes bs))) = map buffer_hex bs"
    using Cons.prems by (intro Cons.IH) simp_all
  moreover have "\<not> (i = 0 \<and> buffer_hex b = prefix_eToken)" using Cons.prems(2) by auto
  ultimately show ?case using ne p by (subst parse_loop.simps) (auto simp: Let_def)
qed

text \<open>The pushes that the writer makes after the opcode.\<close>

definition opreturn_parts :: "js_text option \<Rightarrow> bool \<Rightarrow> bool \<Rightarrow> string option \<Rightarrow> buffer option \<Rightarrow> buffer list" where
  "opreturn_parts msg encryptionFlag airdropFlag airdropTokenId encryptedEj =
     (if encryptionFlag then [buffer_from_hex prefix_cashtabEncrypted, the encryptedEj]
      else (if airdropFlag then [buffer_from_hex prefix_airdrop, buffer_from_hex (the airdropTokenId)] else []) @
        [buffer_from_hex prefix_cashtab] @ (case msg of None \<Rightarrow> [] | Some m \<Rightarrow> if m = [] then [] else [utf8 m]))"

lemma generateOpReturnScript_parts:
  "generateOpReturnScript junk msg encryptionFlag airdropFlag airdropTokenId encryptedEj =
     (if encryptionFlag \<and> encryptedEj = None \<or> airdropFlag \<and> (airdropTokenId = None \<or> airdropTokenId = Some [])
      then Inl (Error ''Invalid OP RETURN script input'')
      else compile junk (Chunks (Op 106 # map Data (opreturn_parts msg encryptionFlag airdropFlag airdropTokenId encryptedEj))))"
  by (simp add: generateOpReturnScript_def encodeOpReturnScript_def opreturn_parts_def opReturnPrefixDec_def Let_def
      split: option.split)

lemma app_prefixes:
  "readable_push (buffer_from_hex prefix_cashtabEncrypted)" "readable_push (buffer_from_hex prefix_airdrop)"
  "readable_push (buffer_from_hex prefix_cashtab)"
  "buffer_hex (buffer_from_hex prefix_cashtabEncrypted) = prefix_cashtabEncrypted"
  "buffer_hex (buffer_from_hex prefix_airdrop) = prefix_airdrop" "buffer_hex (buffer_from_hex prefix_cashtab) = prefix_cashtab"
  by code_simp+

lemma first_part:
  "opreturn_parts msg encryptionFlag airdropFlag airdropTokenId encryptedEj \<noteq> [] \<and>
   buffer_hex (hd (opreturn_parts msg encryptionFlag airdropFlag airdropTokenId encryptedEj)) \<noteq> prefix_eToken"
proof -
  have "prefix_cashtabEncrypted \<noteq> prefix_eToken" "prefix_airdrop \<noteq> prefix_eToken" "prefix_cashtab \<noteq> prefix_eToken"
    by (simp_all add: prefix_defs)
  then show ?thesis by (auto simp: opreturn_parts_def app_prefixes)
qed

lemma readable_chunk_ok: "list_all readable_push ps \<Longrightarrow> list_all chunk_ok (Op 106 # map Data ps)"
proof -
  have "length p < 2 ^ 32" if "length p \<le> 255" for p :: buffer
    using that by (rule le_less_trans) simp
  then show "list_all readable_push ps \<Longrightarrow> list_all chunk_ok (Op 106 # map Data ps)"
    by (auto simp: list_all_iff chunk_simps readable_push_def)
qed

subsection \<open>Properties\<close>

text \<open>C18. 
  The script that the wallet writes for a message parses back to the application prefixes and the message (the
  token and the message of an airdrop, or the encrypted bytes), in hexadecimal, as long as no part is longer
  than 255 bytes or is a number that the script compiler turns into an opcode.
\<close>

theorem opreturn_roundtrip:
  assumes "generateOpReturnScript junk msg encryptionFlag airdropFlag airdropTokenId encryptedEj = Inr script"
    and "list_all readable_push (opreturn_parts msg encryptionFlag airdropFlag airdropTokenId encryptedEj)"
  shows "parseOpReturn (Some (buffer_hex script)) =
    Some (map buffer_hex (opreturn_parts msg encryptionFlag airdropFlag airdropTokenId encryptedEj))"
proof -
  let ?ps = "opreturn_parts msg encryptionFlag airdropFlag airdropTokenId encryptedEj"
  note ok = readable_chunk_ok [OF assms(2)]
  have "map chunk_bytes (map Data ?ps) = map push_bytes ?ps"
    using assms(2) by (auto simp: list_all_iff readable_push_def chunk_simps)
  then have "map chunk_bytes (Op 106 # map Data ?ps) = [106] # map push_bytes ?ps"
    by (simp only: list.map chunk_simps) simp
  then have "compile junk (Chunks (Op 106 # map Data ?ps)) = Inr (concat ([106] # map push_bytes ?ps))"
    by (simp only: compile_bytes [OF ok])
  moreover have "compile junk (Chunks (Op 106 # map Data ?ps)) = Inr script"
    using assms(1) unfolding generateOpReturnScript_parts by (simp only: split: if_splits) simp
  ultimately have s: "script = 106 # concat (map push_bytes ?ps)" by (simp del: compile.simps)
  have "hex_of_byte 106 = opReturnPrefixHex" by code_simp
  moreover have "length opReturnPrefixHex = 2" by (simp add: opReturnPrefixHex_def)
  moreover have "parse_loop 0 (buffer_hex (concat (map push_bytes ?ps))) = map buffer_hex ?ps"
    using assms(2) first_part by (intro parse_loop_pushes) auto
  ultimately show ?thesis by (simp add: parseOpReturn_def s) (simp add: opReturnPrefixHex_def)
qed

theorem opreturn_roundtrip_witness:
  "\<exists>script. generateOpReturnScript (\<lambda>_. 0) (Some (text_of ''gm'')) False False None None = Inr script \<and>
     parseOpReturn (Some (buffer_hex script)) = Some [''00746162'', ''676d'']"
proof -
  let ?ps = "opreturn_parts (Some (text_of ''gm'')) False False None None"
  have m: "utf8 (text_of ''gm'') = [0x67, 0x6d]" "text_of ''gm'' \<noteq> []"
    by (simp_all add: text_of_def utf8_char_def high_surrogate_def low_surrogate_def)
  have r: "list_all readable_push ?ps"
    using m by (simp add: opreturn_parts_def app_prefixes readable_push_def [of "[_, _]"] asMinimalOP_def)
  have "buffer_hex [0x67, 0x6d] = ''676d''" by code_simp
  then have h: "map buffer_hex ?ps = [''00746162'', ''676d'']"
    using m by (simp add: opreturn_parts_def app_prefixes(6) del: buffer_hex_simps) (simp add: prefix_cashtab_def)
  from compile_bytes [OF readable_chunk_ok [OF r], of "\<lambda>_. 0"] obtain script where
      s: "generateOpReturnScript (\<lambda>_. 0) (Some (text_of ''gm'')) False False None None = Inr script"
    by (simp add: generateOpReturnScript_parts del: compile.simps bindE_Inr_iff)
  from opreturn_roundtrip [OF s r] s h show ?thesis by simp
qed

text \<open>Encrypted data laid out as \<open>epk + iv + ct + mac\<close> is taken apart into those four.\<close>

theorem encrypt_struct_roundtrip:
  assumes "length epk = (if hd epk = 4 then 65 else 33)" "hd epk \<in> {2, 3, 4}" "length iv = 16" "length mac = 32"
  shows "convertToEncryptStruct (Some (epk @ iv @ ct @ mac)) = Inr \<lparr>es_iv = iv, es_epk = epk, es_ct = ct, es_mac = mac\<rparr>"
proof -
  let ?b = "epk @ iv @ ct @ mac"
  have ne: "epk \<noteq> []" using assms(1) by (auto split: if_splits)
  then have f: "byte_at ?b 0 = Some (unat (hd epk))" by (simp add: byte_at_def hd_conv_nth nth_append)
  have k: "buffer_slice ?b 0 (int (length epk)) = epk"
    by (simp add: buffer_slice_def js_index_def slice_def)
  have m: "buffer_slice ?b (int (length epk)) (int (length ?b) - 32) = iv @ ct"
    "buffer_slice ?b (int (length ?b) - 32) (int (length ?b)) = mac"
    using assms(4) by (simp_all add: buffer_slice_def js_index_def slice_def nat_diff_distrib')
  have "hd epk = 4 \<and> length epk = 65 \<or> hd epk \<in> {2, 3} \<and> length epk = 33"
    using assms(1,2) by (auto split: if_splits)
  then have "(if unat (hd epk) = 4 then Inr (buffer_slice ?b 0 65)
      else if unat (hd epk) = 3 \<or> unat (hd epk) = 2 then Inr (buffer_slice ?b 0 33) else Inl (Error ''Invalid type: '')) =
      (Inr epk :: buffer result)"
    using k by auto
  then show ?thesis
    using m assms(3) by (simp add: convertToEncryptStruct_def f Let_def)
qed

theorem encrypt_struct_roundtrip_witness:
  "convertToEncryptStruct (Some ((2 # replicate 32 5) @ replicate 16 6 @ [7, 8] @ replicate 32 9)) =
     Inr \<lparr>es_iv = replicate 16 6, es_epk = 2 # replicate 32 5, es_ct = [7, 8], es_mac = replicate 32 9\<rparr>"
  by (rule encrypt_struct_roundtrip) simp_all

end
