(* ===== verification/Wallet_Amount.thy ===== *)
theory Wallet_Amount
  imports Complex_Main HDNode
begin

text \<open>
  Amounts in the wallet: the conversions and sums of \<open>cashtab/src/utils/cashMethods.js\<close>, the fee, and the
  amount checks of \<open>cashtab/src/utils/validation.js\<close>. The class \<open>BigNumber\<close> of \<open>bignumber.js\<close> is a
  parameter, a record of its operations over a type of numbers; the locale \<open>big_numbers\<close> says that
  they compute on rational numbers (\<open>None\<close> is \<open>NaN\<close> or an infinity). The product of two JavaScript numbers is
  the product of rational numbers rounded to 53 bits.
\<close>

subsection \<open>Double precision\<close>

fun ilog2 :: "nat \<Rightarrow> nat" where
  "ilog2 n = (if n < 2 then 0 else Suc (ilog2 (n div 2)))"

declare ilog2.simps [simp del]

definition round_even :: "rat \<Rightarrow> int" where
  "round_even y =
     (let f = \<lfloor>y\<rfloor>; d = y - of_int f in
      if d < 1 / 2 then f else if d > 1 / 2 then f + 1 else if even f then f else f + 1)"

text \<open>The exponent of the last place of a positive number in the normal range.\<close>

definition double_exponent :: "rat \<Rightarrow> int" where
  "double_exponent x =
     (let (p, q) = quotient_of x;
          k = int (ilog2 (nat p)) - int (ilog2 (nat q)) in
      (if 2 powi k \<le> x then k else k - 1) - 52)"

definition double_round :: "rat \<Rightarrow> rat" where
  "double_round x =
     (if x = 0 then 0
      else let e = double_exponent \<bar>x\<bar> in sgn x * of_int (round_even (\<bar>x\<bar> / 2 powi e)) * 2 powi e)"

definition js_times :: "rat \<Rightarrow> rat \<Rightarrow> rat" where
  "js_times x y = double_round (x * y)"

subsection \<open>Big numbers\<close>

text \<open>
  \<open>bn_int\<close> and \<open>bn_text\<close> are the constructor on an integer and on a string (\<open>None\<close> is \<open>undefined\<close>),
  \<open>bn_pow10 k\<close> is \<open>new BigNumber(10 ** k)\<close>, \<open>bn_ceil\<close> is \<open>integerValue(ROUND_CEIL)\<close>, and
  \<open>bn_parseInt x\<close> is \<open>parseInt(x)\<close>, which goes through the string.
\<close>

record 'n bignumber =
  bn_int :: "int \<Rightarrow> 'n"
  bn_text :: "string option \<Rightarrow> 'n"
  bn_pow10 :: "int \<Rightarrow> 'n"
  bn_plus :: "'n \<Rightarrow> 'n \<Rightarrow> 'n"
  bn_minus :: "'n \<Rightarrow> 'n \<Rightarrow> 'n"
  bn_times :: "'n \<Rightarrow> 'n \<Rightarrow> 'n"
  bn_div :: "'n \<Rightarrow> 'n \<Rightarrow> 'n"
  bn_lt :: "'n \<Rightarrow> 'n \<Rightarrow> bool"
  bn_ceil :: "'n \<Rightarrow> 'n"
  bn_dp :: "'n \<Rightarrow> nat option"
  bn_isNaN :: "'n \<Rightarrow> bool"
  bn_parseInt :: "'n \<Rightarrow> int option"
  bn_toNumber :: "'n \<Rightarrow> rat option"
  bn_toString :: "'n \<Rightarrow> string"
  bn_toFixed :: "'n \<Rightarrow> nat \<Rightarrow> string"

text \<open>\<open>x.gt(y)\<close> is \<open>y.lt(x)\<close>; \<open>gte\<close> and \<open>lte\<close> are false when one side is \<open>NaN\<close>.\<close>

definition bn_gte :: "'n bignumber \<Rightarrow> 'n \<Rightarrow> 'n \<Rightarrow> bool" where
  "bn_gte bn x y \<longleftrightarrow> \<not> bn_isNaN bn x \<and> \<not> bn_isNaN bn y \<and> \<not> bn_lt bn x y"

subsection \<open>Units\<close>

abbreviation (input) dustSats :: int where "dustSats \<equiv> 550"
abbreviation (input) etokenSats :: int where "etokenSats \<equiv> 546"
abbreviation (input) cashDecimals :: nat where "cashDecimals \<equiv> 2"

definition fromLegacyDecimals :: "'n bignumber \<Rightarrow> 'n \<Rightarrow> nat \<Rightarrow> rat option" where
  "fromLegacyDecimals bn amount decimals = bn_toNumber bn (bn_times bn amount (bn_pow10 bn (8 - int decimals)))"

definition fromSatoshisToXec :: "'n bignumber \<Rightarrow> 'n \<Rightarrow> nat \<Rightarrow> 'n" where
  "fromSatoshisToXec bn amount decimals = bn_times bn amount (bn_pow10 bn (- int decimals))"

text \<open>\<open>None\<close> is the result \<open>false\<close>. The number of decimal places of a value that is not finite is \<open>null\<close>,
  which compares as 0.\<close>

definition fromXecToSatoshis :: "'n bignumber \<Rightarrow> 'n \<Rightarrow> nat \<Rightarrow> 'n option" where
  "fromXecToSatoshis bn sendAmount decimals =
     (if (case bn_dp bn sendAmount of None \<Rightarrow> 0 | Some d \<Rightarrow> d) \<le> decimals
      then Some (bn_times bn sendAmount (bn_pow10 bn (int decimals))) else None)"

definition getWalletBalanceFromUtxos :: "'n bignumber \<Rightarrow> int list \<Rightarrow> string \<times> string" where
  "getWalletBalanceFromUtxos bn values =
     (let totalBalanceInSatoshis = foldl (\<lambda>previousBalance v. bn_plus bn previousBalance (bn_int bn v)) (bn_int bn 0) values in
      (bn_toString bn totalBalanceInSatoshis,
       bn_toString bn (fromSatoshisToXec bn totalBalanceInSatoshis cashDecimals)))"

text \<open>The value of a row \<open>address, amount\<close>: what follows the first comma, up to the next.\<close>

definition row_field :: "string \<Rightarrow> nat \<Rightarrow> string option" where
  "row_field row i = (let fields = js_split CHR '','' row in if i < length fields then Some (fields ! i) else None)"

definition parseXecSendValue :: "'n bignumber \<Rightarrow> bool \<Rightarrow> 'n option \<Rightarrow> string list option \<Rightarrow> 'n result" where
  "parseXecSendValue bn isOneToMany singleSendValue destinationAddressAndValueArray =
     bindE (if isOneToMany then
        (case destinationAddressAndValueArray of
           None \<Rightarrow> Inl (Error ''Invalid destinationAddressAndValueArray'')
         | Some rows \<Rightarrow>
             if rows = [] then Inl (Error ''Invalid destinationAddressAndValueArray'')
             else Inr (foldl (\<lambda>value row. bn_plus bn value (bn_text bn (row_field row 1))) (bn_int bn 0) rows))
      else
        (case singleSendValue of
           None \<Rightarrow> Inl (Error ''Invalid singleSendValue'')
         | Some v \<Rightarrow> Inr v)) (\<lambda>value.
     if bn_lt bn value (bn_text bn (Some (bn_toString bn (fromSatoshisToXec bn (bn_int bn dustSats) cashDecimals))))
     then Inl (Error ''dust'') else Inr value)"

subsection \<open>The fee\<close>

definition getCashtabByteCount :: "'n bignumber \<Rightarrow> nat \<Rightarrow> nat \<Rightarrow> rat option" where
  "getCashtabByteCount bn p2pkhInputCount p2pkhOutputCount =
     (let inputCount = bn_int bn (int p2pkhInputCount);
          outputCount = bn_int bn (int p2pkhOutputCount);
          inputWeight = bn_int bn (148 * 4);
          outputWeight = bn_int bn (34 * 4);
          nonSegwitWeightConstant = bn_int bn (10 * 4);
          totalWeight = bn_plus bn (bn_plus bn (bn_plus bn (bn_int bn 0) (bn_times bn inputCount inputWeight))
            (bn_times bn outputCount outputWeight)) nonSegwitWeightConstant;
          byteCount = bn_ceil bn (bn_div bn totalWeight (bn_int bn 4)) in
      bn_toNumber bn byteCount)"

text \<open>\<open>NaN\<close> stays \<open>NaN\<close>.\<close>

definition calcFee :: "'n bignumber \<Rightarrow> nat \<Rightarrow> nat \<Rightarrow> rat \<Rightarrow> int option" where
  "calcFee bn utxos p2pkhOutputNumber satoshisPerByte =
     map_option (\<lambda>byteCount. \<lceil>js_times satoshisPerByte byteCount\<rceil>) (getCashtabByteCount bn utxos p2pkhOutputNumber)"

definition defaultFee :: rat where
  "defaultFee = double_round (201 / 100)"

subsection \<open>Checks of amounts\<close>

datatype amount_error = NotANumber | NotPositive | BelowDust | AboveBalance | TooManyDecimals

definition fiatToCrypto :: "'n bignumber \<Rightarrow> string \<Rightarrow> 'n \<Rightarrow> nat \<Rightarrow> string" where
  "fiatToCrypto bn fiatAmount fiatPrice decimals = bn_toFixed bn (bn_div bn (bn_text bn (Some fiatAmount)) fiatPrice) decimals"

text \<open>The amount is converted when it was entered in another currency. The last check looks for digits after a point in the decimal notation of the amount.\<close>

definition decimals_of :: "string \<Rightarrow> nat" where
  "decimals_of s = (if CHR ''.'' \<in> set s then length (js_split CHR ''.'' s ! 1) else 0)"

definition shouldRejectAmountInput :: "'n bignumber \<Rightarrow> string \<Rightarrow> string \<Rightarrow> 'n \<Rightarrow> 'n \<Rightarrow> amount_error option" where
  "shouldRejectAmountInput bn cashAmount selectedCurrency fiatPrice totalCashBalance =
     (let testedAmount = bn_text bn (Some (if selectedCurrency \<noteq> ''XEC'' then fiatToCrypto bn cashAmount fiatPrice cashDecimals else cashAmount)) in
      if bn_isNaN bn testedAmount then Some NotANumber
      else if bn_gte bn (bn_int bn 0) testedAmount then Some NotPositive
      else if bn_lt bn testedAmount (fromSatoshisToXec bn (bn_int bn dustSats) cashDecimals) then Some BelowDust
      else if bn_lt bn totalCashBalance testedAmount then Some AboveBalance
      else if decimals_of (bn_toString bn testedAmount) > cashDecimals then Some TooManyDecimals
      else None)"

definition isValidTokenInitialQty :: "'n bignumber \<Rightarrow> string \<Rightarrow> nat \<Rightarrow> bool" where
  "isValidTokenInitialQty bn tokenInitialQty tokenDecimals =
     (let minimumQty = bn_pow10 bn (- int tokenDecimals);
          q = bn_text bn (Some tokenInitialQty) in
      bn_gte bn q minimumQty \<and> bn_lt bn q (bn_int bn 100000000000) \<and>
      (case bn_dp bn q of None \<Rightarrow> 0 | Some d \<Rightarrow> d) \<le> tokenDecimals)"

definition isValidEtokenBurnAmount :: "'n bignumber \<Rightarrow> string option \<Rightarrow> 'n option \<Rightarrow> bool" where
  "isValidEtokenBurnAmount bn tokenBurnAmount maxAmount =
     (case (tokenBurnAmount, maxAmount) of
        (Some a, Some m) \<Rightarrow>
          bn_lt bn (bn_int bn 0) (bn_text bn (Some a)) \<and> bn_gte bn m (bn_text bn (Some a))
      | _ \<Rightarrow> False)"

definition isValidAirdropOutputsArray :: "'n bignumber \<Rightarrow> string \<Rightarrow> bool" where
  "isValidAirdropOutputsArray bn airdropOutputsArray =
     (if airdropOutputsArray = [] then False
      else list_all (\<lambda>row.
        let substring = js_split CHR '','' row in
        \<not> (bn_lt bn (bn_text bn (row_field row 1)) (fromSatoshisToXec bn (bn_int bn dustSats) cashDecimals) \<or>
           length substring \<noteq> 2)) (js_split (CHR 0x0A) airdropOutputsArray))"

subsection \<open>What the package promises\<close>

text \<open>
  \<open>num\<close> is the number that an object stands for. Sums, differences and products are exact; so is a quotient
  that is an integer. A string reads back as the number it was written for, and \<open>parseInt\<close> is exact on the
  integers that are written without an exponent.
\<close>

locale big_numbers =
  fixes bn :: "'n bignumber" and num :: "'n \<Rightarrow> rat option"
  assumes num_int: "num (bn_int bn i) = Some (of_int i)"
    and num_pow10: "\<bar>k\<bar> \<le> 20 \<Longrightarrow> num (bn_pow10 bn k) = Some (10 powi k)"
    and num_plus: "num x = Some a \<Longrightarrow> num y = Some b \<Longrightarrow> num (bn_plus bn x y) = Some (a + b)"
    and num_minus: "num x = Some a \<Longrightarrow> num y = Some b \<Longrightarrow> num (bn_minus bn x y) = Some (a - b)"
    and num_times: "num x = Some a \<Longrightarrow> num y = Some b \<Longrightarrow> num (bn_times bn x y) = Some (a * b)"
    and num_div: "num x = Some a \<Longrightarrow> num y = Some b \<Longrightarrow> a = of_int i * b \<Longrightarrow> b \<noteq> 0 \<Longrightarrow> num (bn_div bn x y) = Some (of_int i)"
    and finite_plus: "num (bn_plus bn x y) = Some c \<Longrightarrow> num x \<noteq> None \<and> num y \<noteq> None"
    and finite_minus: "num (bn_minus bn x y) = Some c \<Longrightarrow> num x \<noteq> None \<and> num y \<noteq> None"
    and finite_times: "num (bn_times bn x y) = Some c \<Longrightarrow> num x \<noteq> None \<and> num y \<noteq> None"
    and num_lt: "num x = Some a \<Longrightarrow> num y = Some b \<Longrightarrow> bn_lt bn x y \<longleftrightarrow> a < b"
    and num_isNaN: "num x = Some a \<Longrightarrow> \<not> bn_isNaN bn x"
    and NaN_lt: "bn_isNaN bn x \<Longrightarrow> \<not> bn_lt bn x y \<and> \<not> bn_lt bn y x"
    and num_ceil: "num x = Some a \<Longrightarrow> num (bn_ceil bn x) = Some (of_int \<lceil>a\<rceil>)"
    and num_dp: "num x = Some a \<Longrightarrow> \<exists>d i. bn_dp bn x = Some d \<and> a * 10 ^ d = of_int i"
    and num_parseInt: "num x = Some (of_int i) \<Longrightarrow> \<bar>i\<bar> < 10 ^ 21 \<Longrightarrow> bn_parseInt bn x = Some i"
    and finite_parseInt: "bn_parseInt bn x = Some i \<Longrightarrow> num x \<noteq> None"
    and num_toNumber: "num x = Some (of_int i) \<Longrightarrow> \<bar>i\<bar> \<le> 2 ^ 53 \<Longrightarrow> bn_toNumber bn x = Some (of_int i)"
    and num_toString: "num x = Some a \<Longrightarrow> num (bn_text bn (Some (bn_toString bn x))) = Some a"
begin

lemma num_gte: "num x = Some a \<Longrightarrow> num y = Some b \<Longrightarrow> bn_gte bn x y \<longleftrightarrow> b \<le> a"
  using num_isNaN [of x a] num_isNaN [of y b] num_lt [of x a y b] by (simp add: bn_gte_def not_less)

lemma num_sum:
  assumes "list_all (\<lambda>x. num (f x) = Some (g x)) xs" "num z = Some a"
  shows "num (foldl (\<lambda>s x. bn_plus bn s (f x)) z xs) = Some (a + (\<Sum>x\<leftarrow>xs. g x))"
  using assms
proof (induction xs arbitrary: z a)
  case (Cons x xs)
  then have "num (bn_plus bn z (f x)) = Some (a + g x)" by (intro num_plus) simp_all
  then show ?case using Cons.IH [of "bn_plus bn z (f x)" "a + g x"] Cons.prems by (simp add: add.assoc)
qed simp

lemma byteCount: "148 * i + 34 * k + 10 \<le> 2 ^ 53 \<Longrightarrow> getCashtabByteCount bn i k = Some (of_nat (148 * i + 34 * k + 10))"
proof -
  assume b: "148 * i + 34 * k + 10 \<le> 2 ^ 53"
  define w where "w = bn_plus bn (bn_plus bn (bn_plus bn (bn_int bn 0) (bn_times bn (bn_int bn (int i)) (bn_int bn (148 * 4))))
    (bn_times bn (bn_int bn (int k)) (bn_int bn (34 * 4)))) (bn_int bn (10 * 4))"
  have "num w = Some (of_int 0 + of_int (int i) * of_int (148 * 4) + of_int (int k) * of_int (34 * 4) + of_int (10 * 4))"
    unfolding w_def by (intro num_plus num_times num_int)
  then have "num (bn_div bn w (bn_int bn 4)) = Some (of_int (148 * int i + 34 * int k + 10))"
    by (rule num_div [OF _ num_int]) simp_all
  from num_ceil [OF this] have "num (bn_ceil bn (bn_div bn w (bn_int bn 4))) = Some (of_int (148 * int i + 34 * int k + 10))"
    by (simp only: ceiling_of_int)
  from num_toNumber [OF this] show ?thesis
    using b by (simp add: getCashtabByteCount_def w_def Let_def)
qed

text \<open>An amount with at most \<open>decimals\<close> places is a whole number of the smallest unit.\<close>

lemma satoshis:
  assumes "fromXecToSatoshis bn x decimals = Some s" "num x = Some a" "decimals \<le> 20"
  obtains i where "num s = Some (of_int i)" "of_int i = a * 10 ^ decimals"
proof -
  obtain d j where d: "bn_dp bn x = Some d" "a * 10 ^ d = of_int j" using num_dp [OF assms(2)] by blast
  have s: "d \<le> decimals" "s = bn_times bn x (bn_pow10 bn (int decimals))"
    using assms(1) d(1) by (auto simp: fromXecToSatoshis_def split: if_splits)
  have "num s = Some (a * 10 ^ decimals)"
    unfolding s(2) using num_times [OF assms(2) num_pow10 [of "int decimals"]] assms(3) by simp
  moreover have "a * 10 ^ decimals = a * 10 ^ d * 10 ^ (decimals - d)" using s(1) by (simp flip: power_add)
  then have "a * 10 ^ decimals = of_int (j * 10 ^ (decimals - d))" unfolding d(2) by simp
  ultimately show ?thesis using that [of "j * 10 ^ (decimals - d)"] by simp
qed

end

subsection \<open>Decimal numbers\<close>

text \<open>
  An instance: the integer \<open>m\<close> with \<open>e\<close> places, written in the notation with an exponent, \<open>me-e\<close>.
\<close>

type_synonym dec = "(int \<times> nat) option"

definition dec_num :: "dec \<Rightarrow> rat option" where
  "dec_num = map_option (\<lambda>(m, e). of_int m / 10 ^ e)"

definition dec_op :: "(int \<Rightarrow> nat \<Rightarrow> int \<Rightarrow> nat \<Rightarrow> int \<times> nat) \<Rightarrow> dec \<Rightarrow> dec \<Rightarrow> dec" where
  "dec_op f x y = (case (x, y) of (Some (m, e), Some (n, d)) \<Rightarrow> Some (f m e n d) | _ \<Rightarrow> None)"

definition dec_digits :: "string \<Rightarrow> int option" where
  "dec_digits s = (if s \<noteq> [] \<and> list_all is_digit s then Some (parseInt10 s) else None)"

definition dec_integer :: "string \<Rightarrow> int option" where
  "dec_integer s = (if s \<noteq> [] \<and> hd s = CHR ''-'' then map_option uminus (dec_digits (tl s)) else dec_digits s)"

definition dec_text :: "string option \<Rightarrow> dec" where
  "dec_text t =
     (case map_option (js_split CHR ''e'') t of
        Some [a] \<Rightarrow> map_option (\<lambda>m. (m, 0)) (dec_integer a)
      | Some [a, b] \<Rightarrow>
          (case (dec_integer a, dec_integer b) of
             (Some m, Some e) \<Rightarrow> if e \<le> 0 then Some (m, nat (- e)) else Some (m * 10 ^ nat e, 0)
           | _ \<Rightarrow> None)
      | _ \<Rightarrow> None)"

definition dec_string :: "dec \<Rightarrow> string" where
  "dec_string x =
     (case x of None \<Rightarrow> ''NaN''
      | Some (m, e) \<Rightarrow> (if m < 0 then ''-'' else []) @ decimal (nat \<bar>m\<bar>) @ ''e-'' @ decimal e)"

definition dec_bn :: "dec bignumber" where
  "dec_bn = \<lparr>bn_int = (\<lambda>i. Some (i, 0)), bn_text = dec_text,
     bn_pow10 = (\<lambda>k. Some (if 0 \<le> k then (10 ^ nat k, 0) else (1, nat (- k)))),
     bn_plus = dec_op (\<lambda>m e n d. (m * 10 ^ d + n * 10 ^ e, e + d)),
     bn_minus = dec_op (\<lambda>m e n d. (m * 10 ^ d - n * 10 ^ e, e + d)),
     bn_times = dec_op (\<lambda>m e n d. (m * n, e + d)),
     bn_div = (\<lambda>x y. if y = Some (0, 0) then None else dec_op (\<lambda>m e n d. ((m * 10 ^ d) div (n * 10 ^ e), 0)) x y),
     bn_lt = (\<lambda>x y. case (dec_num x, dec_num y) of (Some a, Some b) \<Rightarrow> a < b | _ \<Rightarrow> False),
     bn_ceil = (\<lambda>x. map_option (\<lambda>a. (\<lceil>a\<rceil>, 0)) (dec_num x)),
     bn_dp = map_option snd, bn_isNaN = (\<lambda>x. x = None),
     bn_parseInt = (\<lambda>x. map_option (\<lambda>a. if 0 \<le> a then \<lfloor>a\<rfloor> else \<lceil>a\<rceil>) (dec_num x)),
     bn_toNumber = dec_num, bn_toString = dec_string,
     bn_toFixed = (\<lambda>x n. dec_string (map_option (\<lambda>a. (\<lfloor>a * 10 ^ n + 1 / 2\<rfloor>, n)) (dec_num x)))\<rparr>"

lemma dec_num_Some: "dec_num x = Some a \<longleftrightarrow> (\<exists>m e. x = Some (m, e) \<and> a = of_int m / 10 ^ e)"
  by (auto simp: dec_num_def)

lemma dec_op_None: "dec_num (dec_op f x y) = Some c \<Longrightarrow> dec_num x \<noteq> None \<and> dec_num y \<noteq> None"
  by (auto simp: dec_op_def dec_num_def split: option.splits)

lemma decimal_dec: "dec_digits (decimal n) = Some (int n)" "hd (decimal n) \<noteq> CHR ''-''" "CHR ''e'' \<notin> set (decimal n)"
proof -
  have d: "decimal n \<noteq> []" "list_all is_digit (decimal n)" using decimal_digits by auto
  then show "dec_digits (decimal n) = Some (int n)" by (simp add: dec_digits_def parseInt10_decimal)
  have "is_digit (hd (decimal n))" using d by (simp add: list_all_iff)
  then show "hd (decimal n) \<noteq> CHR ''-''" by (auto simp: is_digit_def)
  have "\<not> is_digit (CHR ''e'')" by (simp add: is_digit_def)
  then show "CHR ''e'' \<notin> set (decimal n)" using d(2) by (auto simp: list_all_iff)
qed

lemma dec_text_string: "dec_text (Some (dec_string (Some (m, e)))) = Some (m, e)"
proof -
  define a where "a = (if m < 0 then ''-'' else []) @ decimal (nat \<bar>m\<bar>)"
  define b where "b = ''-'' @ decimal e"
  have "js_split CHR ''e'' (a @ CHR ''e'' # b) = [a, b]"
    using decimal_dec(3) by (simp add: js_split_append js_split_word a_def b_def)
  moreover have "dec_string (Some (m, e)) = a @ CHR ''e'' # b" by (simp add: dec_string_def a_def b_def)
  moreover have "dec_integer a = Some m" "dec_integer b = Some (- int e)"
    using decimal_digits decimal_dec by (auto simp: dec_integer_def a_def b_def)
  ultimately show ?thesis by (simp add: dec_text_def)
qed

interpretation decimals: big_numbers dec_bn dec_num
proof unfold_locales
  fix x y :: dec and a b c :: rat and i k :: int
  show "dec_num (bn_int dec_bn i) = Some (of_int i)" by (simp add: dec_bn_def dec_num_def)
  show "dec_num (bn_pow10 dec_bn k) = Some (10 powi k)" if "\<bar>k\<bar> \<le> 20"
    by (auto simp: dec_bn_def dec_num_def power_int_def inverse_eq_divide power_one_over)
  show "dec_num x = Some a \<Longrightarrow> dec_num y = Some b \<Longrightarrow> dec_num (bn_plus dec_bn x y) = Some (a + b)"
    by (auto simp: dec_bn_def dec_num_def dec_op_def field_simps power_add)
  show "dec_num x = Some a \<Longrightarrow> dec_num y = Some b \<Longrightarrow> dec_num (bn_minus dec_bn x y) = Some (a - b)"
    by (auto simp: dec_bn_def dec_num_def dec_op_def diff_divide_distrib power_add)
  show "dec_num x = Some a \<Longrightarrow> dec_num y = Some b \<Longrightarrow> dec_num (bn_times dec_bn x y) = Some (a * b)"
    by (auto simp: dec_bn_def dec_num_def dec_op_def field_simps power_add)
  show "dec_num (bn_plus dec_bn x y) = Some c \<Longrightarrow> dec_num x \<noteq> None \<and> dec_num y \<noteq> None"
    "dec_num (bn_minus dec_bn x y) = Some c \<Longrightarrow> dec_num x \<noteq> None \<and> dec_num y \<noteq> None"
    "dec_num (bn_times dec_bn x y) = Some c \<Longrightarrow> dec_num x \<noteq> None \<and> dec_num y \<noteq> None"
    by (simp_all only: dec_bn_def bignumber.simps, (erule dec_op_None)+)
  show "dec_num x = Some a \<Longrightarrow> dec_num y = Some b \<Longrightarrow> bn_lt dec_bn x y = (a < b)" by (simp add: dec_bn_def)
  show "dec_num x = Some a \<Longrightarrow> \<not> bn_isNaN dec_bn x" by (auto simp: dec_bn_def dec_num_def)
  show "bn_isNaN dec_bn x \<Longrightarrow> \<not> bn_lt dec_bn x y \<and> \<not> bn_lt dec_bn y x"
    by (simp add: dec_bn_def dec_num_def split: option.splits)
  show "dec_num x = Some a \<Longrightarrow> dec_num (bn_ceil dec_bn x) = Some (of_int \<lceil>a\<rceil>)" by (auto simp: dec_bn_def dec_num_def)
  show "dec_num x = Some a \<Longrightarrow> \<exists>d i. bn_dp dec_bn x = Some d \<and> a * 10 ^ d = of_int i"
    by (auto simp: dec_bn_def dec_num_def)
  show "dec_num x = Some (of_int i) \<Longrightarrow> \<bar>i\<bar> < 10 ^ 21 \<Longrightarrow> bn_parseInt dec_bn x = Some i" by (simp add: dec_bn_def)
  show "bn_parseInt dec_bn x = Some i \<Longrightarrow> dec_num x \<noteq> None" by (auto simp: dec_bn_def)
  show "dec_num x = Some (of_int i) \<Longrightarrow> \<bar>i\<bar> \<le> 2 ^ 53 \<Longrightarrow> bn_toNumber dec_bn x = Some (of_int i)" by (simp add: dec_bn_def)
  show "dec_num x = Some a \<Longrightarrow> dec_num (bn_text dec_bn (Some (bn_toString dec_bn x))) = Some a"
    unfolding dec_num_Some by (auto simp: dec_bn_def dec_text_string)
  assume q: "dec_num x = Some a" "dec_num y = Some b" "a = of_int i * b" "b \<noteq> 0"
  then obtain m e n d where xy: "x = Some (m, e)" "y = Some (n, d)" "a = of_int m / 10 ^ e" "b = of_int n / 10 ^ d"
    by (auto simp: dec_num_Some)
  have n: "n \<noteq> 0" using q(4) xy(4) by auto
  have "of_int (m * 10 ^ d) = (of_int (i * (n * 10 ^ e)) :: rat)" using q(3) xy(3,4) by (simp add: field_simps)
  then have "m * 10 ^ d = i * (n * 10 ^ e)" by (simp only: of_int_eq_iff)
  then show "dec_num (bn_div dec_bn x y) = Some (of_int i)"
    using n by (simp add: dec_bn_def xy(1,2) dec_op_def dec_num_def)
qed

end
