(* ===== verification/Wallet_Send.thy ===== *)
theory Wallet_Send
  imports Wallet_Builder Wallet_OpReturn Wallet_Amount
begin

text \<open>
  Sending coins from the wallet: the selection of inputs, the outputs and the change, and the signatures, of
  \<open>cashtab/src/utils/cashMethods.js\<close>, and \<open>sendXec\<close> of \<open>transactions.js\<close>, which puts them together. The
  server \<open>chronik\<close> and the package \<open>ecies-lite\<close> are parameters; a promise is the value it resolves to.
  The value of an output to be spent is the number that the server writes in decimal.
\<close>

subsection \<open>The wallet\<close>

record utxo =
  utxo_txid :: string
  utxo_outIdx :: int
  utxo_value :: int
  utxo_address :: string

record account =
  acc_cashAddress :: string
  acc_fundingWif :: string
  acc_hash160 :: string

record wallet =
  wal_Path245 :: account
  wal_Path145 :: account
  wal_Path1899 :: account

definition accounts :: "wallet \<Rightarrow> account list" where
  "accounts wallet = [wal_Path245 wallet, wal_Path145 wallet, wal_Path1899 wallet]"

text \<open>\<open>pop\<close> of an empty array is \<open>undefined\<close>, which has no fields.\<close>

definition getUtxoWif :: "string \<Rightarrow> wallet option \<Rightarrow> string result" where
  "getUtxoWif address wallet = (case wallet of
     None \<Rightarrow> Inl (Error ''Invalid wallet parameter'')
   | Some wallet \<Rightarrow>
       let matching = filter (\<lambda>acc. acc_cashAddress acc = address) (accounts wallet) in
       if matching = [] then Inl (TypeError ''undefined'') else Inr (acc_fundingWif (last matching)))"

definition getECPairFromWIF :: "'p lib \<Rightarrow> string \<Rightarrow> 'p ecpair result" where
  "getECPairFromWIF lib wif = fromWIF lib wif (One (Some toBitcoinJS))"

subsection \<open>Inputs\<close>

text \<open>A fee that is \<open>NaN\<close> makes the difference \<open>NaN\<close>, as the number of \<open>undefined\<close> does.\<close>

definition bn_fee :: "'n bignumber \<Rightarrow> int option \<Rightarrow> 'n" where
  "bn_fee bn txFee = (case txFee of None \<Rightarrow> bn_text bn None | Some f \<Rightarrow> bn_int bn f)"

fun select_inputs ::
    "'n bignumber \<Rightarrow> 'p lib \<Rightarrow> nat \<Rightarrow> 'n \<Rightarrow> rat \<Rightarrow> wallet_txb \<Rightarrow> 'n \<Rightarrow> utxo list \<Rightarrow> int option \<Rightarrow> utxo list \<Rightarrow>
     (wallet_txb \<times> 'n \<times> utxo list \<times> int option) result" where
  "select_inputs bn lib txOutputs satoshisToSend rate b totalValue inputUtxos txFee [] = Inr (b, totalValue, inputUtxos, txFee)"
| "select_inputs bn lib txOutputs satoshisToSend rate b totalValue inputUtxos txFee (utxo # utxos) =
     (let totalValue = bn_plus bn totalValue (bn_int bn (utxo_value utxo)) in
      bindE (wb_addInput lib b (utxo_txid utxo) (utxo_outIdx utxo) None None) (\<lambda>b.
      let inputUtxos = inputUtxos @ [utxo];
          txFee = calcFee bn (length inputUtxos) txOutputs rate in
      if bn_gte bn (bn_minus bn (bn_minus bn totalValue satoshisToSend) (bn_fee bn txFee)) (bn_int bn 0)
      then Inr (b, totalValue, inputUtxos, txFee)
      else select_inputs bn lib txOutputs satoshisToSend rate b totalValue inputUtxos txFee utxos))"

text \<open>A missing array and a rate of 0 are rejected.\<close>

definition generateTxInput ::
    "'n bignumber \<Rightarrow> 'p lib \<Rightarrow> bool \<Rightarrow> utxo list option \<Rightarrow> wallet_txb \<Rightarrow> string list option \<Rightarrow> 'n \<Rightarrow> rat \<Rightarrow>
     (wallet_txb \<times> 'n \<times> utxo list \<times> int option) result" where
  "generateTxInput bn lib isOneToMany utxos b destinationAddressAndValueArray satoshisToSend feeInSatsPerByte =
     (if isOneToMany \<and> destinationAddressAndValueArray = None \<or> utxos = None \<or> feeInSatsPerByte = 0
      then Inl (Error ''Invalid tx input parameter'')
      else
        let txOutputs = (if isOneToMany then length (the destinationAddressAndValueArray) + 1 else 2) in
        select_inputs bn lib txOutputs satoshisToSend feeInSatsPerByte b (bn_int bn 0) [] (Some 0) (the utxos))"

subsection \<open>Outputs\<close>

text \<open>\<open>parseInt(fromXecToSatoshis(v))\<close>; \<open>parseInt(false)\<close> is \<open>NaN\<close>.\<close>

definition sats_of :: "'n bignumber \<Rightarrow> 'n \<Rightarrow> int option" where
  "sats_of bn v = (case fromXecToSatoshis bn v cashDecimals of None \<Rightarrow> None | Some s \<Rightarrow> bn_parseInt bn s)"

definition add_row :: "'n bignumber \<Rightarrow> ecashaddr \<Rightarrow> 'p lib \<Rightarrow> wallet_txb \<Rightarrow> string \<Rightarrow> wallet_txb result" where
  "add_row bn ea lib b row =
     wb_addOutput ea lib b (OutAddress (the (row_field row 0))) (sats_of bn (bn_text bn (row_field row 1)))"

definition generateTxOutput ::
    "'n bignumber \<Rightarrow> ecashaddr \<Rightarrow> 'p lib \<Rightarrow> bool \<Rightarrow> 'n \<Rightarrow> 'n \<Rightarrow> 'n \<Rightarrow> string \<Rightarrow> string list option \<Rightarrow> string \<Rightarrow> int option \<Rightarrow>
     wallet_txb \<Rightarrow> wallet_txb result" where
  "generateTxOutput bn ea lib isOneToMany singleSendValue satoshisToSend totalInputUtxoValue destinationAddress
       destinationAddressAndValueArray changeAddress txFee b =
     (if isOneToMany \<and> destinationAddressAndValueArray = None \<or> changeAddress = [] \<or> txFee = None \<or> txFee = Some 0
      then Inl (Error ''Invalid tx input parameter'')
      else
        let remainder = bn_minus bn (bn_minus bn totalInputUtxoValue satoshisToSend) (bn_fee bn txFee) in
        if bn_lt bn remainder (bn_int bn 0) then Inl (Error ''Insufficient funds'') else
        bindE (if isOneToMany then foldE (add_row bn ea lib) b (the destinationAddressAndValueArray)
               else wb_addOutput ea lib b (OutAddress destinationAddress) (sats_of bn singleSendValue)) (\<lambda>b.
        if bn_gte bn remainder (bn_int bn dustSats)
        then wb_addOutput ea lib b (OutAddress changeAddress) (bn_parseInt bn remainder)
        else Inr b))"

subsection \<open>Signatures\<close>

fun sign_utxos ::
    "'p lib \<Rightarrow> (nat \<Rightarrow> nat \<Rightarrow> nat \<Rightarrow> byte) \<Rightarrow> wallet \<Rightarrow> nat \<Rightarrow> utxo list \<Rightarrow> wallet_txb \<Rightarrow> wallet_txb result option" where
  "sign_utxos lib junk wallet i [] b = Some (Inr b)"
| "sign_utxos lib junk wallet i (utxo # utxos) b =
     (case bindE (getUtxoWif (utxo_address utxo) (Some wallet)) (getECPairFromWIF lib) of
        Inl e \<Rightarrow> Some (Inl e)
      | Inr utxoECPair \<Rightarrow>
          (case wb_sign lib (junk i) b i (ecpair_signer lib utxoECPair) None (Some SIGHASH_ALL) (Some (utxo_value utxo)) None of
             None \<Rightarrow> None
           | Some (b, Inl e) \<Rightarrow> Some (Inl e)
           | Some (b, Inr _) \<Rightarrow> sign_utxos lib junk wallet (Suc i) utxos b))"

definition signUtxosByAddress ::
    "'p lib \<Rightarrow> (nat \<Rightarrow> nat \<Rightarrow> nat \<Rightarrow> byte) \<Rightarrow> utxo list \<Rightarrow> wallet \<Rightarrow> wallet_txb \<Rightarrow> wallet_txb result option" where
  "signUtxosByAddress lib junk inputUtxos wallet b = sign_utxos lib junk wallet 0 inputUtxos b"

text \<open>A transaction that is \<open>undefined\<close> has no \<open>toHex\<close>; every exception of the build is replaced.\<close>

definition signAndBuildTx ::
    "'p lib \<Rightarrow> (nat \<Rightarrow> nat \<Rightarrow> nat \<Rightarrow> byte) \<Rightarrow> utxo list \<Rightarrow> wallet_txb \<Rightarrow> wallet \<Rightarrow> string result option" where
  "signAndBuildTx lib junk inputUtxos b wallet =
     (if inputUtxos = [] \<or> wb_outs b = [] then Some (Inl (Error ''Invalid buildTx parameter'')) else
      map_option (\<lambda>r.
        bindE r (\<lambda>b.
        case bindE (wb_build lib b) (\<lambda>tx. case tx of
               None \<Rightarrow> Inl (TypeError ''undefined'')
             | Some tx \<Rightarrow> toHex (lib_varuint lib) (lib_junk lib) tx) of
          Inl _ \<Rightarrow> Inl (Error ''Transaction build failed'')
        | Inr hex \<Rightarrow> Inr hex))
        (signUtxosByAddress lib junk inputUtxos wallet b))"

subsection \<open>Sending\<close>

text \<open>An exception with its field \<open>error\<close>, which those of the server have, and the code that is added to it.\<close>

record exn =
  exn_thrown :: error
  exn_error :: "string option"
  exn_code :: "nat option"

definition plain_exn :: "error \<Rightarrow> exn" where
  "plain_exn e = \<lparr>exn_thrown = e, exn_error = None, exn_code = None\<rparr>"

definition lift_exn :: "'a result \<Rightarrow> exn + 'a" where
  "lift_exn r = (case r of Inl e \<Rightarrow> Inl (plain_exn e) | Inr x \<Rightarrow> Inr x)"

definition send_error_code :: "exn \<Rightarrow> exn" where
  "send_error_code e =
     (if exn_error e = Some ''insufficient priority (code 66)'' then e\<lparr>exn_code := Some 66\<rparr>
      else if exn_error e = Some ''txn-mempool-conflict (code 18)'' then e\<lparr>exn_code := Some 18\<rparr>
      else if exn_error e = Some ''Network Error'' then e\<lparr>exn_code := Some 1\<rparr>
      else if exn_error e = Some ''too-long-mempool-chain, too many unconfirmed ancestors [limit: 25] (code 64)''
      then e\<lparr>exn_code := Some 64\<rparr>
      else e)"

text \<open>An input of a transaction in the history of an address.\<close>

record history_input =
  hi_outputScript :: string
  hi_inputScript :: "string option"

record chronik =
  ck_broadcastTx :: "string \<Rightarrow> bool \<Rightarrow> exn + string option"
  ck_history :: "string \<Rightarrow> history_input list list result"

fun js_includes :: "string \<Rightarrow> string \<Rightarrow> bool" where
  "js_includes [] t = (t = [])"
| "js_includes (c # s) t = (take (length t) (c # s) = t \<or> js_includes s t)"

definition recipient_key :: "string \<Rightarrow> history_input \<Rightarrow> string result option" where
  "recipient_key h inp =
     (if js_includes (hi_outputScript inp) h
      then Some (case hi_inputScript inp of
          None \<Rightarrow> Inl (Error ''Cannot send an encrypted message to a wallet with no outgoing transactions'')
        | Some s \<Rightarrow> Inr (js_slice s (Some (- 66))))
      else None)"

definition getRecipientPublicKey :: "ecashaddr \<Rightarrow> bs58 \<Rightarrow> chronik \<Rightarrow> string \<Rightarrow> string option \<Rightarrow> string result" where
  "getRecipientPublicKey ea bs chronik recipientAddress optionalMockPubKeyResponse =
     (case optionalMockPubKeyResponse of
        Some k \<Rightarrow> Inr k
      | None \<Rightarrow>
          (case toHash160 ea bs recipientAddress of
             Inl _ \<Rightarrow> Inl (Error (''Error determining toHash160('' @ recipientAddress @ '' in getRecipientPublicKey())''))
           | Inr h \<Rightarrow>
               (case ck_history chronik h of
                  Inl _ \<Rightarrow> Inl (Error ''Error fetching tx history to parse for public key'')
                | Inr txs \<Rightarrow>
                    (case List.map_filter (recipient_key h) (concat txs) of
                       r # _ \<Rightarrow> r
                     | [] \<Rightarrow> Inl (Error ''Cannot send an encrypted message to a wallet with no outgoing transactions in the last 20 txs'')))))"

text \<open>The message and the flags of a payment.\<close>

record message_options =
  mo_optionalOpReturnMsg :: "js_text option"
  mo_encryptionFlag :: bool
  mo_airdropFlag :: bool
  mo_airdropTokenId :: "string option"
  mo_optionalMockPubKeyResponse :: "string option"

definition encrypted_message ::
    "ecashaddr \<Rightarrow> bs58 \<Rightarrow> chronik \<Rightarrow> (buffer \<Rightarrow> buffer \<Rightarrow> encrypt_struct result) \<Rightarrow> message_options \<Rightarrow> string \<Rightarrow> buffer option result" where
  "encrypted_message ea bs chronik ecies_encrypt mo destinationAddress =
     (if \<not> mo_encryptionFlag mo then Inr None else
      bindE (getRecipientPublicKey ea bs chronik destinationAddress (mo_optionalMockPubKeyResponse mo)) (\<lambda>recipientPubKey.
      if recipientPubKey = ''not found''
      then Inl (Error ''Cannot send an encrypted message to a wallet with no outgoing transactions'') else
      case mo_optionalOpReturnMsg mo of
        None \<Rightarrow> Inl (TypeError ''ERR_INVALID_ARG_TYPE'')
      | Some msg \<Rightarrow>
          bindE (ecies_encrypt (buffer_from_hex recipientPubKey) (utf8 msg)) (\<lambda>structuredEj.
          Inr (Some (es_epk structuredEj @ es_iv structuredEj @ es_ct structuredEj @ es_mac structuredEj)))))"

definition js_white :: "nat \<Rightarrow> bool" where
  "js_white u \<longleftrightarrow> 9 \<le> u \<and> u \<le> 13 \<or> 8192 \<le> u \<and> u \<le> 8202 \<or> u \<in> {32, 160, 5760, 8232, 8233, 8239, 8287, 12288, 65279}"

definition add_message ::
    "ecashaddr \<Rightarrow> 'p lib \<Rightarrow> message_options \<Rightarrow> buffer option \<Rightarrow> wallet_txb \<Rightarrow> wallet_txb result" where
  "add_message ea lib mo encryptedEj b =
     (if (case mo_optionalOpReturnMsg mo of None \<Rightarrow> False | Some msg \<Rightarrow> \<not> list_all js_white msg) \<or> mo_airdropFlag mo
      then
        bindE (generateOpReturnScript (lib_junk lib) (mo_optionalOpReturnMsg mo) (mo_encryptionFlag mo) (mo_airdropFlag mo)
          (mo_airdropTokenId mo) encryptedEj) (\<lambda>opReturnData.
        wb_addOutput ea lib b (OutScript opReturnData) (Some 0))
      else Inr b)"

definition broadcast :: "chronik \<Rightarrow> string \<Rightarrow> bool \<Rightarrow> exn + string" where
  "broadcast chronik rawTxHex skipSlpCheck =
     (case ck_broadcastTx chronik rawTxHex skipSlpCheck of
        Inl e \<Rightarrow> Inl e
      | Inr None \<Rightarrow> Inl (plain_exn (Error ''Empty chronik broadcast response''))
      | Inr (Some txid) \<Rightarrow> Inr (''https://explorer.e.cash/tx/'' @ txid))"

text \<open>The transaction of a payment before it is signed, with the outputs that it spends.\<close>

definition prepare_send ::
    "'n bignumber \<Rightarrow> ecashaddr \<Rightarrow> bs58 \<Rightarrow> (buffer \<Rightarrow> buffer \<Rightarrow> encrypt_struct result) \<Rightarrow> 'p lib \<Rightarrow> chronik \<Rightarrow> utxo list option \<Rightarrow> rat \<Rightarrow>
     message_options \<Rightarrow> bool \<Rightarrow> string list option \<Rightarrow> string \<Rightarrow> 'n option \<Rightarrow> (utxo list \<times> wallet_txb) result" where
  "prepare_send bn ea bs ecies_encrypt lib chronik utxos feeInSatsPerByte mo isOneToMany destinationAddressAndValueArray
       destinationAddress sendAmount =
     bindE (parseXecSendValue bn isOneToMany sendAmount destinationAddressAndValueArray) (\<lambda>value.
     case fromXecToSatoshis bn value cashDecimals of
       None \<Rightarrow> Inl (Error ''Invalid decimal places for send amount'')
     | Some satoshisToSend \<Rightarrow>
         bindE (encrypted_message ea bs chronik ecies_encrypt mo destinationAddress) (\<lambda>encryptedEj.
         bindE (add_message ea lib mo encryptedEj new_wallet_txb) (\<lambda>b.
         bindE (generateTxInput bn lib isOneToMany utxos b destinationAddressAndValueArray satoshisToSend feeInSatsPerByte)
           (\<lambda>(b, totalInputUtxoValue, inputUtxos, txFee).
         bindE (getChangeAddressFromInputUtxos ea (map utxo_address inputUtxos)) (\<lambda>changeAddress.
         bindE (generateTxOutput bn ea lib isOneToMany value satoshisToSend totalInputUtxoValue destinationAddress
           destinationAddressAndValueArray changeAddress txFee b) (\<lambda>b.
         Inr (inputUtxos, b)))))))"

definition sendXec ::
    "'n bignumber \<Rightarrow> ecashaddr \<Rightarrow> bs58 \<Rightarrow> (buffer \<Rightarrow> buffer \<Rightarrow> encrypt_struct result) \<Rightarrow> 'p lib \<Rightarrow> (nat \<Rightarrow> nat \<Rightarrow> nat \<Rightarrow> byte) \<Rightarrow>
     chronik \<Rightarrow> wallet \<Rightarrow> utxo list option \<Rightarrow> rat \<Rightarrow> message_options \<Rightarrow> bool \<Rightarrow> string list option \<Rightarrow> string \<Rightarrow> 'n option \<Rightarrow>
     (exn + string) option" where
  "sendXec bn ea bs ecies_encrypt lib junk chronik wallet utxos feeInSatsPerByte mo isOneToMany destinationAddressAndValueArray
       destinationAddress sendAmount =
     map_option (\<lambda>r. case r of Inl e \<Rightarrow> Inl (send_error_code e) | Inr url \<Rightarrow> Inr url)
       (case prepare_send bn ea bs ecies_encrypt lib chronik utxos feeInSatsPerByte mo isOneToMany
              destinationAddressAndValueArray destinationAddress sendAmount of
          Inl e \<Rightarrow> Some (Inl (plain_exn e))
        | Inr (inputUtxos, b) \<Rightarrow>
            map_option (\<lambda>r. case lift_exn r of
                Inl e \<Rightarrow> Inl e
              | Inr rawTxHex \<Rightarrow> broadcast chronik rawTxHex False)
              (signAndBuildTx lib junk inputUtxos b wallet))"

end
