(* ===== verification/Wallet_Send_Correct.thy ===== *)
theory Wallet_Send_Correct
  imports Wallet_Send
begin

text \<open>
  What a payment of the wallet does: the outputs it selects, whom it pays and how much, and that no satoshi
  is lost but the fee and a remainder below the dust limit. The lemmas stand in the context of the
  arithmetic of \<open>big_numbers\<close>.
\<close>

subsection \<open>Inputs\<close>

definition fee_sats :: "rat \<Rightarrow> nat \<Rightarrow> nat \<Rightarrow> int" where
  "fee_sats rate inputs outputs = \<lceil>js_times rate (of_nat (148 * inputs + 34 * outputs + 10))\<rceil>"

definition total_value :: "utxo list \<Rightarrow> int" where
  "total_value us = (\<Sum>u\<leftarrow>us. utxo_value u)"

definition covers :: "rat \<Rightarrow> nat \<Rightarrow> int \<Rightarrow> utxo list \<Rightarrow> bool" where
  "covers rate outputs s us \<longleftrightarrow> s + fee_sats rate (length us) outputs \<le> total_value us"

text \<open>The shortest nonempty beginning of the list that covers the amount and its own fee, or all of the list
  when none does.\<close>

fun shortest_cover :: "rat \<Rightarrow> nat \<Rightarrow> int \<Rightarrow> utxo list \<Rightarrow> utxo list \<Rightarrow> utxo list" where
  "shortest_cover rate outputs s chosen [] = chosen"
| "shortest_cover rate outputs s chosen (u # us) =
     (if covers rate outputs s (chosen @ [u]) then chosen @ [u] else shortest_cover rate outputs s (chosen @ [u]) us)"

lemma total_value_append [simp]: "total_value (us @ vs) = total_value us + total_value vs" "total_value [] = 0" "total_value (u # us) = utxo_value u + total_value us"
  by (simp_all add: total_value_def)

lemma shortest_cover_take:
  "\<exists>k. shortest_cover rate outputs s chosen us = chosen @ take k us \<and> k \<le> length us \<and> (us \<noteq> [] \<longrightarrow> 0 < k) \<and>
     (\<forall>j. 0 < j \<longrightarrow> j < k \<longrightarrow> \<not> covers rate outputs s (chosen @ take j us)) \<and>
     (k < length us \<longrightarrow> covers rate outputs s (chosen @ take k us))"
proof (induction us arbitrary: chosen)
  case Nil
  show ?case by simp
next
  case (Cons u us)
  show ?case
  proof (cases "covers rate outputs s (chosen @ [u])")
    case True
    then show ?thesis by (intro exI [of _ 1]) simp
  next
    case False
    obtain k where k: "shortest_cover rate outputs s (chosen @ [u]) us = (chosen @ [u]) @ take k us" "k \<le> length us"
      "us \<noteq> [] \<longrightarrow> 0 < k" "\<forall>j. 0 < j \<longrightarrow> j < k \<longrightarrow> \<not> covers rate outputs s ((chosen @ [u]) @ take j us)"
      "k < length us \<longrightarrow> covers rate outputs s ((chosen @ [u]) @ take k us)"
      using Cons.IH [of "chosen @ [u]"] by blast
    have "\<not> covers rate outputs s (chosen @ take j (u # us))" if "0 < j" "j < Suc k" for j
    proof (cases "j = 1")
      case True
      then show ?thesis using False by simp
    next
      case False
      then obtain i where "j = Suc i" "0 < i" using \<open>0 < j\<close> by (cases j) auto
      then show ?thesis using \<open>j < Suc k\<close> k(4) by simp
    qed
    then show ?thesis using k False by (intro exI [of _ "Suc k"]) simp
  qed
qed

definition utxo_txin :: "utxo \<Rightarrow> txin" where
  "utxo_txin u = new_txin (rev (buffer_from_hex (utxo_txid u))) (utxo_outIdx u) (Some 0xffffffff)"

context big_numbers
begin

lemma calcFee_sats: "148 * i + 34 * n + 10 \<le> 2 ^ 53 \<Longrightarrow> calcFee bn i n rate = Some (fee_sats rate i n)"
  by (simp add: calcFee_def byteCount fee_sats_def)

lemma num_fee: "num (bn_fee bn (Some f)) = Some (of_int f)"
  by (simp add: bn_fee_def num_int)

lemma num_remainder:
  assumes "num t = Some (of_int a)" "num s = Some (of_int b)"
  shows "num (bn_minus bn (bn_minus bn t s) (bn_fee bn (Some f))) = Some (of_int (a - b - f))"
  using num_minus [OF num_minus [OF assms] num_fee] by simp

lemma covered_int: "num x = Some (of_int a) \<Longrightarrow> bn_gte bn x (bn_int bn c) \<longleftrightarrow> c \<le> a"
  using num_gte [of x "of_int a" "bn_int bn c" "of_int c"] by (simp add: num_int)

lemma below_int: "num x = Some (of_int a) \<Longrightarrow> bn_lt bn x (bn_int bn c) \<longleftrightarrow> a < c"
  using num_lt [of x "of_int a" "bn_int bn c" "of_int c"] by (simp add: num_int)

lemma select_inputs_result:
  assumes "select_inputs bn lib n sats rate b t chosen fee us = Inr (b', t', chosen', fee')" "wb_ok b"
    and "num sats = Some (of_int s)" "num t = Some (of_int (total_value chosen))"
    and "148 * (length chosen + length us) + 34 * n + 10 \<le> 2 ^ 53" "chosen \<noteq> [] \<Longrightarrow> fee = Some (fee_sats rate (length chosen) n)"
  shows "chosen' = shortest_cover rate n s chosen us" "wb_ok b'" "num t' = Some (of_int (total_value chosen'))"
    "chosen' \<noteq> [] \<Longrightarrow> fee' = Some (fee_sats rate (length chosen') n)" "wb_outs b' = wb_outs b"
    "wb_ins b' = wb_ins b @ map utxo_txin (drop (length chosen) chosen')"
proof -
  have "chosen' = shortest_cover rate n s chosen us \<and> wb_ok b' \<and> num t' = Some (of_int (total_value chosen')) \<and>
    (chosen' \<noteq> [] \<longrightarrow> fee' = Some (fee_sats rate (length chosen') n)) \<and> wb_outs b' = wb_outs b \<and>
    wb_ins b' = wb_ins b @ map utxo_txin (drop (length chosen) chosen')"
    using assms
  proof (induction us arbitrary: b t chosen fee)
    case Nil
    then show ?case by simp
  next
    case (Cons u us)
    let ?t = "bn_plus bn t (bn_int bn (utxo_value u))" and ?c = "chosen @ [u]"
    let ?f = "fee_sats rate (length ?c) n"
    have f: "calcFee bn (length ?c) n rate = Some ?f" using Cons.prems(5) by (intro calcFee_sats) simp
    obtain b1 where b1: "wb_addInput lib b (utxo_txid u) (utxo_outIdx u) None None = Inr b1"
      using Cons.prems(1) by (auto simp: Let_def)
    note i = wb_addInput_cases [OF b1 Cons.prems(2), folded utxo_txin_def]
    have t: "num ?t = Some (of_int (total_value ?c))" using num_plus [OF Cons.prems(4) num_int] by simp
    have g: "bn_gte bn (bn_minus bn (bn_minus bn ?t sats) (bn_fee bn (Some ?f))) (bn_int bn 0) \<longleftrightarrow> covers rate n s ?c"
      unfolding covered_int [OF num_remainder [OF t Cons.prems(3)]] covers_def by linarith
    show ?case
    proof (cases "covers rate n s ?c")
      case True
      then have "b' = b1" "t' = ?t" "chosen' = ?c" "fee' = Some ?f"
        using Cons.prems(1) b1 f g by (auto simp: Let_def)
      then show ?thesis using True i t by simp
    next
      case False
      then have "select_inputs bn lib n sats rate b1 ?t ?c (Some ?f) us = Inr (b', t', chosen', fee')"
        using Cons.prems(1) b1 f g by (simp add: Let_def)
      from Cons.IH [OF this i(1) Cons.prems(3) t] Cons.prems(5)
      have IH: "chosen' = shortest_cover rate n s ?c us" "wb_ok b'" "num t' = Some (of_int (total_value chosen'))"
          "chosen' \<noteq> [] \<longrightarrow> fee' = Some (fee_sats rate (length chosen') n)" "wb_outs b' = wb_outs b1"
          "wb_ins b' = wb_ins b1 @ map utxo_txin (drop (length ?c) chosen')" by simp_all
      obtain k where "chosen' = ?c @ take k us" using shortest_cover_take [of rate n s ?c us] IH(1) by auto
      then have "map utxo_txin (drop (length chosen) chosen') = utxo_txin u # map utxo_txin (drop (length ?c) chosen')" by simp
      then show ?thesis using IH i False by simp
    qed
  qed
  then show "chosen' = shortest_cover rate n s chosen us" "wb_ok b'" "num t' = Some (of_int (total_value chosen'))"
    "chosen' \<noteq> [] \<Longrightarrow> fee' = Some (fee_sats rate (length chosen') n)" "wb_outs b' = wb_outs b"
    "wb_ins b' = wb_ins b @ map utxo_txin (drop (length chosen) chosen')" by simp_all
qed

end

subsection \<open>Outputs\<close>

definition address_known :: "ecashaddr \<Rightarrow> string \<Rightarrow> bool" where
  "address_known ea a = (case ea_decode ea a of
     Inr d \<Rightarrow> da_type d \<in> set address_types \<and> length (da_hash d) = 20
   | Inl _ \<Rightarrow> False)"

definition script_of :: "ecashaddr \<Rightarrow> string \<Rightarrow> buffer" where
  "script_of ea a = (case ea_decode ea a of Inr d \<Rightarrow> address_script (da_type d) (da_hash d) | Inl _ \<Rightarrow> [])"

definition recipients :: "'n bignumber \<Rightarrow> bool \<Rightarrow> 'n \<Rightarrow> string \<Rightarrow> string list option \<Rightarrow> (string \<times> 'n) list" where
  "recipients bn isOneToMany value destinationAddress rows =
     (if isOneToMany then map (\<lambda>row. (the (row_field row 0), bn_text bn (row_field row 1))) (the rows)
      else [(destinationAddress, value)])"

definition paid_sum :: "txout list \<Rightarrow> int" where
  "paid_sum outs = (\<Sum>out\<leftarrow>outs. the (out_value out))"

lemma paid_sum_simps [simp]:
  "paid_sum [] = 0" "paid_sum (paid a v # outs) = v + paid_sum outs" "paid_sum (outs @ outs') = paid_sum outs + paid_sum outs'"
  by (simp_all add: paid_sum_def paid_def)

text \<open>An output that pays an amount, which \<open>num\<close> reads as a number, to an address.\<close>

definition pays :: "('n \<Rightarrow> rat option) \<Rightarrow> ecashaddr \<Rightarrow> string \<times> 'n \<Rightarrow> txout \<Rightarrow> bool" where
  "pays num ea r out \<longleftrightarrow> (\<exists>v \<ge> 0. num (snd r) = Some (of_int v / 100) \<and> out = paid (script_of ea (fst r)) v)"

text \<open>Addresses that can be paid, and amounts that are written without an exponent.\<close>

definition known_recipients :: "('n \<Rightarrow> rat option) \<Rightarrow> ecashaddr \<Rightarrow> (string \<times> 'n) list \<Rightarrow> bool" where
  "known_recipients num ea = list_all (\<lambda>(a, x). address_known ea a \<and> pred_option (\<lambda>a. \<bar>a\<bar> < 10 ^ 19) (num x))"

lemma foldE_map: "foldE g b (map h xs) = foldE (\<lambda>b x. g b (h x)) b xs"
proof (induction xs arbitrary: b)
  case (Cons x xs)
  then show ?case by (cases "g b (h x)") simp_all
qed simp

lemma known_output:
  assumes "address_codecs (lib_codecs lib)" "address_known ea a" "wb_addOutput ea lib b (OutAddress a) amount = Inr b'" "wb_ok b"
  obtains v where "amount = Some v" "0 \<le> v" "wb_ok b'" "wb_ins b' = wb_ins b" "wb_outs b' = wb_outs b @ [paid (script_of ea a) v]"
proof -
  obtain d where d: "ea_decode ea a = Inr d" "da_type d \<in> set address_types" "length (da_hash d) = 20"
    using assms(2) by (auto simp: address_known_def split: sum.splits)
  from wb_addOutput_address [OF assms(1) d assms(3,4)]
  obtain v where "amount = Some v" "wb_outs b' = wb_outs b @ [paid (script_of ea a) v]" by (auto simp: script_of_def d(1))
  moreover from assms(3,4) obtain w where "amount = Some w" "types_Satoshi w" "wb_ok b'" "wb_ins b' = wb_ins b"
    by (rule wb_addOutput_cases)
  ultimately show thesis by (intro that) (simp_all add: types_Satoshi_def types_UInt53_def)
qed

lemma double_round_nonneg: "0 \<le> x \<Longrightarrow> 0 \<le> double_round x"
proof -
  assume x: "0 \<le> x"
  have "0 \<le> round_even y" if "0 \<le> y" for y
    using that by (simp add: round_even_def Let_def)
  moreover have "0 \<le> \<bar>x\<bar> / 2 powi e" for e by simp
  ultimately show ?thesis using x by (simp add: double_round_def Let_def)
qed

lemma fee_sats_nonneg: "0 \<le> rate \<Longrightarrow> 0 \<le> fee_sats rate i n"
proof -
  assume "0 \<le> rate"
  then have "0 \<le> js_times rate (of_nat (148 * i + 34 * n + 10))"
    unfolding js_times_def by (intro double_round_nonneg mult_nonneg_nonneg of_nat_0_le_iff)
  then show ?thesis unfolding fee_sats_def by linarith
qed

context big_numbers
begin

lemma sats_of_exact:
  assumes "sats_of bn x = Some v" "pred_option (\<lambda>a. \<bar>a\<bar> < 10 ^ 19) (num x)"
  shows "num x = Some (of_int v / 100)"
proof -
  obtain s where s: "fromXecToSatoshis bn x 2 = Some s" "bn_parseInt bn s = Some v"
    using assms(1) by (auto simp: sats_of_def split: option.splits)
  have "s = bn_times bn x (bn_pow10 bn 2)" using s(1) by (auto simp: fromXecToSatoshis_def split: if_splits)
  moreover obtain c where "num s = Some c" using finite_parseInt [OF s(2)] by blast
  ultimately have "num x \<noteq> None" using finite_times [of x "bn_pow10 bn 2" c] by blast
  then obtain a where a: "num x = Some a" by blast
  obtain i where i: "num s = Some (of_int i)" "of_int i = a * 10 ^ 2" using s(1) a by (rule satoshis) simp
  have "\<bar>of_int i :: rat\<bar> < 10 ^ 21" using assms(2) a unfolding i(2) by (simp add: abs_mult)
  then have "(of_int \<bar>i\<bar> :: rat) < of_int (10 ^ 21)" by simp
  then have "\<bar>i\<bar> < 10 ^ 21" by (simp only: of_int_less_iff)
  from num_parseInt [OF i(1) this] have "i = v" using s(2) by simp
  then show ?thesis using a i(2) by simp
qed

lemma payment:
  assumes "address_codecs (lib_codecs lib)" "address_known ea a" "pred_option (\<lambda>a. \<bar>a\<bar> < 10 ^ 19) (num x)" "wb_ok b"
    and "wb_addOutput ea lib b (OutAddress a) (sats_of bn x) = Inr b'"
  obtains out where "pays num ea (a, x) out" "wb_ok b'" "wb_ins b' = wb_ins b" "wb_outs b' = wb_outs b @ [out]"
  using assms(1,2,5,4)
proof (rule known_output)
  fix v assume v: "sats_of bn x = Some v" "0 \<le> v" "wb_ok b'" "wb_ins b' = wb_ins b" "wb_outs b' = wb_outs b @ [paid (script_of ea a) v]"
  show thesis by (rule that [OF _ v(3-5)]) (use v(2) sats_of_exact [OF v(1) assms(3)] in \<open>auto simp: pays_def\<close>)
qed

lemma payments:
  assumes "address_codecs (lib_codecs lib)"
    and "foldE (\<lambda>b (a, x). wb_addOutput ea lib b (OutAddress a) (sats_of bn x)) b rs = Inr b'" "wb_ok b"
    and "list_all (\<lambda>(a, x). address_known ea a \<and> pred_option (\<lambda>a. \<bar>a\<bar> < 10 ^ 19) (num x)) rs"
  shows "wb_ok b' \<and> wb_ins b' = wb_ins b \<and> (\<exists>outs. wb_outs b' = wb_outs b @ outs \<and> list_all2 (pays num ea) rs outs)"
  using assms(2-4)
proof (induction rs arbitrary: b)
  case Nil
  then show ?case by simp
next
  case (Cons r rs)
  obtain a x where r: "r = (a, x)" by (cases r)
  obtain b1 where b1: "wb_addOutput ea lib b (OutAddress a) (sats_of bn x) = Inr b1"
    "foldE (\<lambda>b (a, x). wb_addOutput ea lib b (OutAddress a) (sats_of bn x)) b1 rs = Inr b'"
    using Cons.prems(1) by (auto simp: r)
  have "address_known ea a" "pred_option (\<lambda>a. \<bar>a\<bar> < 10 ^ 19) (num x)" using Cons.prems(3) by (simp_all add: r)
  from payment [OF assms(1) this Cons.prems(2) b1(1)] obtain out where
    out: "pays num ea (a, x) out" "wb_ok b1" "wb_ins b1 = wb_ins b" "wb_outs b1 = wb_outs b @ [out]" by blast
  moreover obtain outs where "wb_ok b'" "wb_ins b' = wb_ins b1" "wb_outs b' = wb_outs b1 @ outs" "list_all2 (pays num ea) rs outs"
    using Cons.IH [OF b1(2) out(2)] Cons.prems(3) by auto
  ultimately show ?case by (intro conjI exI [of _ "out # outs"]) (simp_all add: r)
qed

lemma paid_total:
  assumes "list_all2 (pays num ea) rs outs" "num z = Some a"
  shows "num (foldl (\<lambda>t r. bn_plus bn t (snd r)) z rs) = Some (a + of_int (paid_sum outs) / 100) \<and> 0 \<le> paid_sum outs"
  using assms
proof (induction arbitrary: z a rule: list_all2_induct)
  case Nil
  then show ?case by simp
next
  case (Cons r rs out outs)
  from Cons(1) obtain v where v: "0 \<le> v" "num (snd r) = Some (of_int v / 100)" "out = paid (script_of ea (fst r)) v" by (auto simp: pays_def)
  from Cons.IH [OF num_plus [OF Cons.prems v(2)]] v(1,3) show ?case by (simp add: add_divide_distrib add.assoc)
qed

lemma dust_xec: "num (bn_text bn (Some (bn_toString bn (fromSatoshisToXec bn (bn_int bn 550) 2)))) = Some (11 / 2)"
proof -
  have "num (fromSatoshisToXec bn (bn_int bn 550) 2) = Some (of_int 550 * 10 powi - 2)"
    unfolding fromSatoshisToXec_def by (intro num_times num_int) (simp add: num_pow10)
  also have "of_int 550 * 10 powi - 2 = (11 / 2 :: rat)" by (simp add: power_int_def power2_eq_square)
  finally show ?thesis by (rule num_toString)
qed

lemma parse_total:
  assumes "parseXecSendValue bn isOneToMany singleSendValue rows = Inr value"
    and "list_all2 (pays num ea) (recipients bn isOneToMany (the singleSendValue) dest rows) outs"
  shows "num value = Some (of_int (paid_sum outs) / 100)" "550 \<le> paid_sum outs" "\<not> isOneToMany \<Longrightarrow> singleSendValue = Some value"
proof -
  show v: "num value = Some (of_int (paid_sum outs) / 100)"
  proof (cases isOneToMany)
    case True
    then have "value = foldl (\<lambda>t r. bn_plus bn t (snd r)) (bn_int bn 0) (recipients bn isOneToMany (the singleSendValue) dest rows)"
      using assms(1) by (auto simp: parseXecSendValue_def recipients_def foldl_map split: option.splits if_splits)
    then show ?thesis using paid_total [OF assms(2) num_int, of 0] by simp
  next
    case False
    then have "singleSendValue = Some value" using assms(1) by (auto simp: parseXecSendValue_def split: option.splits if_splits)
    with False assms(2) show ?thesis by (auto simp: recipients_def list_all2_Cons1 pays_def)
  qed
  have "\<not> bn_lt bn value (bn_text bn (Some (bn_toString bn (fromSatoshisToXec bn (bn_int bn 550) 2))))"
    using assms(1) by (auto simp: parseXecSendValue_def split: if_splits)
  then have "11 / 2 \<le> (of_int (paid_sum outs) / 100 :: rat)" using num_lt [OF v dust_xec] by simp
  then show "550 \<le> paid_sum outs" by linarith
  show "\<not> isOneToMany \<Longrightarrow> singleSendValue = Some value"
    using assms(1) by (auto simp: parseXecSendValue_def split: option.splits if_splits)
qed

lemma outputs_result:
  assumes "address_codecs (lib_codecs lib)"
    and "generateTxOutput bn ea lib isOneToMany value sats t dest rows change (Some f) b = Inr b'" "wb_ok b"
    and "known_recipients num ea (recipients bn isOneToMany value dest rows)" "address_known ea change"
    and "num t = Some (of_int tv)" "num sats = Some (of_int s)" "tv < 10 ^ 21" "0 \<le> s" "0 \<le> f"
  shows "\<exists>outs. list_all2 (pays num ea) (recipients bn isOneToMany value dest rows) outs \<and> wb_ok b' \<and> wb_ins b' = wb_ins b \<and>
    0 \<le> tv - s - f \<and>
    wb_outs b' = wb_outs b @ outs @ (if 550 \<le> tv - s - f then [paid (script_of ea change) (tv - s - f)] else [])"
proof -
  let ?rem = "bn_minus bn (bn_minus bn t sats) (bn_fee bn (Some f))" and ?rs = "recipients bn isOneToMany value dest rows"
  define r where "r = tv - s - f"
  have r: "num ?rem = Some (of_int r)" unfolding r_def by (rule num_remainder [OF assms(6,7)])
  have r0: "0 \<le> r" using assms(2) below_int [OF r, of 0] by (auto simp: generateTxOutput_def Let_def split: if_splits)
  have "\<bar>r\<bar> < 10 ^ 21" using r0 assms(8-10) by (simp add: r_def)
  then have p: "bn_parseInt bn ?rem = Some r" by (rule num_parseInt [OF r])
  have row: "add_row bn ea lib = (\<lambda>b row. (\<lambda>b (a, x). wb_addOutput ea lib b (OutAddress a) (sats_of bn x)) b
      (the (row_field row 0), bn_text bn (row_field row 1)))" by (simp add: add_row_def fun_eq_iff)
  obtain b1 where b1: "foldE (\<lambda>b (a, x). wb_addOutput ea lib b (OutAddress a) (sats_of bn x)) b ?rs = Inr b1"
    and b': "(if 550 \<le> r then wb_addOutput ea lib b1 (OutAddress change) (Some r) else Inr b1) = Inr b'"
    using assms(2) covered_int [OF r, of 550] p
    by (auto simp: generateTxOutput_def Let_def recipients_def row foldE_map split: if_splits)
  from payments [OF assms(1) b1 assms(3) assms(4) [unfolded known_recipients_def]] obtain outs where
    o: "wb_ok b1" "wb_ins b1 = wb_ins b" "wb_outs b1 = wb_outs b @ outs" "list_all2 (pays num ea) ?rs outs" by blast
  show ?thesis
  proof (cases "550 \<le> r")
    case True
    with b' have "wb_addOutput ea lib b1 (OutAddress change) (Some r) = Inr b'" by simp
    from known_output [OF assms(1,5) this o(1)] obtain v where
      "Some r = Some v" "wb_ok b'" "wb_ins b' = wb_ins b1" "wb_outs b' = wb_outs b1 @ [paid (script_of ea change) v]" by blast
    then show ?thesis using o r0 True unfolding r_def by (intro exI [of _ outs]) simp
  next
    case False
    then show ?thesis using o r0 b' unfolding r_def by (intro exI [of _ outs]) simp
  qed
qed

lemma outputs_fold:
  assumes "generateTxOutput bn ea lib isOneToMany value sats t dest rows change fee b = Inr b'"
  shows "\<exists>b1. foldE (\<lambda>b (a, x). wb_addOutput ea lib b (OutAddress a) (sats_of bn x)) b (recipients bn isOneToMany value dest rows) = Inr b1"
    and "\<exists>f. fee = Some f"
proof -
  have row: "add_row bn ea lib = (\<lambda>b row. (\<lambda>b (a, x). wb_addOutput ea lib b (OutAddress a) (sats_of bn x)) b
      (the (row_field row 0), bn_text bn (row_field row 1)))" by (simp add: add_row_def fun_eq_iff)
  show "\<exists>b1. foldE (\<lambda>b (a, x). wb_addOutput ea lib b (OutAddress a) (sats_of bn x)) b (recipients bn isOneToMany value dest rows) = Inr b1"
    using assms by (auto simp: generateTxOutput_def Let_def recipients_def row foldE_map split: if_splits)
  show "\<exists>f. fee = Some f"
    using assms by (cases fee) (auto simp: generateTxOutput_def split: if_splits)
qed

end

lemma select_inputs_ok:
  "select_inputs bn lib n sats rate b t chosen fee us = Inr (b', r) \<Longrightarrow> wb_ok b \<Longrightarrow> wb_ok b'"
proof (induction us arbitrary: b t chosen fee)
  case (Cons u us)
  obtain b1 where b1: "wb_addInput lib b (utxo_txid u) (utxo_outIdx u) None None = Inr b1"
    using Cons.prems(1) by (auto simp: Let_def)
  with Cons.prems(1) Cons.IH wb_addInput_cases(1) [OF b1 Cons.prems(2)] show ?case by (auto simp: Let_def split: if_splits)
qed simp

lemma message_outputs:
  assumes "add_message ea lib mo encryptedEj b = Inr b'" "wb_ok b"
  shows "wb_ok b' \<and> wb_ins b' = wb_ins b \<and> (\<exists>scripts. length scripts \<le> 1 \<and> wb_outs b' = wb_outs b @ map (\<lambda>s. paid s 0) scripts)"
proof (cases "b' = b")
  case True
  then show ?thesis using assms(2) by (auto intro!: exI [of _ "[]"])
next
  case False
  then obtain s where s: "wb_addOutput ea lib b (OutScript s) (Some 0) = Inr b'"
    using assms(1) by (auto simp: add_message_def split: if_splits)
  from s assms(2) have "wb_ok b' \<and> wb_ins b' = wb_ins b" by (rule wb_addOutput_cases) simp
  then show ?thesis using wb_addOutput_script [OF s] by (auto intro!: exI [of _ "[s]"])
qed

lemma sign_utxos_frame:
  assumes "sign_utxos lib junk wallet i us b = Some (Inr b')" "wb_ok b"
  shows "wb_ok b' \<and> wb_ins b' = wb_ins b \<and> wb_outs b' = wb_outs b"
  using assms
proof (induction us arbitrary: i b)
  case (Cons u us)
  obtain kp b1 where b1: "wb_sign lib (junk i) b i (ecpair_signer lib kp) None (Some SIGHASH_ALL) (Some (utxo_value u)) None = Some (b1, Inr ())"
    "sign_utxos lib junk wallet (Suc i) us b1 = Some (Inr b')"
    using Cons.prems(1) by (auto split: sum.splits option.splits prod.splits)
  from Cons.IH [OF b1(2)] wb_sign_cases [OF b1(1) Cons.prems(2)] show ?case by simp
qed simp

lemma signAndBuildTx_frame:
  assumes "signAndBuildTx lib junk us b wallet = Some (Inr hex)" "wb_ok b"
  obtains tx where "toHex (lib_varuint lib) (lib_junk lib) tx = Inr hex" "tx_outs tx = wb_outs b"
    "map (\<lambda>i. (in_hash i, in_index i)) (tx_ins tx) = map (\<lambda>i. (in_hash i, in_index i)) (wb_ins b)"
proof -
  let ?hex = "\<lambda>tx. case tx of None \<Rightarrow> Inl (TypeError ''undefined'') | Some tx \<Rightarrow> toHex (lib_varuint lib) (lib_junk lib) tx"
  obtain b1 where b1: "sign_utxos lib junk wallet 0 us b = Some (Inr b1)"
    "(case bindE (wb_build lib b1) ?hex of Inl _ \<Rightarrow> Inl (Error ''Transaction build failed'') | Inr hex \<Rightarrow> Inr hex) = Inr hex"
    using assms(1) by (auto simp: signAndBuildTx_def signUtxosByAddress_def split: if_splits)
  from b1(2) have "bindE (wb_build lib b1) ?hex = Inr hex" by (cases "bindE (wb_build lib b1) ?hex") simp_all
  then obtain tx where b2: "wb_build lib b1 = Inr (Some tx)" "toHex (lib_varuint lib) (lib_junk lib) tx = Inr hex"
    by (auto split: option.splits)
  from sign_utxos_frame [OF b1(1) assms(2)] wb_build_cases [OF b2(1)] b2(2) show thesis by (intro that [of tx]) simp_all
qed

subsection \<open>A payment\<close>

text \<open>The transaction of a payment of the outputs \<open>outs\<close> from \<open>utxos\<close>.\<close>

definition payment_of :: "ecashaddr \<Rightarrow> rat \<Rightarrow> utxo list \<Rightarrow> txout list \<Rightarrow> buffer list \<Rightarrow> txin list \<Rightarrow> txout list \<Rightarrow> bool" where
  "payment_of ea rate utxos outs messages ins all_outs \<longleftrightarrow>
     (let n = length outs + 1;
          chosen = shortest_cover rate n (paid_sum outs) [] utxos;
          fee = fee_sats rate (length chosen) n;
          change = total_value chosen - paid_sum outs - fee in
      map (\<lambda>i. (in_hash i, in_index i)) ins = map (\<lambda>u. (rev (buffer_from_hex (utxo_txid u)), utxo_outIdx u)) chosen \<and>
      all_outs = map (\<lambda>s. paid s 0) messages @ outs @
        (if 550 \<le> change then [paid (script_of ea (utxo_address (hd utxos))) change] else []) \<and>
      0 \<le> change \<and> total_value chosen = paid_sum all_outs + fee + (if 550 \<le> change then 0 else change))"

lemma payment_frame:
  "payment_of ea rate utxos outs messages (tx_ins tx) (tx_outs tx) \<longleftrightarrow> payment_of ea rate utxos outs messages (wb_ins b) (wb_outs b)"
  if "tx_outs tx = wb_outs b" "map (\<lambda>i. (in_hash i, in_index i)) (tx_ins tx) = map (\<lambda>i. (in_hash i, in_index i)) (wb_ins b)"
  using that by (simp add: payment_of_def)

lemma paid_sum_messages [simp]: "paid_sum (map (\<lambda>s. paid s 0) messages) = 0"
  by (induction messages) simp_all

lemma total_value_take: "list_all (\<lambda>u. P u \<and> 0 \<le> utxo_value u) us \<Longrightarrow> total_value (take k us) \<le> total_value us"
proof -
  assume "list_all (\<lambda>u. P u \<and> 0 \<le> utxo_value u) us"
  then have "0 \<le> total_value (drop k us)" by (auto simp: total_value_def list_all_iff intro!: sum_list_nonneg dest!: in_set_dropD)
  moreover have "total_value us = total_value (take k us) + total_value (drop k us)"
    using total_value_append(1) [of "take k us" "drop k us"] by simp
  ultimately show ?thesis by simp
qed

context big_numbers
begin

lemma prepare_send_result:
  assumes "address_codecs (lib_codecs lib)"
    and "prepare_send bn ea bs ecies_encrypt lib chronik (Some utxos) rate mo isOneToMany rows dest amount = Inr (chosen, b)"
    and "known_recipients num ea (recipients bn isOneToMany (the amount) dest rows)"
    and "list_all (\<lambda>u. address_known ea (utxo_address u) \<and> 0 \<le> utxo_value u) utxos" "total_value utxos < 10 ^ 21"
    and "148 * length utxos + 34 * (length (recipients bn isOneToMany (the amount) dest rows) + 1) + 10 \<le> 2 ^ 53" "0 \<le> rate"
  shows "\<exists>outs messages. list_all2 (pays num ea) (recipients bn isOneToMany (the amount) dest rows) outs \<and> 550 \<le> paid_sum outs \<and>
    length messages \<le> 1 \<and> wb_ok b \<and> payment_of ea rate utxos outs messages (wb_ins b) (wb_outs b)"
proof -
  obtain sendValue sats ej b0 b1 t fee change where
    p: "parseXecSendValue bn isOneToMany amount rows = Inr sendValue" and f: "fromXecToSatoshis bn sendValue 2 = Some sats" and
    m: "add_message ea lib mo ej new_wallet_txb = Inr b0" and
    i: "generateTxInput bn lib isOneToMany (Some utxos) b0 rows sats rate = Inr (b1, t, chosen, fee)" and
    c: "getChangeAddressFromInputUtxos ea (map utxo_address chosen) = Inr change" and
    o: "generateTxOutput bn ea lib isOneToMany sendValue sats t dest rows change fee b1 = Inr b"
    using assms(2) by (auto simp: prepare_send_def split: option.splits prod.splits)
  let ?rs = "recipients bn isOneToMany (the amount) dest rows"
  have rs: "recipients bn isOneToMany sendValue dest rows = ?rs"
    using p by (auto simp: recipients_def parseXecSendValue_def split: option.splits if_splits)
  obtain messages where m0: "wb_ok b0" "wb_ins b0 = []" "length messages \<le> 1" "wb_outs b0 = map (\<lambda>s. paid s 0) messages"
    using message_outputs [OF m wb_ok_new(1)] by (auto simp: wb_ok_new)
  have i1: "select_inputs bn lib (length ?rs + 1) sats rate b0 (bn_int bn 0) [] (Some 0) utxos = Inr (b1, t, chosen, fee)"
    using i by (auto simp: generateTxInput_def recipients_def Let_def numeral_2_eq_2 split: if_splits)
  note ok1 = select_inputs_ok [OF i1 m0(1)]
  obtain outs0 where "list_all2 (pays num ea) ?rs outs0"
    using outputs_fold(1) [OF o] payments [OF assms(1) _ ok1 assms(3) [unfolded known_recipients_def]] by (auto simp: rs)
  note pt = parse_total [OF p this]
  obtain j where j: "num sats = Some (of_int j)" "(of_int j :: rat) = of_int (paid_sum outs0) / 100 * 10 ^ 2"
    using f pt(1) by (rule satoshis) simp
  from j(2) have "(of_int j :: rat) = of_int (paid_sum outs0)" by simp
  then have j0: "j = paid_sum outs0" by (simp only: of_int_eq_iff)
  have "148 * (length [] + length utxos) + 34 * (length ?rs + 1) + 10 \<le> 2 ^ 53" using assms(6) by simp
  note sel = select_inputs_result [OF i1 m0(1) j(1) _ this, simplified, OF num_int [of 0, simplified]]
  have "chosen \<noteq> []" using c by (auto simp: getChangeAddressFromInputUtxos_def)
  moreover from sel(1) obtain k where k: "chosen = take k utxos"
    using shortest_cover_take [of rate _ j "[]" utxos] by auto
  ultimately have hd: "hd chosen = hd utxos" "hd utxos \<in> set utxos" by (auto simp: hd_conv_nth)
  then have change: "change = utxo_address (hd utxos)" "address_known ea change"
    using c assms(4) by (auto simp: getChangeAddressFromInputUtxos_def list_all_iff split: list.splits if_splits)
  define fs where "fs = fee_sats rate (length chosen) (length ?rs + 1)"
  have fee: "fee = Some fs" using sel(4) \<open>chosen \<noteq> []\<close> by (simp add: fs_def)
  have "total_value chosen < 10 ^ 21" using total_value_take [OF assms(4), of k] assms(5) by (simp add: k)
  with outputs_result [OF assms(1) o [unfolded fee] ok1 _ change(2) sel(3) j(1)] pt(2) assms(3) fee_sats_nonneg [OF assms(7)]
  obtain outs where outs: "list_all2 (pays num ea) ?rs outs" "wb_ok b" "wb_ins b = wb_ins b1" "0 \<le> total_value chosen - j - fs"
      "wb_outs b = wb_outs b1 @ outs @ (if 550 \<le> total_value chosen - j - fs then [paid (script_of ea change) (total_value chosen - j - fs)] else [])"
    by (auto simp: rs j0 fs_def)
  have "paid_sum outs = j" using parse_total(1) [OF p outs(1)] pt(1) by (simp add: j0)
  moreover have "length outs = length ?rs" using outs(1) by (simp add: list_all2_lengthD)
  ultimately have "payment_of ea rate utxos outs messages (wb_ins b) (wb_outs b)"
    using outs(3-5) sel(1,5,6) m0(2,4) by (simp add: payment_of_def Let_def change(1) fs_def utxo_txin_def new_txin_def o_def)
  moreover have "550 \<le> paid_sum outs" using pt(2) \<open>paid_sum outs = j\<close> by (simp add: j0)
  ultimately show ?thesis using outs(1,2) m0(3) by blast
qed

end

lemma sendXec_success:
  assumes "sendXec bn ea bs ecies_encrypt lib junk chronik wallet utxos rate mo isOneToMany rows dest amount = Some (Inr url)"
  obtains chosen b hex where
    "prepare_send bn ea bs ecies_encrypt lib chronik utxos rate mo isOneToMany rows dest amount = Inr (chosen, b)"
    "signAndBuildTx lib junk chosen b wallet = Some (Inr hex)" "broadcast chronik hex False = Inr url"
proof (cases "prepare_send bn ea bs ecies_encrypt lib chronik utxos rate mo isOneToMany rows dest amount")
  case (Inl e)
  then show ?thesis using assms by (simp add: sendXec_def)
next
  case (Inr cb)
  obtain chosen b where cb: "cb = (chosen, b)" by (cases cb)
  obtain r where r: "signAndBuildTx lib junk chosen b wallet = Some r" using assms Inr by (auto simp: sendXec_def cb)
  then show ?thesis
  proof (cases r)
    case (Inl e)
    then show ?thesis using assms r \<open>_ = Inr cb\<close> by (simp add: sendXec_def lift_exn_def cb)
  next
    case (Inr hex)
    then show ?thesis
      using assms r \<open>_ = Inr cb\<close> that [of chosen b hex]
      by (cases "broadcast chronik hex False") (simp_all add: sendXec_def lift_exn_def cb)
  qed
qed

end
