(* ===== verification/Wallet_Payment.thy ===== *)
theory Wallet_Payment
  imports Wallet_Send_Correct
begin

text \<open>
  The theorem on the payments of the wallet, after a payment that is carried through on the stand-in library,
  signature included: one output of 10000 satoshis is spent, 10 units are sent, and the rest comes back as
  change. \<open>a\<close> is the address of the wallet.
\<close>

definition pay_utxo :: "string \<Rightarrow> utxo" where
  "pay_utxo a = \<lparr>utxo_txid = buffer_hex (replicate 32 7), utxo_outIdx = 0, utxo_value = 10000, utxo_address = a\<rparr>"

definition pay_wallet :: "string \<Rightarrow> wallet" where
  "pay_wallet a =
     (let acc = \<lparr>acc_cashAddress = a, acc_fundingWif = wif_encode plain_wif 0x80 (be_bytes 32 1) True, acc_hash160 = []\<rparr> in
      \<lparr>wal_Path245 = acc, wal_Path145 = acc, wal_Path1899 = acc\<rparr>)"

definition pay_chronik :: chronik where
  "pay_chronik = \<lparr>ck_broadcastTx = (\<lambda>_ _. Inr (Some ''00'')), ck_history = (\<lambda>_. Inr [])\<rparr>"

definition pay_message :: message_options where
  "pay_message = \<lparr>mo_optionalOpReturnMsg = None, mo_encryptionFlag = False, mo_airdropFlag = False, mo_airdropTokenId = None,
     mo_optionalMockPubKeyResponse = None\<rparr>"

definition pay_script :: buffer where
  "pay_script = address_script ''P2PKH'' (replicate 20 9)"

definition pay_tx :: "txout list \<Rightarrow> transaction" where
  "pay_tx outs = \<lparr>tx_version = 2, tx_locktime = 0, tx_ins = [new_txin (replicate 32 7) 0 (Some 0xffffffff)], tx_outs = outs\<rparr>"

definition pay_wb :: "txb_input \<Rightarrow> txout list \<Rightarrow> wallet_txb" where
  "pay_wb inp outs = \<lparr>wb_transaction =
     \<lparr>txb_prevTxMap = [outpoint_key (replicate 32 7) 0 \<mapsto> 0], txb_network = toBitcoinJS, txb_maximumFeeRate = 2500,
      txb_inputs = [inp], txb_bitcoinCash = True, txb_tx = pay_tx outs\<rparr>, wb_tx = None, wb_p2shInput = False\<rparr>"

lemma pay_addInput: "wb_addInput lib7 new_wallet_txb (buffer_hex (replicate 32 7)) 0 None None = Inr (pay_wb empty_input [])"
proof -
  have "isCoinbaseHash (replicate 32 7) = Inr False" by code_simp
  moreover have "derive_input lib7 \<lparr>opt_sequence = Some 0xffffffff, opt_script = None, opt_witness = [],
      opt_prevOutScript = None, opt_value = None\<rparr> = Inr empty_input" by code_simp
  ultimately show ?thesis
    by (simp add: wb_addInput_def txb_addInput_def canModifyInputs_def every_signature_def addInputUnsafe_def
        buffer_from_hex_hex addInput_def assertE_def types_UInt32_def array_set_def new_wallet_txb_def new_TransactionBuilder_def
        new_Transaction_def pay_wb_def pay_tx_def new_txin_def Let_def)
qed

lemma pay_addOutput:
  assumes "ea_decode ea a = Inr d" "da_type d = ''P2PKH''" "da_hash d = replicate 20 9" "types_Satoshi v"
  shows "wb_addOutput ea lib7 (pay_wb empty_input outs) (OutAddress a) (Some v) = Inr (pay_wb empty_input (outs @ [paid pay_script v]))"
proof -
  obtain legacy where l: "legacy_address ea lib7 (OutAddress a) = Inr legacy"
    "toOutputScript (lib_codecs lib7) (lib_junk lib7) legacy (Some toBitcoinJS) = Inr pay_script"
    using legacy_script [of lib7 ea a d] assms plain.address_codecs_axioms by (auto simp: address_types_def pay_script_def)
  have "canModifyOutputs (wb_transaction (pay_wb empty_input outs)) = Inr True"
    by (simp add: canModifyOutputs_def every_signature_def pay_wb_def empty_input_def)
  with l assms(4) show ?thesis
    by (simp add: wb_addOutput_def txb_addOutput_def addOutput_def assertE_def pay_wb_def pay_tx_def paid_def)
qed

lemma pay_select:
  "generateTxInput dec_bn lib7 False (Some [pay_utxo a]) new_wallet_txb None (Some (1000, 0)) 1 =
     Inr (pay_wb empty_input [], Some (10000, 0), [pay_utxo a], Some 226)"
proof -
  have "calcFee dec_bn 1 2 1 = Some (fee_sats 1 1 2)" by (rule decimals.calcFee_sats) simp
  moreover have "fee_sats 1 1 2 = 226" by code_simp
  moreover have "bn_gte dec_bn (bn_minus dec_bn (bn_minus dec_bn (Some (10000, 0)) (Some (1000, 0))) (bn_fee dec_bn (Some 226))) (bn_int dec_bn 0)"
    by (simp add: decimals.covered_int [OF decimals.num_remainder [of _ 10000 _ 1000]] dec_num_def)
  moreover have "bn_plus dec_bn (bn_int dec_bn 0) (bn_int dec_bn 10000) = Some (10000, 0)" by (simp add: dec_bn_def dec_op_def)
  ultimately show ?thesis
    by (simp add: generateTxInput_def pay_utxo_def pay_addInput Let_def)
qed

definition pay_outs :: "txout list" where
  "pay_outs = [paid pay_script 1000, paid pay_script 8774]"

lemma pay_outputs:
  assumes "ea_decode ea a = Inr d" "da_type d = ''P2PKH''" "da_hash d = replicate 20 9" "a \<noteq> []"
  shows "generateTxOutput dec_bn ea lib7 False (Some (10, 0)) (Some (1000, 0)) (Some (10000, 0)) a None a (Some 226)
    (pay_wb empty_input []) = Inr (pay_wb empty_input pay_outs)"
proof -
  let ?rem = "bn_minus dec_bn (bn_minus dec_bn (Some (10000, 0)) (Some (1000, 0))) (bn_fee dec_bn (Some 226))"
  have r: "dec_num ?rem = Some (of_int 8774)"
    using decimals.num_remainder [of "Some (10000, 0)" 10000 "Some (1000, 0)" 1000 226] by (simp add: dec_num_def)
  have "\<not> bn_lt dec_bn ?rem (bn_int dec_bn 0)" "bn_gte dec_bn ?rem (bn_int dec_bn 550)" "bn_parseInt dec_bn ?rem = Some 8774"
    using decimals.below_int [OF r, of 0] decimals.covered_int [OF r, of 550] decimals.num_parseInt [OF r] by simp_all
  moreover have "sats_of dec_bn (Some (10, 0)) = Some 1000"
    by (simp add: sats_of_def fromXecToSatoshis_def dec_bn_def dec_op_def dec_num_def)
  moreover note pay_addOutput [OF assms(1-3), of 1000 "[]"] pay_addOutput [OF assms(1-3), of 8774 "[paid pay_script 1000]"]
  ultimately show ?thesis
    using assms(4) by (simp add: generateTxOutput_def pay_outs_def types_Satoshi_def types_UInt53_def)
qed

lemma pay_parse: "parseXecSendValue dec_bn False (Some (Some (10, 0))) None = Inr (Some (10, 0))"
  using decimals.num_lt [OF _ decimals.dust_xec, of "Some (10, 0)" 10] by (simp add: parseXecSendValue_def dec_num_def)

lemma pay_prepare:
  assumes "ea_decode ea a = Inr d" "da_type d = ''P2PKH''" "da_hash d = replicate 20 9" "a \<noteq> []" "isValidXecAddress ea a"
  shows "prepare_send dec_bn ea bs ecies_encrypt lib7 chronik (Some [pay_utxo a]) 1 pay_message False None a (Some (Some (10, 0))) =
    Inr ([pay_utxo a], pay_wb empty_input pay_outs)"
proof -
  have "fromXecToSatoshis dec_bn (Some (10, 0)) 2 = Some (Some (1000, 0))"
    by (simp add: fromXecToSatoshis_def dec_bn_def dec_op_def)
  moreover have "getChangeAddressFromInputUtxos ea [utxo_address (pay_utxo a)] = Inr a"
    using assms(5) by (simp add: getChangeAddressFromInputUtxos_def pay_utxo_def)
  moreover have "add_message ea lib7 pay_message None new_wallet_txb = Inr new_wallet_txb"
    "encrypted_message ea bs chronik ecies_encrypt pay_message a = Inr None"
    by (simp_all add: add_message_def encrypted_message_def pay_message_def)
  ultimately show ?thesis
    using pay_parse pay_select [of a] pay_outputs [OF assms(1-4)] by (simp add: prepare_send_def)
qed

subsection \<open>The signature\<close>

definition pay_ready :: txb_input where
  "pay_ready = sample_ready\<lparr>inp_value := Some 10000\<rparr>"

definition pay_signed :: txb_input where
  "pay_signed = sample_signed\<lparr>inp_value := Some 10000\<rparr>"

definition pay_pair :: "int ecpair" where
  "pay_pair = sample_pair\<lparr>ec_network := toBitcoinJS\<rparr>"

lemma pay_sign_ready: "sign_ready lib7 empty_input sample_key None (Some 10000) None = (pay_ready, Inr ())"
  by code_simp

lemma pay_hash: "hashForCashSignature padded_hashes compactSize_varuint junk (pay_tx pay_outs) 0 sample_script (Some 10000) (Some 0x41) =
    Inr sample_hash"
proof -
  have ok: "tx_ok (pay_tx pay_outs)" "list_all txout_plain (tx_outs (pay_tx pay_outs))"
    by (simp_all add: pay_tx_def pay_outs_def paid_def pay_script_def address_script_def tx_ok_def txin_ok_def txout_ok_def
        txout_plain_def new_txin_def varslice_ok_def types_UInt32_def types_UInt53_def vector_ok_def)
  have mode: "\<not> anyone_can_pay 0x41" "js_and 0x41 SIGHASH_BITCOINCASHBIP143 \<noteq> 0" by code_simp+
  have "replicate 28 (7 :: byte) = [7, 7, 7, 7, 7, 7, 7, 7, 7, 7, 7, 7, 7, 7, 7, 7, 7, 7, 7, 7, 7, 7, 7, 7, 7, 7, 7, 7]" by (simp add: numeral_eq_Suc)
  then have "hash256 padded_hashes (bip143_preimage padded_hashes (pay_tx pay_outs) 0 sample_script 10000 0x41) = sample_hash"
    by (simp add: bip143_preimage_def msg_prevouts_def mode hash256_def padded_hashes_def digest_def pay_tx_def
        sample_hash_def le_bytes_numeral outpoint_bytes_def new_txin_def)
  moreover have "hashForWitnessV0 padded_hashes compactSize_varuint junk (pay_tx pay_outs) 0 sample_script 10000 0x41 =
      Inr (hash256 padded_hashes (bip143_preimage padded_hashes (pay_tx pay_outs) 0 sample_script 10000 0x41))"
    by (rule sg.hashForWitnessV0_bytes [OF ok])
      (simp_all add: pay_tx_def sample_script_def sample_key_def varslice_ok_def types_UInt32_def types_Satoshi_def types_UInt53_def)
  ultimately show ?thesis
    by (simp add: hashForCashSignature_def mode(2) types_UInt32_def types_UInt53_def)
qed

lemma pay_sign_input:
  "sign_input lib7 junk (pay_tx pay_outs) 0 (ecpair_signer lib7 pay_pair) sample_key 0x41 (Some 10000) None pay_ready =
     Some (pay_signed, Inr ())"
proof -
  have s: "toScriptSignature unary_bigi paired_bip66 \<lparr>sig_r = 3, sig_s = 1\<rparr> 0x41 None = Inr sample_signature" by code_simp
  have "inp_signScript pay_ready = Some sample_script" "inp_signatures pay_ready = Some [None]"
    "inp_pubKeys pay_ready = Some [Some (Data sample_key)]" "inp_signType pay_ready = Some P2PKH"
    by (simp_all add: pay_ready_def sample_ready_def)
  then show ?thesis
    by (simp add: sign_input_def pay_hash make_signature_def ecpair_signer_def ecpair_sign_def pay_pair_def sample_pair_def sample_ecdsa s
        pay_ready_def pay_signed_def sample_signed_def)
qed

lemma pay_sign: "sign_utxos lib7 junk (pay_wallet a) 0 [pay_utxo a] (pay_wb empty_input pay_outs) = Some (Inr (pay_wb pay_signed pay_outs))"
proof -
  have "bindE (getUtxoWif a (Some (pay_wallet a))) (getECPairFromWIF lib7) = Inr pay_pair"
  proof -
    have "bi_fromBuffer unary_bigi (be_bytes 32 1) = 1" by (simp add: unary_bigi_def be_nat_be_bytes)
    then show ?thesis
      by (simp add: getUtxoWif_def pay_wallet_def accounts_def getECPairFromWIF_def fromWIF_def plain_wif_def toBitcoinJS_def
          new_ECPair_def assertE_def types_Network_def ring7_simps pay_pair_def sample_pair_def Let_def)
  qed
  moreover have "wb_sign lib7 j (pay_wb empty_input pay_outs) 0 (ecpair_signer lib7 pay_pair) None (Some SIGHASH_ALL) (Some 10000) None =
      Some (pay_wb pay_signed pay_outs, Inr ())" for j
  proof -
    have ht: "js_or SIGHASH_ALL SIGHASH_BITCOINCASHBIP143 = 0x41" by code_simp
    have k: "kp_publicKey (ecpair_signer lib7 pay_pair) = None" "kp_getPublicKeyBuffer (ecpair_signer lib7 pay_pair) = Inr sample_key"
      using sample_public by (simp_all add: ecpair_signer_def pay_pair_def sample_pair_def getPublicKeyBuffer_def ecpair_Q_def)
    have "inp_redeemScript empty_input = None" by (simp add: empty_input_def)
    then show ?thesis
      using pay_sign_input [of j]
      by (simp add: wb_sign_def txb_sign_def ht k pay_sign_ready set_input_def pay_wb_def)
  qed
  ultimately show ?thesis by (simp add: pay_utxo_def del: bindE_Inr_iff)
qed

definition pay_scriptSig :: buffer where
  "pay_scriptSig = push_bytes sample_signature @ push_bytes sample_key"

lemma pay_buildInput: "buildInput lib7 pay_signed False = Inr \<lparr>built_type = Some P2PKH, built_script = pay_scriptSig, built_witness = []\<rparr>"
  by code_simp

definition pay_final :: transaction where
  "pay_final = (pay_tx pay_outs)\<lparr>tx_ins := [(new_txin (replicate 32 7) 0 (Some 0xffffffff))\<lparr>in_script := pay_scriptSig\<rparr>]\<rparr>"

lemma pay_final_ok: "tx_ok pay_final"
proof -
  have "length pay_scriptSig < 100" by code_simp
  then show ?thesis
    by (simp add: pay_final_def pay_tx_def pay_outs_def paid_def pay_script_def address_script_def tx_ok_def txin_ok_def txout_ok_def
        new_txin_def varslice_ok_def types_UInt32_def types_UInt53_def vector_ok_def)
qed

lemma pay_build: "wb_build lib7 (pay_wb pay_signed pay_outs) = Inr (Some pay_final)"
proof -
  let ?b = "wb_transaction (pay_wb pay_signed pay_outs)"
  have "tx_byteLength v False pay_final \<ge> 8" for v by (simp add: tx_byteLength_def)
  with transaction_virtualSize [OF cs.varuint_codec_axioms pay_final_ok]
  have "8 \<le> virtualSize compactSize_varuint pay_final" by (meson order_trans)
  moreover have "inp_value pay_signed = Some 10000" "input_scriptType pay_signed = Some P2PKH" by code_simp+
  ultimately have fees: "\<not> overMaximumFees ?b (virtualSize compactSize_varuint pay_final)"
    by (simp add: overMaximumFees_def pay_wb_def pay_tx_def pay_outs_def paid_def toUint32_def)
  have "clone (txb_tx ?b) = pay_tx pay_outs"
    by (simp add: clone_valid pay_wb_def pay_tx_def pay_outs_def paid_def txout_valid_def types_Satoshi_def types_UInt53_def)
  moreover have "build_step lib7 False (pay_tx pay_outs) (0, pay_signed) = Inr pay_final"
    using \<open>input_scriptType pay_signed = Some P2PKH\<close>
    by (simp add: build_step_def pay_buildInput supportedType_def SIGNABLE_def setInputScript_def setWitness_def pay_final_def pay_tx_def new_txin_def)
  moreover have "txb_inputs ?b = [pay_signed]" "tx_ins (txb_tx ?b) \<noteq> []" "tx_outs (txb_tx ?b) \<noteq> []" "\<not> wb_p2shInput (pay_wb pay_signed pay_outs)"
    by (simp_all add: pay_wb_def pay_tx_def pay_outs_def)
  ultimately show ?thesis
    using fees by (simp add: wb_build_def build_def txb_build_def del: bindE_Inr_iff)
qed

lemma pay_sent:
  assumes "ea_decode ea a = Inr d" "da_type d = ''P2PKH''" "da_hash d = replicate 20 9" "a \<noteq> []" "isValidXecAddress ea a"
  shows "sendXec dec_bn ea bs ecies_encrypt lib7 junk pay_chronik (pay_wallet a) (Some [pay_utxo a]) 1 pay_message False None a
    (Some (Some (10, 0))) = Some (Inr ''https://explorer.e.cash/tx/00'')"
proof -
  obtain hex where "toHex compactSize_varuint (lib_junk lib7) pay_final = Inr hex"
    using cs.tx_toBuffer_fresh [OF pay_final_ok, of "lib_junk lib7" True] by (simp add: toHex_def toBuffer_def)
  moreover have "wb_outs (pay_wb empty_input pay_outs) \<noteq> []" by (simp add: pay_wb_def pay_tx_def pay_outs_def)
  ultimately have "signAndBuildTx lib7 junk [pay_utxo a] (pay_wb empty_input pay_outs) (pay_wallet a) = Some (Inr hex)"
    by (simp add: signAndBuildTx_def signUtxosByAddress_def pay_sign pay_build del: bindE_Inr_iff sign_utxos.simps)
  then show ?thesis
    by (simp add: sendXec_def pay_prepare [OF assms] lift_exn_def broadcast_def pay_chronik_def)
qed

subsection \<open>Payments\<close>

text \<open>C5. 
  When \<open>sendXec\<close> succeeds it has broadcast one transaction. It spends the shortest beginning of the wallet's
  outputs that covers the amount and the fee for its own size; it pays every recipient the amount asked for, to
  the script of the address, after at most one output with a message and before at most one with the change,
  which goes to the address of the first output spent; and what it spends is what it pays, the fee, and a
  remainder only when that is below the dust limit. The recipients' addresses and those of the outputs can be
  decoded, the outputs' values are not negative and below \<open>10^21\<close> in total, the estimated size is below \<open>2^53\<close>
  and the fee rate is not negative.
\<close>

theorem sendXec_accounts:
  assumes "big_numbers bn num" "address_codecs (lib_codecs lib)"
    and "sendXec bn ea bs ecies_encrypt lib junk chronik wallet (Some utxos) rate mo isOneToMany rows dest amount = Some (Inr url)"
    and "known_recipients num ea (recipients bn isOneToMany (the amount) dest rows)"
    and "list_all (\<lambda>u. address_known ea (utxo_address u) \<and> 0 \<le> utxo_value u) utxos" "total_value utxos < 10 ^ 21"
    and "148 * length utxos + 34 * (length (recipients bn isOneToMany (the amount) dest rows) + 1) + 10 \<le> 2 ^ 53" "0 \<le> rate"
  shows "\<exists>tx hex txid outs messages. ck_broadcastTx chronik hex False = Inr (Some txid) \<and> url = ''https://explorer.e.cash/tx/'' @ txid \<and>
    toHex (lib_varuint lib) (lib_junk lib) tx = Inr hex \<and>
    list_all2 (pays num ea) (recipients bn isOneToMany (the amount) dest rows) outs \<and> 550 \<le> paid_sum outs \<and> length messages \<le> 1 \<and>
    payment_of ea rate utxos outs messages (tx_ins tx) (tx_outs tx)"
proof -
  obtain chosen b hex where
    b: "prepare_send bn ea bs ecies_encrypt lib chronik (Some utxos) rate mo isOneToMany rows dest amount = Inr (chosen, b)" and
    h: "signAndBuildTx lib junk chosen b wallet = Some (Inr hex)" "broadcast chronik hex False = Inr url"
    using assms(3) by (rule sendXec_success)
  from big_numbers.prepare_send_result [OF assms(1,2) b assms(4-8)] obtain outs messages where
    o: "list_all2 (pays num ea) (recipients bn isOneToMany (the amount) dest rows) outs" "550 \<le> paid_sum outs"
      "length messages \<le> 1" "wb_ok b" "payment_of ea rate utxos outs messages (wb_ins b) (wb_outs b)" by blast
  obtain tx where "toHex (lib_varuint lib) (lib_junk lib) tx = Inr hex" "tx_outs tx = wb_outs b"
    "map (\<lambda>i. (in_hash i, in_index i)) (tx_ins tx) = map (\<lambda>i. (in_hash i, in_index i)) (wb_ins b)"
    using h(1) o(4) by (rule signAndBuildTx_frame)
  then have "toHex (lib_varuint lib) (lib_junk lib) tx = Inr hex" "payment_of ea rate utxos outs messages (tx_ins tx) (tx_outs tx)"
    using payment_frame [of tx b] o(5) by simp_all
  moreover obtain txid where "ck_broadcastTx chronik hex False = Inr (Some txid)" "url = ''https://explorer.e.cash/tx/'' @ txid"
    using h(2) by (auto simp: broadcast_def split: sum.splits option.splits)
  ultimately show ?thesis using o(1-3) by blast
qed

theorem sendXec_accounts_witness:
  "\<exists>a (tx :: transaction) outs messages. sendXec dec_bn node_ecashaddr hex_bs58 (\<lambda>_ _. Inl (Error ''none'')) lib7 (\<lambda>_ _ _. 0) pay_chronik (pay_wallet a)
      (Some [pay_utxo a]) 1 pay_message False None a (Some (Some (10, 0))) = Some (Inr ''https://explorer.e.cash/tx/00'') \<and>
    list_all2 (pays dec_num node_ecashaddr) [(a, Some (10, 0))] outs \<and>
    payment_of node_ecashaddr 1 [pay_utxo a] outs messages (tx_ins tx) (tx_outs tx)"
proof -
  let ?d = "\<lparr>da_prefix = ''ecash'', da_type = ''P2PKH'', da_hash = replicate 20 9\<rparr>"
  have e: "encodable ?d" by (simp add: encodable_def address_prefixes_def address_types_def)
  obtain a where a: "ea_encode node_ecashaddr ''ecash'' ''P2PKH'' (replicate 20 9) = Inr a"
    using node.encode_total [OF e] by auto
  with node.decode_encode [OF e, of a] obtain rest where d: "ea_decode node_ecashaddr a = Inr ?d" "a = ''ecash'' @ '':'' @ rest" by auto
  have "isValidXecAddress node_ecashaddr a" using node.valid_encoded(1) [OF e] a by simp
  with d have run: "sendXec dec_bn node_ecashaddr hex_bs58 (\<lambda>_ _. Inl (Error ''none'')) lib7 (\<lambda>_ _ _. 0) pay_chronik (pay_wallet a)
      (Some [pay_utxo a]) 1 pay_message False None a (Some (Some (10, 0))) = Some (Inr ''https://explorer.e.cash/tx/00'')"
    by (intro pay_sent [of _ _ ?d]) simp_all
  have k: "address_known node_ecashaddr a" by (simp add: address_known_def d(1) address_types_def)
  then have k1: "known_recipients dec_num node_ecashaddr (recipients dec_bn False (the (Some (Some (10, 0)))) a None)"
    by (simp add: known_recipients_def recipients_def dec_num_def)
  have k2: "list_all (\<lambda>u. address_known node_ecashaddr (utxo_address u) \<and> 0 \<le> utxo_value u) [pay_utxo a]" "total_value [pay_utxo a] < 10 ^ 21"
    using k by (simp_all add: pay_utxo_def)
  have k3: "148 * length [pay_utxo a] + 34 * (length (recipients dec_bn False (the (Some (Some (10, 0)))) a None) + 1) + 10 \<le> 2 ^ 53"
    by (simp add: recipients_def)
  have c: "address_codecs (lib_codecs lib7)" using plain.address_codecs_axioms by simp
  from sendXec_accounts [OF decimals.big_numbers_axioms c run k1 k2 k3 zero_le_one] obtain tx :: transaction and outs messages where
    "list_all2 (pays dec_num node_ecashaddr) (recipients dec_bn False (the (Some (Some (10, 0)))) a None) outs"
    "payment_of node_ecashaddr 1 [pay_utxo a] outs messages (tx_ins tx) (tx_outs tx)" by blast
  moreover have "recipients dec_bn False (the (Some (Some (10, 0)))) a None = [(a, Some (10, 0))]" by (simp add: recipients_def)
  ultimately show ?thesis using run by metis
qed

end
