(* ===== verification/Spec2Isabelle.thy ===== *)
theory Spec2Isabelle
  imports Block Wallet_Payment
begin

text \<open>
  A verification library for the JavaScript packages under \<open>web/\<close>: the transaction library
  \<open>ecashjs-lib\<close> with the packages it is built on (\<open>ecash-ops\<close>, \<open>pushdata-ecash\<close>,
  \<open>ecash-minimaldata\<close>), the signed messages of \<open>xecjs-message\<close>, and the functions with which the wallet
  \<open>cashtab\<close> makes a payment; and for the cash addresses of the node (\<open>src/cashaddr.cpp\<close>, \<open>cashaddrenc.cpp\<close>).

  \<^bold>\<open>The program.\<close> The wallet reads an amount and addresses, selects outputs to spend, computes the fee and the
  change, and gives the library keys and outputs; \<open>TransactionBuilder\<close> collects
  inputs and outputs, asks a key pair for a signature over a digest of the transaction, and writes the script
  signatures. Below it are the transaction with its wire format and its digests, the script templates and the
  script compiler, addresses, key pairs, hierarchical deterministic nodes, and the two signature schemes.
  Blocks are read and checked independently of the builder. A signed message is checked against a cash address.

  \<^bold>\<open>How the code is read.\<close> A JavaScript number that the code uses as an integer is an \<open>int\<close>
  (a \<open>nat\<close> where it is a length, an offset or the result of an unsigned read); the 32-bit operators
  wrap as the language defines them (\<open>toInt32\<close>, \<open>js_and\<close>, \<open>js_shl\<close>, \<dots> in
  \<open>Prelude\<close>). A Node \<open>Buffer\<close> is a list of \<open>8 word\<close>; \<open>Buffer.allocUnsafe\<close>
  takes its contents from a parameter \<open>junk\<close>, so a theorem for every \<open>junk\<close> says that no
  uninitialised byte reaches the result. A thrown exception is the left side of \<open>error + 'a\<close>; an operation
  that changes an object before it throws returns the changed object as well. A property that may be missing is
  an \<open>option\<close>. Code that moves an offset through a buffer is a \<open>writer\<close> or a \<open>reader\<close>, state
  transformers over (buffer, offset). Loops are structural recursions or functions with a termination proof;
  the two loops that may not end (the nonce search and the choice of a random key) are partial functions
  into \<open>option\<close>, and so are \<open>sign\<close> and \<open>sendXec\<close>, which reach one of them. There is no fuel. A promise is
  the value it resolves to or the exception it is rejected with. A C++ function that asserts or throws, or that
  would read outside a vector, returns the left side of a result.

  \<^bold>\<open>Code from other packages\<close> is a parameter, a record of functions, with what is relied on as a locale:
  \<open>varuint_codec\<close> (varuint-bitcoin), \<open>digest_lengths\<close> (create-hash), \<open>signature_codecs\<close> (bigi, bip66),
  \<open>address_codecs\<close> (bs58check, bech32), \<open>ec_group\<close> (ecurve), \<open>key_lib\<close> (all of them with wif and
  create-hmac), \<open>ecashaddr_codec\<close> (ecashaddrjs), \<open>bs58_codec\<close> (bs58), \<open>message_keys\<close> (secp256k1),
  \<open>big_numbers\<close> (bignumber.js). The server chronik and the package ecies-lite are arguments without laws. Each
  locale is interpreted on concrete functions, which also serve the examples. The laws are restricted to the
  arguments that the code forms: multiples of the generator by scalars that are not negative, encodings of finite
  points, version bytes below 256. A private key that does not come from a key pair is assumed not negative.

  \<^bold>\<open>Theories.\<close>
  \<^item> \<open>Prelude\<close>: results, state actions, loops, the 32-bit operators.
  \<^item> \<open>Buffers\<close>: the Node \<open>Buffer\<close> operations, little- and big-endian integers.
  \<^item> \<open>Wire\<close>: the calculus of writers (\<open>writes\<close>) and readers (\<open>reads\<close>), and the
    interfaces \<open>wire_codec\<close> and \<open>prefix_codec\<close>.
  \<^item> \<open>Ops\<close>: the opcode table of \<open>web/ecash-ops\<close> and its inverse.
  \<^item> \<open>Pushdata\<close>: the size prefixes of \<open>web/pushdata-ecash\<close>; interprets \<open>prefix_codec\<close>. The round trip,
    the length of each prefix and the results of a truncated read.
  \<^item> \<open>Script_Number\<close>: \<open>script_number.js\<close>. The round trip of magnitudes below \<open>2^32\<close>, and the bytes and the loss
    for every larger one.
  \<^item> \<open>Minimaldata\<close>: the minimal push check of \<open>web/ecash-minimaldata\<close>.
  \<^item> \<open>Script\<close>: \<open>compile\<close>, \<open>decompile\<close>, \<open>toStack\<close> and the predicates of \<open>script.js\<close>: parsing ends on every
    byte string, compiling what was parsed is stable, and chunks survive the round trip; the exact set of scripts
    that the minimal push check accepts, and where it disagrees with \<open>compile\<close>.
  \<^item> \<open>Script_Asm\<close>: \<open>toASM\<close> and \<open>fromASM\<close>, and which scripts survive the text form.
  \<^item> \<open>Bufferutils\<close>: \<open>bufferutils.js\<close>, with the compact sizes as a parameter.
  \<^item> \<open>Crypto\<close>: \<open>crypto.js\<close>, the number and network checks of \<open>types.js\<close>, \<open>networks.js\<close>.
  \<^item> \<open>Transaction\<close>: \<open>transaction.js\<close> except the digests. \<open>tx_bytes\<close> is the specification of the wire
    format; \<open>toBuffer\<close> writes it, \<open>fromBuffer\<close> reads it back or reports the error, every transaction made
    with the operations serialises.
  \<^item> \<open>Sighash\<close>: the three digests of \<open>transaction.js\<close>: the bytes that are hashed, the part of the
    transaction they depend on, and that they commit to it when no digest collides.
  \<^item> \<open>Block\<close>: \<open>block.js\<close>: the round trip, the compact target as a number, the proof-of-work comparison, the
    Merkle roots.
  \<^item> \<open>Templates\<close>: \<open>templates/\<close>: every template's \<open>check\<close>, \<open>encode\<close> and \<open>decode\<close> and the classifiers; the
    locale \<open>hash_template\<close> holds for the four templates that frame a hash.
  \<^item> \<open>Address\<close>: \<open>address.js\<close> and the round trip between addresses and output scripts.
  \<^item> \<open>Signature\<close>: \<open>ecsignature.js\<close> and the round trips of its four forms.
  \<^item> \<open>Curve\<close>: \<open>rfc6979.js\<close>, \<open>ecdsa.js\<close>, \<open>schnorr.js\<close>: the nonce search finds the first acceptable
    candidate, signatures verify (for Schnorr, exactly when the nonce point is below the order).
  \<^item> \<open>Keys\<close>: \<open>ecpair.js\<close>; the wallet import format round trip.
  \<^item> \<open>HDNode\<close>: \<open>hdnode.js\<close>: the base58 round trip, paths, and that public derivation agrees with private
    derivation.
  \<^item> \<open>Builder_Inputs\<close>, \<open>Builder\<close>: \<open>transaction_builder.js\<close>, its inputs and its operations.
  \<^item> \<open>Builder_Correct\<close>: the invariants of the builder (no output is spent twice, every signature it holds
    verifies on the present transaction), what \<open>build\<close> returns, and reading a transaction back.
  \<^item> \<open>Cashaddr\<close>: \<open>cashaddr.cpp\<close>: the checksum that is created verifies, and what is encoded is decoded.
  \<^item> \<open>Cashaddrenc\<close>: \<open>ConvertBits\<close> of \<open>util/strencodings.h\<close> and \<open>cashaddrenc.cpp\<close>: the round trip of
    destinations, and exactly when decoding leaves the vector.
  \<^item> \<open>Ecashaddr\<close>: the contract of \<open>ecashaddrjs\<close>, interpreted on the node's implementation.
  \<^item> \<open>Message\<close>: \<open>xecjs-message/index.js\<close>: a message that was signed verifies for the signer's address.
  \<^item> \<open>Wallet_Address\<close>: the address checks and conversions of \<open>cashtab/src/utils\<close> (\<open>validation.js\<close>,
    \<open>cashMethods.js\<close>), and that they agree with each other.
  \<^item> \<open>Wallet_OpReturn\<close>: the messages in an \<open>OP_RETURN\<close> output and their parser, and the envelope of an
    encrypted message.
  \<^item> \<open>Wallet_Amount\<close>: units, fees and the checks of amounts; the contract of \<open>bignumber.js\<close>, interpreted on
    decimal numbers. The product of two numbers rounds to 53 bits.
  \<^item> \<open>Wallet_Builder\<close>: \<open>txBuilder.js\<close>: the script that an output to a cash address gets.
  \<^item> \<open>Wallet_Send\<close>, \<open>Wallet_Send_Correct\<close>, \<open>Wallet_Payment\<close>: the inputs, outputs and signatures of a payment
    and \<open>sendXec\<close> of \<open>transactions.js\<close>; what a payment spends and pays; a payment carried through.

  \<^bold>\<open>Not modelled.\<close> The rounding of numbers beyond 53 bits, except in the fee; the aliasing of buffers and
  arrays between caller and library (no operation modelled here writes to a buffer it was given, except the
  serialisers, which return it). Of the wallet: the token transactions, the history of transactions that it
  reads from the server, number formatting in the locale of the browser, the checks of names and settings, and
  its components, which are React rendering, browser storage and network calls around these functions. The
  explorer, the rest of the C++ node, chronik, and the build, test and release scripts.
\<close>

end
